(* ===== verification/Prelude.thy ===== *)
theory Prelude
  imports Main "HOL-Library.Word"
begin

unbundle bit_operations_syntax

text \<open>
  The vocabulary every component of the substrate model shares: the integer types of the
  64-bit target, the parts of the Rust standard library the source uses (checked arithmetic,
  ranges, slice copies, bit scans), results with an explicit panic, and programs over a state with
  the question-mark operator as their bind.
\<close>

section \<open>Integer types of the target\<close>

text \<open>The pinned target is AArch64: a \<open>usize\<close> and a kernel word both have 64 bits.\<close>

type_synonym usize = "64 word"
type_synonym u64 = "64 word"
type_synonym u8 = "8 word"
type_synonym cptr = "64 word"

named_theorems rust_simps "definitions of the standard-library fragment"
named_theorems prog_simps "equations that unfold programs"

section \<open>Results and programs\<close>

text \<open>
  \<open>Ok\<close> and \<open>Err\<close> are the constructors of \<open>Result\<close>; \<open>Panic\<close> is a call that does not return
  because an index, a slice bound or an arithmetic check failed.
\<close>

datatype ('a, 'e) res = Ok 'a | Err 'e | Panic

type_synonym ('s, 'a, 'e) prog = "'s \<Rightarrow> ('a, 'e) res \<times> 's"

primrec map_err :: "('e \<Rightarrow> 'f) \<Rightarrow> ('a, 'e) res \<Rightarrow> ('a, 'f) res" where
  "map_err f (Ok a) = Ok a"
| "map_err f (Err e) = Err (f e)"
| "map_err f Panic = Panic"

primrec map_ok :: "('a \<Rightarrow> 'b) \<Rightarrow> ('a, 'e) res \<Rightarrow> ('b, 'e) res" where
  "map_ok f (Ok a) = Ok (f a)"
| "map_ok f (Err e) = Err e"
| "map_ok f Panic = Panic"

primrec res_bind :: "('a, 'e) res \<Rightarrow> ('a \<Rightarrow> ('b, 'e) res) \<Rightarrow> ('b, 'e) res" where
  "res_bind (Ok a) f = f a"
| "res_bind (Err e) f = Err e"
| "res_bind Panic f = Panic"

primrec ok_or :: "'e \<Rightarrow> 'a option \<Rightarrow> ('a, 'e) res" where
  "ok_or e (Some a) = Ok a"
| "ok_or e None = Err e"

definition pret :: "'a \<Rightarrow> ('s, 'a, 'e) prog" where
  "pret a s = (Ok a, s)"

definition pfail :: "'e \<Rightarrow> ('s, 'a, 'e) prog" where
  "pfail e s = (Err e, s)"

definition pres :: "('a, 'e) res \<Rightarrow> ('s, 'a, 'e) prog" where
  "pres r s = (r, s)"

text \<open>\<open>pbind m f\<close> is \<open>let x = m?; f x\<close>: an error or a panic of \<open>m\<close> leaves at once.\<close>

definition pbind :: "('s, 'a, 'e) prog \<Rightarrow> ('a \<Rightarrow> ('s, 'b, 'e) prog) \<Rightarrow> ('s, 'b, 'e) prog" where
  "pbind m f s = (case m s of
      (Ok a, t) \<Rightarrow> f a t
    | (Err e, t) \<Rightarrow> (Err e, t)
    | (Panic, t) \<Rightarrow> (Panic, t))"

definition pmap_err :: "('e \<Rightarrow> 'f) \<Rightarrow> ('s, 'a, 'e) prog \<Rightarrow> ('s, 'a, 'f) prog" where
  "pmap_err f m s = (case m s of (r, t) \<Rightarrow> (map_err f r, t))"

definition pmap :: "('a \<Rightarrow> 'b) \<Rightarrow> ('s, 'a, 'e) prog \<Rightarrow> ('s, 'b, 'e) prog" where
  "pmap f m s = (case m s of (r, t) \<Rightarrow> (map_ok f r, t))"

text \<open>A \<open>for\<close> loop whose body ends in the question-mark operator.\<close>

fun pfor :: "'x list \<Rightarrow> ('x \<Rightarrow> ('s, unit, 'e) prog) \<Rightarrow> ('s, unit, 'e) prog" where
  "pfor [] body = pret ()"
| "pfor (x # xs) body = pbind (body x) (\<lambda>_. pfor xs body)"

declare pret_def [prog_simps] pfail_def [prog_simps] pres_def [prog_simps]
  pbind_def [prog_simps] pmap_err_def [prog_simps] pmap_def [prog_simps]

lemma map_err_eq_Ok [simp]: "map_err f r = Ok a \<longleftrightarrow> r = Ok a"
  by (cases r) auto

lemma map_ok_eq_Err [simp]: "map_ok f r = Err e \<longleftrightarrow> r = Err e"
  by (cases r) auto

lemma ok_or_eq_Ok [simp]: "ok_or e x = Ok a \<longleftrightarrow> x = Some a"
  by (cases x) auto

lemma ok_or_not_Panic [simp]: "ok_or e x \<noteq> Panic"
  by (cases x) auto

lemma pbind_Ok:
  "pbind m f s = (Ok b, u) \<longleftrightarrow> (\<exists>a t. m s = (Ok a, t) \<and> f a t = (Ok b, u))"
  by (auto simp: pbind_def split: prod.splits res.splits)

lemma pmap_Ok: "pmap f m s = (Ok a, t) \<longleftrightarrow> (\<exists>x. m s = (Ok x, t) \<and> a = f x)"
  by (auto simp: pmap_def split: prod.splits) (metis map_ok.simps res.exhaust res.distinct res.inject(1))+

lemma pbind_Err:
  "pbind m f s = (Err e, u) \<longleftrightarrow>
     m s = (Err e, u) \<or> (\<exists>a t. m s = (Ok a, t) \<and> f a t = (Err e, u))"
  by (auto simp: pbind_def split: prod.splits res.splits)

lemma pbind_run:
  "m s = (Ok a, t) \<Longrightarrow> pbind m f s = f a t"
  "m s = (Err e, t) \<Longrightarrow> pbind m f s = (Err e, t)"
  "m s = (Panic, t) \<Longrightarrow> pbind m f s = (Panic, t)"
  by (simp_all add: pbind_def)

lemma pmap_err_run: "m s = (r, t) \<Longrightarrow> pmap_err f m s = (map_err f r, t)"
  by (simp add: pmap_err_def)

lemma pmap_run: "m s = (r, t) \<Longrightarrow> pmap f m s = (map_ok f r, t)"
  by (simp add: pmap_def)

lemma pfor_append: "pfor (xs @ ys) body = pbind (pfor xs body) (\<lambda>_. pfor ys body)"
  by (induction xs) (auto simp: prog_simps fun_eq_iff split: prod.splits res.splits)

section \<open>The standard-library fragment\<close>

definition checked_add :: "usize \<Rightarrow> usize \<Rightarrow> usize option" where
  "checked_add a b = (if unat a + unat b < 2 ^ 64 then Some (a + b) else None)"

definition checked_sub :: "usize \<Rightarrow> usize \<Rightarrow> usize option" where
  "checked_sub a b = (if b \<le> a then Some (a - b) else None)"

definition checked_shl :: "usize \<Rightarrow> nat \<Rightarrow> usize option" where
  "checked_shl a n = (if n < 64 then Some (push_bit n a) else None)"

definition is_multiple_of :: "usize \<Rightarrow> usize \<Rightarrow> bool" where
  "is_multiple_of a b = (if b = 0 then a = 0 else a mod b = 0)"

definition is_power_of_two :: "usize \<Rightarrow> bool" where
  "is_power_of_two a = list_ex (\<lambda>k. a = push_bit k 1) [0..<64]"

definition trailing_zeros :: "u64 \<Rightarrow> nat" where
  "trailing_zeros x = length (takeWhile (\<lambda>i. \<not> bit x i) [0..<64])"

text \<open>A conversion between \<open>usize\<close> and a kernel word never fails on a 64-bit target.\<close>

definition try_into_word :: "usize \<Rightarrow> (u64, unit) res" where
  "try_into_word a = Ok a"

text \<open>A half-open \<open>Range<usize>\<close>, its length and the indices it iterates over.\<close>

record usize_range =
  range_start :: usize
  range_end :: usize

definition range_is_empty :: "usize_range \<Rightarrow> bool" where
  "range_is_empty r \<longleftrightarrow> \<not> range_start r < range_end r"

definition range_len :: "usize_range \<Rightarrow> nat" where
  "range_len r = (if range_start r < range_end r
     then unat (range_end r) - unat (range_start r) else 0)"

definition range_list :: "usize_range \<Rightarrow> usize list" where
  "range_list r = map of_nat [unat (range_start r) ..< unat (range_end r)]"

text \<open>
  \<open>dst[..n].copy_from_slice(src)\<close>: the slice bound and the equal-length check are the two ways
  to panic (\<open>None\<close>).
\<close>

definition copy_prefix :: "'a list \<Rightarrow> nat \<Rightarrow> 'a list \<Rightarrow> 'a list option" where
  "copy_prefix dst n src =
     (if n \<le> length dst \<and> length src = n then Some (src @ drop n dst) else None)"

text \<open>\<open>xs[..n]\<close>, which panics when \<open>n\<close> is past the end.\<close>

definition slice_to :: "'a list \<Rightarrow> nat \<Rightarrow> 'a list option" where
  "slice_to xs n = (if n \<le> length xs then Some (take n xs) else None)"

primrec or_panic :: "'a option \<Rightarrow> ('a, 'e) res" where
  "or_panic (Some a) = Ok a"
| "or_panic None = Panic"

lemma or_panic_not_Err: "or_panic x = Err e \<Longrightarrow> False"
  by (cases x) simp_all

declare checked_add_def [rust_simps] checked_sub_def [rust_simps] checked_shl_def [rust_simps]
  is_multiple_of_def [rust_simps] try_into_word_def [rust_simps]
  range_is_empty_def [rust_simps] range_len_def [rust_simps]
  copy_prefix_def [rust_simps] slice_to_def [rust_simps]

subsection \<open>Facts about the fragment\<close>

lemma unat_lt_64 [simp]: "unat (a :: usize) < 2 ^ 64"
  using unsigned_less [of a] by simp

lemma checked_add_Some: "checked_add a b = Some c \<longleftrightarrow> unat c = unat a + unat b"
proof
  assume "checked_add a b = Some c"
  then show "unat c = unat a + unat b"
    by (auto simp: checked_add_def unat_word_ariths split: if_splits)
next
  assume sum: "unat c = unat a + unat b"
  with unat_lt_64 [of c] have small: "unat a + unat b < 2 ^ 64" by simp
  then have "unat (a + b) = unat c"
    using sum by (simp add: unat_word_ariths)
  then have "a + b = c" by (simp add: word_unat_eq_iff)
  with small show "checked_add a b = Some c" by (simp add: checked_add_def)
qed

lemma checked_add_None: "checked_add a b = None \<longleftrightarrow> 2 ^ 64 \<le> unat a + unat b"
  by (auto simp: checked_add_def)

lemma checked_sub_Some: "checked_sub a b = Some c \<longleftrightarrow> b \<le> a \<and> c = a - b"
  by (auto simp: checked_sub_def)

lemma checked_sub_None: "checked_sub a b = None \<longleftrightarrow> a < b"
  by (auto simp: checked_sub_def)

lemma unat_sub_le: "b \<le> a \<Longrightarrow> unat (a - b) = unat a - unat (b :: usize)"
  by (rule unat_sub)

lemma checked_succ_below:
  "a < b \<Longrightarrow> checked_add a 1 = Some (a + 1) \<and> unat (a + 1) = Suc (unat a)"
  using unat_lt_64 [of b] by (auto simp: checked_add_def word_less_nat_alt unat_word_ariths)

lemma is_multiple_of_unat:
  "is_multiple_of a b \<longleftrightarrow> (if b = 0 then a = 0 else unat b dvd unat a)"
proof -
  have "a mod b = 0 \<longleftrightarrow> unat a mod unat b = 0"
    by (simp add: word_unat_eq_iff unat_mod)
  then show ?thesis by (auto simp: is_multiple_of_def dvd_eq_mod_eq_0)
qed

lemma length_range_list: "length (range_list r) = range_len r"
  by (auto simp: range_list_def range_len_def word_less_nat_alt)

lemma unat_of_nat_lt: "n < 2 ^ 64 \<Longrightarrow> unat (of_nat n :: usize) = n"
  by (simp add: unat_of_nat take_bit_nat_eq_self)

lemma set_range_list: "set (range_list r) = {range_start r ..< range_end r}"
proof (rule set_eqI)
  fix x
  have "x \<in> set (range_list r) \<longleftrightarrow> (\<exists>n \<in> {unat (range_start r) ..< unat (range_end r)}. x = of_nat n)"
    by (auto simp: range_list_def)
  also have "\<dots> \<longleftrightarrow> unat (range_start r) \<le> unat x \<and> unat x < unat (range_end r)"
  proof
    assume "\<exists>n \<in> {unat (range_start r) ..< unat (range_end r)}. x = of_nat n"
    then obtain n where n: "unat (range_start r) \<le> n" "n < unat (range_end r)" "x = of_nat n"
      by auto
    moreover from n(2) have "n < 2 ^ 64" using unat_lt_64 [of "range_end r"] by linarith
    ultimately show "unat (range_start r) \<le> unat x \<and> unat x < unat (range_end r)"
      by (simp add: unat_of_nat_lt)
  qed (auto intro!: bexI [of _ "unat x"])
  finally show "x \<in> set (range_list r) \<longleftrightarrow> x \<in> {range_start r ..< range_end r}"
    by (simp add: word_le_nat_alt word_less_nat_alt)
qed

lemma distinct_range_list: "distinct (range_list r)"
proof -
  have "inj_on (of_nat :: nat \<Rightarrow> usize) {unat (range_start r) ..< unat (range_end r)}"
  proof (rule inj_onI)
    fix m n :: nat
    assume "m \<in> {unat (range_start r) ..< unat (range_end r)}"
      and "n \<in> {unat (range_start r) ..< unat (range_end r)}"
      and eq: "(of_nat m :: usize) = of_nat n"
    then have "m < 2 ^ 64" and "n < 2 ^ 64"
      using unat_lt_64 [of "range_end r"] by (simp_all only: atLeastLessThan_iff) linarith+
    then show "m = n" using arg_cong [OF eq, of unat] by (simp add: unat_of_nat_lt)
  qed
  then show ?thesis by (simp add: range_list_def distinct_map)
qed

lemma range_list_Cons:
  "range_start r < range_end r \<Longrightarrow>
     range_list r = range_start r # range_list (r\<lparr>range_start := range_start r + 1\<rparr>)"
  using checked_succ_below [of "range_start r" "range_end r"]
  by (simp add: range_list_def word_less_nat_alt upt_conv_Cons)

lemma range_list_empty: "range_end r \<le> range_start r \<Longrightarrow> range_list r = []"
  by (simp add: range_list_def word_le_nat_alt)

end
