(* ===== verification/Errors.thy ===== *)
theory Errors
  imports Prelude
begin

text \<open>
  The failure types of the substrate: \<open>BootstrapError\<close> of errors.rs, \<open>SlotError\<close> of
  ipc\_state.rs, \<open>IpcError\<close>, \<open>BadgeError\<close> and \<open>BadgeAllocationError\<close> of ipc.rs. Counts of
  words and capabilities are lengths of slices, kept as natural numbers.
\<close>

datatype bootstrap_error =
    NoFreeSlots
  | NoKernelMemory
  | KernelAllocationFailed
  | InvalidImageRegion
  | FrameMappingFailed
  | FrameUnmappingFailed
  | InvalidTaskConfiguration
  | VSpaceCreationFailed
  | CSpaceCreationFailed
  | ThreadConfigurationFailed
  | ThreadControlFailed
  | RegisterReadFailed
  | RegisterWriteFailed
  | InvalidRegister
  | RollbackFailed

datatype slot_error =
    Reserved
  | OutOfRange
  | CapacityTooLarge
  | Occupied
  | InvalidReservation

datatype badge_error = ReservedZero

datatype badge_allocation_error = InvalidStart | Exhausted

datatype ipc_error =
    MessageTooLong nat nat
  | TooManyCapabilities nat nat
  | InvalidMessageIndex nat nat
  | ReceiveCapacityExceeded nat nat
  | InvalidReceiveSlot
  | InvalidReceivePath
  | ReplyPending
  | NoReplySlots
  | NoReplyAuthority
  | ReplyCapabilityOperationFailed

end
