(* ===== verification/Contracts.thy ===== *)
theory Contracts
  imports Prelude
begin

text \<open>
  The two interfaces the components share. \<open>step_order\<close>: a reflexive and transitive relation that
  operations keep is kept by everything built from them. \<open>monotone_source\<close>: a counter-like source
  of values never hands a value out twice. Each is interpreted on the model's own operations in
  the theories of the components.
\<close>

section \<open>Contracts: relations that operations respect\<close>

text \<open>
  \<open>keeps R m\<close>: every run of \<open>m\<close>, whatever it returns, relates its start and its final state
  by \<open>R\<close>. For a reflexive and transitive \<open>R\<close> (the locale \<open>step_order\<close>) the contract is closed
  under everything programs are built with.
\<close>

definition keeps :: "('s \<Rightarrow> 's \<Rightarrow> bool) \<Rightarrow> ('s, 'a, 'e) prog \<Rightarrow> bool" where
  "keeps R m \<longleftrightarrow> (\<forall>s. R s (snd (m s)))"

lemma keepsI: "(\<And>s r t. m s = (r, t) \<Longrightarrow> R s t) \<Longrightarrow> keeps R m"
  by (simp add: keeps_def) (metis prod.collapse)

lemma keepsD: "keeps R m \<Longrightarrow> m s = (r, t) \<Longrightarrow> R s t"
  by (auto simp: keeps_def dest: spec [of _ s])

locale step_order =
  fixes R :: "'s \<Rightarrow> 's \<Rightarrow> bool"
  assumes R_refl: "R s s"
    and R_trans: "R s t \<Longrightarrow> R t u \<Longrightarrow> R s u"
begin

lemma keeps_pret: "keeps R (pret a)"
  by (simp add: keeps_def pret_def R_refl)

lemma keeps_pfail: "keeps R (pfail e)"
  by (simp add: keeps_def pfail_def R_refl)

lemma keeps_pres: "keeps R (pres r)"
  by (simp add: keeps_def pres_def R_refl)

lemma keeps_pbind:
  assumes "keeps R m" and "\<And>a. keeps R (f a)"
  shows "keeps R (pbind m f)"
proof (rule keepsI)
  fix s r t
  assume run: "pbind m f s = (r, t)"
  obtain x u where m: "m s = (x, u)" by fastforce
  from assms(1) m have su: "R s u" by (rule keepsD)
  show "R s t"
  proof (cases x)
    case (Ok a)
    with run m have "f a u = (r, t)" by (simp add: pbind_def)
    with assms(2) have "R u t" by (rule keepsD)
    with su show ?thesis by (rule R_trans)
  qed (use run m su in \<open>auto simp: pbind_def\<close>)
qed

text \<open>As above, when the continuation keeps the relation on the values \<open>m\<close> can return.\<close>

lemma keeps_pbind_value:
  assumes "keeps R m" and "\<And>a s t. m s = (Ok a, t) \<Longrightarrow> keeps R (f a)"
  shows "keeps R (pbind m f)"
proof (rule keepsI)
  fix s r t
  assume run: "pbind m f s = (r, t)"
  obtain x u where m: "m s = (x, u)" by fastforce
  from assms(1) m have su: "R s u" by (rule keepsD)
  show "R s t"
  proof (cases x)
    case (Ok a)
    with run m have "f a u = (r, t)" by (simp add: pbind_def)
    moreover from assms(2) m Ok have "keeps R (f a)" by blast
    ultimately have "R u t" by (rule keepsD [rotated])
    with su show ?thesis by (rule R_trans)
  qed (use run m su in \<open>auto simp: pbind_def\<close>)
qed

lemma keeps_pmap_err: "keeps R m \<Longrightarrow> keeps R (pmap_err f m)"
  by (auto simp: pmap_err_def intro!: keepsI dest: keepsD split: prod.splits)

lemma keeps_pmap: "keeps R m \<Longrightarrow> keeps R (pmap f m)"
  by (auto simp: pmap_def intro!: keepsI dest: keepsD split: prod.splits)

lemma keeps_pfor:
  "(\<And>x. x \<in> set xs \<Longrightarrow> keeps R (body x)) \<Longrightarrow> keeps R (pfor xs body)"
  by (induction xs) (auto intro: keeps_pret keeps_pbind)

lemmas keeps_intros =
  keeps_pret keeps_pfail keeps_pres keeps_pbind keeps_pmap_err keeps_pmap
  keeps_pfor

end

section \<open>Monotone sources\<close>

text \<open>
  A source hands out the values of a counter one by one until it is exhausted. Both the slot
  allocator and the badge sequence are such sources; what a client relies on (no value twice, no
  value skipped, exhaustion is permanent) is proved once from the two laws.
\<close>

fun draws :: "('s \<Rightarrow> 'a option \<times> 's) \<Rightarrow> nat \<Rightarrow> 's \<Rightarrow> 'a list \<times> 's" where
  "draws take_next 0 s = ([], s)"
| "draws take_next (Suc n) s = (case take_next s of
       (None, t) \<Rightarrow> draws take_next n t
     | (Some a, t) \<Rightarrow> (case draws take_next n t of (xs, u) \<Rightarrow> (a # xs, u)))"

locale monotone_source =
  fixes take_next :: "'s \<Rightarrow> 'a option \<times> 's"
    and pos :: "'s \<Rightarrow> nat"
    and key :: "'a \<Rightarrow> nat"
    and inv :: "'s \<Rightarrow> bool"
  assumes take_Some: "inv s \<Longrightarrow> take_next s = (Some a, t) \<Longrightarrow>
      key a = pos s \<and> pos t = Suc (pos s) \<and> inv t"
    and take_None: "inv s \<Longrightarrow> take_next s = (None, t) \<Longrightarrow> t = s"
begin

lemma draws_keys:
  "inv s \<Longrightarrow> draws take_next n s = (xs, t) \<Longrightarrow>
     map key xs = [pos s ..< pos s + length xs] \<and> pos t = pos s + length xs \<and> inv t"
proof (induction n arbitrary: s xs t)
  case 0
  then show ?case by simp
next
  case (Suc n)
  obtain r u where step: "take_next s = (r, u)" by fastforce
  show ?case
  proof (cases r)
    case None
    with Suc step show ?thesis by (auto dest: take_None)
  next
    case (Some a)
    obtain ys v where rest: "draws take_next n u = (ys, v)" by fastforce
    with Suc.prems step Some have xs: "xs = a # ys" "t = v" by simp_all
    from Suc.prems(1) step Some have "key a = pos s" "pos u = Suc (pos s)" "inv u"
      by (auto dest: take_Some)
    moreover have "[pos s ..< pos s + length xs] = pos s # [Suc (pos s) ..< pos s + length xs]"
      using xs by (simp add: upt_conv_Cons del: upt_Suc)
    ultimately show ?thesis using Suc.IH [OF _ rest] xs by (simp del: upt_Suc)
  qed
qed

lemma draws_distinct: "inv s \<Longrightarrow> draws take_next n s = (xs, t) \<Longrightarrow> distinct xs"
  using draws_keys [of s n xs t] by (metis distinct_map distinct_upt)

lemma exhausted_forever: "inv s \<Longrightarrow> take_next s = (None, t) \<Longrightarrow> draws take_next n s = ([], s)"
  by (induction n) (auto dest: take_None)

end

end
