(* ===== verification/Free_Slots.thy ===== *)
theory Free_Slots
  imports Contracts
begin

text \<open>
  The model of free\_slots.rs: sequential allocation of root CSpace slot indices, with commit on
  success only, reservation of a contiguous block, and rewinding to a checkpoint. A slot range is
  the half-open range the source keeps; \<open>fs_first\<close> is the field \<open>first\<close>, \<open>fs_remaining\<close> the
  field \<open>remaining\<close>.
\<close>

section \<open>State and operations\<close>

record free_slots =
  fs_first :: usize
  fs_remaining :: usize_range

definition free_slots_new :: "usize_range \<Rightarrow> free_slots" where
  "free_slots_new r = \<lparr>fs_first = range_start r, fs_remaining = r\<rparr>"

abbreviation fs_start :: "free_slots \<Rightarrow> usize" where
  "fs_start f \<equiv> range_start (fs_remaining f)"

abbreviation fs_end :: "free_slots \<Rightarrow> usize" where
  "fs_end f \<equiv> range_end (fs_remaining f)"

definition set_start :: "usize \<Rightarrow> free_slots \<Rightarrow> free_slots" where
  "set_start n f = f\<lparr>fs_remaining := (fs_remaining f)\<lparr>range_start := n\<rparr>\<rparr>"

text \<open>
  The callback \<open>create\<close> runs on the rest of the state and receives the candidate index. It does
  not run at all when the range is empty or its successor does not exist.
\<close>

definition free_slots_try_allocate ::
  "(usize \<Rightarrow> ('w, 'a, 'e) prog) \<Rightarrow> (free_slots \<times> 'w, 'a option, 'e) prog" where
  "free_slots_try_allocate create = (\<lambda>(f, w).
     if range_is_empty (fs_remaining f) then (Ok None, (f, w))
     else (case checked_add (fs_start f) 1 of
         None \<Rightarrow> (Ok None, (f, w))
       | Some next \<Rightarrow>
           (case create (fs_start f) w of
               (Ok v, w') \<Rightarrow> (Ok (Some v), (set_start next f, w'))
             | (Err e, w') \<Rightarrow> (Err e, (f, w'))
             | (Panic, w') \<Rightarrow> (Panic, (f, w')))))"

definition free_slots_checkpoint :: "free_slots \<Rightarrow> usize" where
  "free_slots_checkpoint f = fs_start f"

definition free_slots_reserve :: "usize \<Rightarrow> free_slots \<Rightarrow> usize_range option \<times> free_slots" where
  "free_slots_reserve count f =
     (case checked_add (fs_start f) count of
        None \<Rightarrow> (None, f)
      | Some e \<Rightarrow>
          if e > fs_end f then (None, f)
          else (Some \<lparr>range_start = fs_start f, range_end = e\<rparr>, set_start e f))"

definition free_slots_allocated_since :: "free_slots \<Rightarrow> usize \<Rightarrow> usize_range option" where
  "free_slots_allocated_since f cp =
     (if fs_first f \<le> cp \<and> cp \<le> fs_start f
      then Some \<lparr>range_start = cp, range_end = fs_start f\<rparr> else None)"

definition free_slots_rewind :: "usize \<Rightarrow> free_slots \<Rightarrow> bool \<times> free_slots" where
  "free_slots_rewind cp f =
     (if free_slots_allocated_since f cp = None then (False, f) else (True, set_start cp f))"

section \<open>Basic facts\<close>

lemma set_start_simps [simp]:
  "fs_first (set_start n f) = fs_first f"
  "fs_start (set_start n f) = n"
  "fs_end (set_start n f) = fs_end f"
  "set_start n (set_start m f) = set_start n f"
  "set_start (fs_start f) f = f"
  by (simp_all add: set_start_def)

lemma free_slots_new_simps [simp]:
  "fs_first (free_slots_new r) = range_start r"
  "fs_remaining (free_slots_new r) = r"
  by (simp_all add: free_slots_new_def)

text \<open>
  The successor of a slot below the end always exists, so an allocator says \<open>None\<close> exactly when
  its range is empty.
\<close>

lemma try_allocate_cases:
  "free_slots_try_allocate create (f, w) =
     (if fs_start f < fs_end f then
        (case create (fs_start f) w of
           (Ok v, w') \<Rightarrow> (Ok (Some v), (set_start (fs_start f + 1) f, w'))
         | (Err e, w') \<Rightarrow> (Err e, (f, w'))
         | (Panic, w') \<Rightarrow> (Panic, (f, w')))
      else (Ok None, (f, w)))"
  using checked_succ_below [of "fs_start f" "fs_end f"]
  by (auto simp: free_slots_try_allocate_def range_is_empty_def)

definition fs_next :: "free_slots \<Rightarrow> usize option \<times> free_slots" where
  "fs_next f = (case free_slots_try_allocate (\<lambda>i. (pret i :: (unit, usize, unit) prog)) (f, ()) of
       (Ok x, (g, _)) \<Rightarrow> (x, g)
     | (_, (g, _)) \<Rightarrow> (None, g))"

lemma fs_next_eq:
  "fs_next f = (if fs_start f < fs_end f
     then (Some (fs_start f), set_start (fs_start f + 1) f) else (None, f))"
  by (simp add: fs_next_def try_allocate_cases pret_def)

interpretation slot_source: monotone_source fs_next "\<lambda>f. unat (fs_start f)" unat "\<lambda>_. True"
  using checked_succ_below by unfold_locales (auto simp: fs_next_eq split: if_splits)

lemma draws_fs_next: "fst (draws fs_next n f) = take n (range_list (fs_remaining f))"
proof (induction n arbitrary: f)
  case 0
  then show ?case by simp
next
  case (Suc n)
  show ?case
  proof (cases "fs_start f < fs_end f")
    case True
    then have step: "fs_next f = (Some (fs_start f), set_start (fs_start f + 1) f)"
      by (simp add: fs_next_eq)
    have "fs_remaining (set_start (fs_start f + 1) f) =
        (fs_remaining f)\<lparr>range_start := fs_start f + 1\<rparr>"
      by (simp add: set_start_def)
    with True step Suc.IH [of "set_start (fs_start f + 1) f"] show ?thesis
      by (auto simp: range_list_Cons split: prod.splits)
  next
    case False
    then have "fs_next f = (None, f)" by (simp add: fs_next_eq)
    with False Suc.IH [of f] show ?thesis by (simp add: range_list_empty)
  qed
qed

section \<open>Ownership of slots over any run\<close>

text \<open>
  The second component is the set of indices in use: handed out one by one, as a reserved block,
  or given back by a rewind. A failed creation is a step too.
\<close>

inductive fs_step :: "free_slots \<times> usize set \<Rightarrow> free_slots \<times> usize set \<Rightarrow> bool" where
  fs_alloc: "fs_next f = (Some v, g) \<Longrightarrow> fs_step (f, L) (g, insert v L)"
| fs_failed: "free_slots_try_allocate (\<lambda>i. (pfail e :: (unit, usize, string) prog)) (f, ())
     = (r, (g, ())) \<Longrightarrow> fs_step (f, L) (g, L)"
| fs_reserve: "free_slots_reserve c f = (Some r, g) \<Longrightarrow> fs_step (f, L) (g, L \<union> set (range_list r))"
| fs_rewind: "free_slots_allocated_since f cp = Some r \<Longrightarrow> free_slots_rewind cp f = (True, g) \<Longrightarrow>
     fs_step (f, L) (g, L - set (range_list r))"

inductive fs_reach :: "usize_range \<Rightarrow> free_slots \<times> usize set \<Rightarrow> bool" for r where
  fs_start: "fs_reach r (free_slots_new r, {})"
| fs_trans: "fs_reach r s \<Longrightarrow> fs_step s t \<Longrightarrow> fs_reach r t"

definition fs_inv :: "usize_range \<Rightarrow> free_slots \<times> usize set \<Rightarrow> bool" where
  "fs_inv r = (\<lambda>(f, L). fs_first f = range_start r \<and> fs_end f = range_end r \<and>
     fs_first f \<le> fs_start f \<and> (fs_start f = fs_first f \<or> fs_start f \<le> fs_end f) \<and>
     L = {fs_first f ..< fs_start f})"

lemma free_slots_reserve_Some:
  "free_slots_reserve c f = (Some r, g) \<longleftrightarrow>
     unat (fs_start f) + unat c \<le> unat (fs_end f) \<and>
     r = \<lparr>range_start = fs_start f, range_end = fs_start f + c\<rparr> \<and>
     g = set_start (fs_start f + c) f"
proof (cases "unat (fs_start f) + unat c < 2 ^ 64")
  case True
  then have "unat (fs_start f + c) = unat (fs_start f) + unat c"
    by (simp add: unat_word_ariths)
  with True show ?thesis
    by (auto simp: free_slots_reserve_def checked_add_def word_less_nat_alt)
next
  case False
  with unat_lt_64 [of "fs_end f"] show ?thesis
    by (auto simp: free_slots_reserve_def checked_add_def)
qed

lemma unat_add_below:
  "unat a + unat b \<le> unat (c :: usize) \<Longrightarrow> unat (a + b) = unat a + unat (b :: usize)"
  using unat_lt_64 [of c] by (simp add: unat_word_ariths)

lemma free_slots_rewind_True:
  "free_slots_rewind cp f = (True, g) \<longleftrightarrow>
     fs_first f \<le> cp \<and> cp \<le> fs_start f \<and> g = set_start cp f"
  by (auto simp: free_slots_rewind_def free_slots_allocated_since_def)

lemma word_interval_split:
  "(a :: usize) \<le> b \<Longrightarrow> b \<le> c \<Longrightarrow> {a ..< c} = {a ..< b} \<union> {b ..< c}"
  by (auto simp: ivl_disj_un)

lemma fs_step_inv: "fs_step s t \<Longrightarrow> fs_inv r s \<Longrightarrow> fs_inv r t"
proof (induction rule: fs_step.induct)
  case (fs_alloc f v g L)
  then have lt: "fs_start f < fs_end f" and g: "g = set_start (fs_start f + 1) f" "v = fs_start f"
    by (auto simp: fs_next_eq split: if_splits)
  from checked_succ_below [OF lt] have succ: "unat (fs_start f + 1) = Suc (unat (fs_start f))" by simp
  have "{fs_first f ..< fs_start f + 1} = insert (fs_start f) {fs_first f ..< fs_start f}"
    using fs_alloc.prems succ by (auto simp: fs_inv_def word_le_nat_alt word_less_nat_alt less_Suc_eq
        word_unat_eq_iff)
  with fs_alloc.prems lt succ show ?case
    by (auto simp: fs_inv_def g word_le_nat_alt word_less_nat_alt)
next
  case (fs_failed e f r' g L)
  then show ?case by (auto simp: try_allocate_cases pfail_def split: if_splits)
next
  case (fs_reserve c f r' g L)
  then have le: "unat (fs_start f) + unat c \<le> unat (fs_end f)"
    and r': "r' = \<lparr>range_start = fs_start f, range_end = fs_start f + c\<rparr>"
    and g: "g = set_start (fs_start f + c) f"
    by (auto simp: free_slots_reserve_Some)
  have "{fs_first f ..< fs_start f + c} = {fs_first f ..< fs_start f} \<union> {fs_start f ..< fs_start f + c}"
    using fs_reserve.prems unat_add_below [OF le]
    by (intro word_interval_split) (auto simp: fs_inv_def word_le_nat_alt)
  with fs_reserve.prems unat_add_below [OF le] le show ?case
    by (auto simp: fs_inv_def g r' set_range_list word_le_nat_alt)
next
  case (fs_rewind f cp r' g L)
  then have cp: "fs_first f \<le> cp" "cp \<le> fs_start f" and g: "g = set_start cp f"
    and r': "r' = \<lparr>range_start = cp, range_end = fs_start f\<rparr>"
    by (auto simp: free_slots_rewind_True free_slots_allocated_since_def)
  have "{fs_first f ..< fs_start f} - {cp ..< fs_start f} = {fs_first f ..< cp}"
    using cp by auto
  with fs_rewind.prems cp show ?case
    by (auto simp: fs_inv_def g r' set_range_list)
qed

lemma fs_reach_inv: "fs_reach r s \<Longrightarrow> fs_inv r s"
proof (induction rule: fs_reach.induct)
  case fs_start
  show ?case by (simp add: fs_inv_def)
next
  case (fs_trans s t)
  then show ?case by (blast intro: fs_step_inv)
qed

section \<open>Checkpoints\<close>

text \<open>A construction sequence between a checkpoint and its rewind.\<close>

datatype fs_op = FsAlloc | FsReserve usize

fun fs_run :: "fs_op list \<Rightarrow> free_slots \<Rightarrow> usize list \<times> free_slots" where
  "fs_run [] f = ([], f)"
| "fs_run (FsAlloc # ops) f = (case fs_next f of
      (None, g) \<Rightarrow> fs_run ops g
    | (Some v, g) \<Rightarrow> (case fs_run ops g of (vs, h) \<Rightarrow> (v # vs, h)))"
| "fs_run (FsReserve c # ops) f = (case free_slots_reserve c f of
      (None, g) \<Rightarrow> fs_run ops g
    | (Some r, g) \<Rightarrow> (case fs_run ops g of (vs, h) \<Rightarrow> (range_list r @ vs, h)))"

lemma range_list_append:
  assumes "unat a \<le> unat b" and "unat b \<le> unat c"
  shows "range_list \<lparr>range_start = a, range_end = c\<rparr> =
    range_list \<lparr>range_start = a, range_end = b\<rparr> @ range_list \<lparr>range_start = b, range_end = c\<rparr>"
  using upt_add_eq_append [of "unat a" "unat b" "unat c - unat b"] assms
  by (simp add: range_list_def)

lemma fs_run_spec:
  "fs_run ops f = (vs, g) \<Longrightarrow>
     fs_start f \<le> fs_start g \<and> g = set_start (fs_start g) f \<and>
     vs = range_list \<lparr>range_start = fs_start f, range_end = fs_start g\<rparr>"
proof (induction ops arbitrary: f vs rule: list.induct)
  case Nil
  then show ?case by (simp add: range_list_empty)
next
  case (Cons op ops)
  have chain: "fs_start f \<le> fs_start g \<and> g = set_start (fs_start g) f \<and>
      range_list \<lparr>range_start = fs_start f, range_end = n\<rparr> @ ws =
        range_list \<lparr>range_start = fs_start f, range_end = fs_start g\<rparr>"
    if run: "fs_run ops (set_start n f) = (ws, g)" and le: "fs_start f \<le> n" for n ws
  proof -
    from Cons.IH [OF run] have g: "n \<le> fs_start g" "g = set_start (fs_start g) f"
      "ws = range_list \<lparr>range_start = n, range_end = fs_start g\<rparr>" by simp_all
    with le show ?thesis
      by (simp add: range_list_append [symmetric] word_le_nat_alt)
  qed
  show ?case
  proof (cases op)
    case FsAlloc
    show ?thesis
    proof (cases "fs_start f < fs_end f")
      case True
      let ?h = "set_start (fs_start f + 1) f"
      obtain ws where ws: "fs_run ops ?h = (ws, g)" "vs = fs_start f # ws"
        using Cons.prems FsAlloc True by (auto simp: fs_next_eq split: prod.splits)
      have one: "range_list \<lparr>range_start = fs_start f, range_end = fs_start f + 1\<rparr> = [fs_start f]"
        and le: "fs_start f \<le> fs_start f + 1"
        using checked_succ_below [OF True]
        by (simp_all add: range_list_def word_le_nat_alt)
      from chain [OF ws(1) le] one ws(2) show ?thesis by simp
    next
      case False
      with Cons FsAlloc show ?thesis by (simp add: fs_next_eq)
    qed
  next
    case (FsReserve c)
    show ?thesis
    proof (cases "free_slots_reserve c f")
      case (Pair r h)
      show ?thesis
      proof (cases r)
        case None
        then have "h = f"
          using Pair by (auto simp: free_slots_reserve_def split: option.splits if_splits)
        with Cons FsReserve Pair None show ?thesis by simp
      next
        case (Some b)
        from Pair Some have le: "unat (fs_start f) + unat c \<le> unat (fs_end f)"
          and b: "b = \<lparr>range_start = fs_start f, range_end = fs_start f + c\<rparr>"
          and h: "h = set_start (fs_start f + c) f"
          by (auto simp: free_slots_reserve_Some)
        obtain ws where ws: "fs_run ops (set_start (fs_start f + c) f) = (ws, g)"
            "vs = range_list b @ ws"
          using Cons.prems FsReserve Pair Some h by (auto split: prod.splits)
        from unat_add_below [OF le] have "fs_start f \<le> fs_start f + c"
          by (simp add: word_le_nat_alt)
        from chain [OF ws(1) this] ws(2) b show ?thesis by simp
      qed
    qed
  qed
qed

section \<open>Properties\<close>

text \<open>
  In order, once each, then exhausted forever: \<open>n\<close> allocations with succeeding callbacks from
  a fresh allocator return the first \<open>n\<close> indices of its range in order, and nothing beyond it.
\<close>

lemma slots_in_order:
  "fst (draws fs_next n (free_slots_new r)) = take n (range_list r)"
  by (simp add: draws_fs_next)

text \<open>
  Commit on success only: an allocation runs its callback on the next index exactly when the
  range is not empty, moves the allocator by one slot if and only if the callback succeeds, and
  leaves the allocator as it was on an error or a panic, so a failed creation keeps the slot.
\<close>

lemma try_allocate_commits_on_success:
  assumes "free_slots_try_allocate create (f, w) = (r, (g, v))"
  shows "(r = Ok None \<longleftrightarrow> \<not> fs_start f < fs_end f) \<and>
    (\<forall>a. r = Ok (Some a) \<longleftrightarrow> fs_start f < fs_end f \<and> create (fs_start f) w = (Ok a, v)) \<and>
    (\<forall>a. r = Ok (Some a) \<longrightarrow> unat (free_slots_checkpoint g) = Suc (unat (free_slots_checkpoint f)) \<and>
        fs_first g = fs_first f \<and> fs_end g = fs_end f) \<and>
    ((\<nexists>a. r = Ok (Some a)) \<longrightarrow> g = f)"
  using assms checked_succ_below [of "fs_start f" "fs_end f"]
  by (auto simp: try_allocate_cases free_slots_checkpoint_def split: if_splits prod.splits res.splits)

lemma try_allocate_commits_on_success_example:
  "let f = free_slots_new \<lparr>range_start = 7, range_end = 8\<rparr>;
       create = (\<lambda>i. (pfail ''kernel error'' :: (unit, usize, string) prog))
   in snd (free_slots_try_allocate create (f, ())) = (f, ())"
  using try_allocate_commits_on_success
    [of "\<lambda>i. pfail ''kernel error''" "free_slots_new \<lparr>range_start = 7, range_end = 8\<rparr>" "()"
        "Err ''kernel error''" "free_slots_new \<lparr>range_start = 7, range_end = 8\<rparr>" "()"]
  by (simp add: try_allocate_cases pfail_def)

text \<open>
  C22. No slot has two owners: in every state reachable by allocations, failed allocations,
  reservations and rewinds, the slots in use are exactly those from the start of the range the
  allocator began with up to its next slot; a newly allocated index and a newly reserved block lie
  in that range and hold no index that is in use.
\<close>

theorem handed_out_slots_are_unowned:
  assumes "fs_reach r (f, L)"
  shows "L = {range_start r ..< free_slots_checkpoint f} \<and>
    (fs_next f = (Some v, g) \<longrightarrow> v \<in> set (range_list r) - L) \<and>
    (free_slots_reserve c f = (Some b, h) \<longrightarrow> set (range_list b) \<subseteq> set (range_list r) - L)"
proof (intro conjI impI)
  from fs_reach_inv [OF assms] have inv: "fs_first f = range_start r" "fs_end f = range_end r"
    "fs_first f \<le> fs_start f" "L = {fs_first f ..< fs_start f}" by (auto simp: fs_inv_def)
  from inv show "L = {range_start r ..< free_slots_checkpoint f}" by (simp add: free_slots_checkpoint_def)
  { assume "fs_next f = (Some v, g)"
    with inv show "v \<in> set (range_list r) - L"
      by (auto simp: fs_next_eq set_range_list split: if_splits) }
  assume "free_slots_reserve c f = (Some b, h)"
  then have le: "unat (fs_start f) + unat c \<le> unat (fs_end f)"
    and b: "b = \<lparr>range_start = fs_start f, range_end = fs_start f + c\<rparr>"
    by (auto simp: free_slots_reserve_Some)
  from unat_add_below [OF le] le have "fs_start f + c \<le> fs_end f" by (simp add: word_le_nat_alt)
  with inv b show "set (range_list b) \<subseteq> set (range_list r) - L"
    by (auto simp: set_range_list)
qed

theorem handed_out_slots_are_unowned_witness:
  "let r = \<lparr>range_start = 7, range_end = 9\<rparr>; f = set_start 8 (free_slots_new r)
   in fs_reach r (f, {7}) \<and> {7} = {range_start r ..< free_slots_checkpoint f} \<and> fst (fs_next f) = Some 8 \<and> 8 \<in> set (range_list r) - {7}"
proof -
  let ?r = "\<lparr>range_start = 7, range_end = 9\<rparr>"
  let ?f = "set_start 8 (free_slots_new ?r)"
  have "fs_next (free_slots_new ?r) = (Some 7, ?f)" by (simp add: fs_next_eq)
  from fs_trans [OF fs_start fs_alloc [OF this]]
  have reach: "fs_reach ?r (?f, {7})" by simp
  have next_slot: "fs_next ?f = (Some 8, set_start 9 ?f)" by (simp add: fs_next_eq)
  from handed_out_slots_are_unowned [OF reach, of 8 "set_start 9 ?f"] next_slot
  have "8 \<in> set (range_list ?r) - {7}" and "{7} = {range_start ?r ..< free_slots_checkpoint ?f}" by blast+
  with reach next_slot show ?thesis by (simp only: Let_def fst_conv simp_thms)
qed

text \<open>
  A checkpoint is exact: after any sequence of allocations and reservations, the slots
  committed since the checkpoint are precisely the ones handed out, in order, and rewinding
  restores the allocator to the state it had at the checkpoint.
\<close>

lemma rewind_undoes_construction:
  assumes "fs_first f \<le> fs_start f" and "fs_run ops f = (handed, g)"
  shows "map_option range_list (free_slots_allocated_since g (free_slots_checkpoint f)) = Some handed \<and>
    free_slots_rewind (free_slots_checkpoint f) g = (True, f)"
proof -
  define n where "n = fs_start g"
  note spec = fs_run_spec [OF assms(2), folded n_def]
  from spec have le: "fs_start f \<le> n" by (rule conjunct1)
  from spec have g: "g = set_start n f" by (elim conjE)
  from spec have handed: "handed = range_list \<lparr>range_start = fs_start f, range_end = n\<rparr>"
    by (elim conjE)
  from le assms(1) show ?thesis unfolding g handed
    by (simp add: free_slots_allocated_since_def free_slots_checkpoint_def free_slots_rewind_True)
qed

lemma rewind_undoes_construction_example:
  "let f = free_slots_new \<lparr>range_start = 7, range_end = 12\<rparr>
   in free_slots_rewind 7 (snd (fs_run [FsAlloc, FsReserve 3] f)) = (True, f)"
proof -
  let ?f = "free_slots_new \<lparr>range_start = 7, range_end = 12\<rparr>"
  have "free_slots_rewind (free_slots_checkpoint ?f) (snd (fs_run [FsAlloc, FsReserve 3] ?f)) =
      (True, ?f)"
    using rewind_undoes_construction [of ?f "[FsAlloc, FsReserve 3]"]
    by (metis free_slots_new_simps order_refl prod.collapse)
  then show ?thesis by (simp add: free_slots_checkpoint_def)
qed

end
