(* ===== verification/Ipc_State.thy ===== *)
theory Ipc_State
  imports Contracts Errors
begin

text \<open>
  The model of ipc\_state.rs: the badge sequence, and the tracker that records for every slot of a
  single-level CSpace whether it is free, reserved by a receive in progress, or occupied. A
  reservation holds a reference to the state byte of its slot; the reference is the index of the
  byte in the tracker's array, and the operations on a reservation take the tracker it borrows.
\<close>

section \<open>Badge sequence\<close>

record badge_sequence =
  bs_next :: usize

definition badge_sequence_new :: "usize \<Rightarrow> badge_sequence option" where
  "badge_sequence_new first = (if first \<noteq> 0 then Some \<lparr>bs_next = first\<rparr> else None)"

definition badge_sequence_allocate :: "badge_sequence \<Rightarrow> usize option \<times> badge_sequence" where
  "badge_sequence_allocate s =
     (let badge = bs_next s in
      case checked_add badge 1 of
        None \<Rightarrow> (None, s)
      | Some next \<Rightarrow> if next \<noteq> 0 then (Some badge, s\<lparr>bs_next := next\<rparr>) else (None, s))"

lemma badge_sequence_allocate_eq:
  "badge_sequence_allocate s =
     (if unat (bs_next s) < 2 ^ 64 - 1
      then (Some (bs_next s), s\<lparr>bs_next := bs_next s + 1\<rparr>) else (None, s))"
proof (cases "unat (bs_next s) < 2 ^ 64 - 1")
  case True
  then have "checked_add (bs_next s) 1 = Some (bs_next s + 1)"
    and "unat (bs_next s + 1) = Suc (unat (bs_next s))"
    by (simp_all add: checked_add_def unat_word_ariths)
  then show ?thesis using True
    by (auto simp: badge_sequence_allocate_def Let_def word_unat_eq_iff)
next
  case False
  then have "checked_add (bs_next s) 1 = None" by (simp add: checked_add_None)
  then show ?thesis using False by (simp add: badge_sequence_allocate_def Let_def)
qed

lemma unat_succ_below_max: "unat (a :: usize) < 2 ^ 64 - 1 \<Longrightarrow> unat (a + 1) = Suc (unat a)"
  by (simp add: unat_word_ariths)

text \<open>\<open>n\<close> allocations return the consecutive values below the largest word.\<close>

lemma draws_badge_sequence:
  "map unat (fst (draws badge_sequence_allocate n s)) =
     [unat (bs_next s) ..< min (unat (bs_next s) + n) (2 ^ 64 - 1)]"
proof (induction n arbitrary: s)
  case (Suc n)
  show ?case
  proof (cases "unat (bs_next s) < 2 ^ 64 - 1")
    case True
    then have "badge_sequence_allocate s = (Some (bs_next s), s\<lparr>bs_next := bs_next s + 1\<rparr>)"
      by (simp add: badge_sequence_allocate_eq)
    with True Suc.IH [of "s\<lparr>bs_next := bs_next s + 1\<rparr>"] unat_succ_below_max [OF True]
    show ?thesis
      by (auto simp: upt_conv_Cons simp del: upt_Suc split: prod.splits)
  next
    case False
    then have "badge_sequence_allocate s = (None, s)" by (simp add: badge_sequence_allocate_eq)
    with Suc.IH [of s] False show ?thesis by (simp add: min_def)
  qed
qed simp

section \<open>Slot tracker\<close>

definition FREE :: u8 where "FREE = 0"
definition RESERVED :: u8 where "RESERVED = 1"
definition OCCUPIED :: u8 where "OCCUPIED = 2"

definition MAX_SLOTS :: usize where "MAX_SLOTS = 256"

record slot_tracker =
  st_capacity :: usize
  st_states :: "u8 list"

record slot_reservation =
  sr_slot :: usize
  sr_state :: nat

definition slot_tracker_try_new :: "usize \<Rightarrow> (slot_tracker, slot_error) res" where
  "slot_tracker_try_new capacity =
     (if capacity > MAX_SLOTS then Err CapacityTooLarge
      else Ok \<lparr>st_capacity = capacity, st_states = replicate (unat MAX_SLOTS) FREE\<rparr>)"

text \<open>A mutable reference to the state byte: its index.\<close>

definition slot_tracker_state_mut :: "slot_tracker \<Rightarrow> usize \<Rightarrow> (nat, slot_error) res" where
  "slot_tracker_state_mut t slot =
     (if slot = 0 then Err Reserved
      else if slot \<ge> st_capacity t then Err OutOfRange
      else if unat slot < length (st_states t) then Ok (unat slot) else Err OutOfRange)"

definition set_state :: "nat \<Rightarrow> u8 \<Rightarrow> slot_tracker \<Rightarrow> slot_tracker" where
  "set_state i b t = t\<lparr>st_states := (st_states t)[i := b]\<rparr>"

definition slot_tracker_mark_occupied ::
  "usize \<Rightarrow> slot_tracker \<Rightarrow> (unit, slot_error) res \<times> slot_tracker" where
  "slot_tracker_mark_occupied slot t =
     (case slot_tracker_state_mut t slot of
        Ok i \<Rightarrow> if st_states t ! i \<noteq> FREE then (Err Occupied, t)
                else (Ok (), set_state i OCCUPIED t)
      | Err e \<Rightarrow> (Err e, t)
      | Panic \<Rightarrow> (Panic, t))"

definition slot_tracker_reserve ::
  "usize \<Rightarrow> slot_tracker \<Rightarrow> (slot_reservation, slot_error) res \<times> slot_tracker" where
  "slot_tracker_reserve slot t =
     (case slot_tracker_state_mut t slot of
        Ok i \<Rightarrow> if st_states t ! i \<noteq> FREE then (Err Occupied, t)
                else (Ok \<lparr>sr_slot = slot, sr_state = i\<rparr>, set_state i RESERVED t)
      | Err e \<Rightarrow> (Err e, t)
      | Panic \<Rightarrow> (Panic, t))"

definition slot_tracker_commit ::
  "slot_reservation \<Rightarrow> slot_tracker \<Rightarrow> (unit, slot_error) res \<times> slot_tracker" where
  "slot_tracker_commit r t =
     (if st_states t ! sr_state r \<noteq> RESERVED then (Err InvalidReservation, t)
      else (Ok (), set_state (sr_state r) OCCUPIED t))"

definition slot_tracker_cancel ::
  "slot_reservation \<Rightarrow> slot_tracker \<Rightarrow> (unit, slot_error) res \<times> slot_tracker" where
  "slot_tracker_cancel r t =
     (if st_states t ! sr_state r \<noteq> RESERVED then (Err InvalidReservation, t)
      else (Ok (), set_state (sr_state r) FREE t))"

definition slot_tracker_reservation_slot :: "slot_reservation \<Rightarrow> usize" where
  "slot_tracker_reservation_slot r = sr_slot r"

section \<open>What the tracker promises\<close>

text \<open>
  The abstract view: each slot is free, being received into, or owned. \<open>claim\<close> is the abstract
  operation that \<open>mark_occupied\<close> and \<open>reserve\<close> both implement.
\<close>

datatype slot_view = SFree | SReceiving | SOwned

definition byte_view :: "u8 \<Rightarrow> slot_view" where
  "byte_view b = (if b = FREE then SFree else if b = RESERVED then SReceiving else SOwned)"

definition tracker_view :: "slot_tracker \<Rightarrow> usize \<Rightarrow> slot_view" where
  "tracker_view t i =
     (if unat i < length (st_states t) then byte_view (st_states t ! unat i) else SFree)"

definition tracker_wf :: "slot_tracker \<Rightarrow> bool" where
  "tracker_wf t \<longleftrightarrow> st_capacity t \<le> MAX_SLOTS \<and> length (st_states t) = unat MAX_SLOTS \<and>
     set (st_states t) \<subseteq> {FREE, RESERVED, OCCUPIED} \<and>
     (\<forall>i. i = 0 \<or> st_capacity t \<le> i \<longrightarrow> tracker_view t i = SFree)"

definition claim ::
  "usize \<Rightarrow> slot_view \<Rightarrow> usize \<Rightarrow> (usize \<Rightarrow> slot_view) \<Rightarrow> (usize \<Rightarrow> slot_view, slot_error) res" where
  "claim capacity new i v =
     (if i = 0 then Err Reserved
      else if capacity \<le> i then Err OutOfRange
      else if v i \<noteq> SFree then Err Occupied
      else Ok (v(i := new)))"

text \<open>A reservation that has been neither committed nor cancelled.\<close>

definition live_reservation :: "slot_reservation \<Rightarrow> slot_tracker \<Rightarrow> bool" where
  "live_reservation r t \<longleftrightarrow> sr_state r = unat (sr_slot r) \<and> sr_slot r \<noteq> 0 \<and>
     sr_slot r < st_capacity t \<and> tracker_view t (sr_slot r) = SReceiving"

lemma state_bytes_distinct [simp]:
  "FREE \<noteq> RESERVED" "RESERVED \<noteq> FREE" "FREE \<noteq> OCCUPIED" "OCCUPIED \<noteq> FREE"
  "RESERVED \<noteq> OCCUPIED" "OCCUPIED \<noteq> RESERVED"
  by (simp_all add: FREE_def RESERVED_def OCCUPIED_def)

lemma byte_view_simps [simp]:
  "byte_view FREE = SFree" "byte_view RESERVED = SReceiving" "byte_view OCCUPIED = SOwned"
  by (simp_all add: byte_view_def)

lemma byte_view_eq:
  "byte_view b = SFree \<longleftrightarrow> b = FREE" "byte_view b = SReceiving \<longleftrightarrow> b = RESERVED"
  by (auto simp: byte_view_def)

lemma set_state_simps [simp]:
  "st_capacity (set_state i b t) = st_capacity t"
  "length (st_states (set_state i b t)) = length (st_states t)"
  by (simp_all add: set_state_def)

lemma tracker_view_set_state:
  "unat i < length (st_states t) \<Longrightarrow>
     tracker_view (set_state (unat i) b t) = (tracker_view t)(i := byte_view b)"
  by (auto simp: tracker_view_def set_state_def fun_eq_iff nth_list_update word_unat_eq_iff)

lemma tracker_wf_set_state:
  assumes "tracker_wf t" and "i \<noteq> 0" and "i < st_capacity t" and "b \<in> {FREE, RESERVED, OCCUPIED}"
  shows "tracker_wf (set_state (unat i) b t)"
proof -
  from assms have len: "unat i < length (st_states t)"
    by (auto simp: tracker_wf_def word_le_nat_alt word_less_nat_alt)
  have "set ((st_states t)[unat i := b]) \<subseteq> {FREE, RESERVED, OCCUPIED}"
    using assms(1,4) set_update_subset_insert [of "st_states t" "unat i" b]
    by (auto simp: tracker_wf_def)
  then have "set (st_states (set_state (unat i) b t)) \<subseteq> {FREE, RESERVED, OCCUPIED}"
    by (simp add: set_state_def)
  with assms(1-3) show ?thesis
    by (auto simp: tracker_wf_def tracker_view_set_state [OF len])
qed

lemma state_mut_wf:
  "tracker_wf t \<Longrightarrow> slot_tracker_state_mut t i =
     (if i = 0 then Err Reserved else if st_capacity t \<le> i then Err OutOfRange else Ok (unat i))"
  by (auto simp: slot_tracker_state_mut_def tracker_wf_def word_le_nat_alt)

lemma slot_byte:
  assumes "tracker_wf t" and "i < st_capacity t"
  shows "unat i < length (st_states t)" and "byte_view (st_states t ! unat i) = tracker_view t i"
  using assms by (auto simp: tracker_wf_def tracker_view_def word_le_nat_alt word_less_nat_alt)

lemma try_new_wf: "slot_tracker_try_new c = Ok t \<Longrightarrow>
    tracker_wf t \<and> st_capacity t = c \<and> tracker_view t = (\<lambda>_. SFree)"
  by (auto simp: slot_tracker_try_new_def tracker_wf_def tracker_view_def fun_eq_iff set_replicate_conv_if
      split: if_splits)

lemma mark_occupied_wf:
  "tracker_wf t \<Longrightarrow> slot_tracker_mark_occupied i t =
     (if i = 0 then (Err Reserved, t) else if st_capacity t \<le> i then (Err OutOfRange, t)
      else if tracker_view t i \<noteq> SFree then (Err Occupied, t)
      else (Ok (), set_state (unat i) OCCUPIED t))"
  using slot_byte [of t i]
  by (auto simp: slot_tracker_mark_occupied_def state_mut_wf not_le simp flip: byte_view_eq)

lemma reserve_wf:
  "tracker_wf t \<Longrightarrow> slot_tracker_reserve i t =
     (if i = 0 then (Err Reserved, t) else if st_capacity t \<le> i then (Err OutOfRange, t)
      else if tracker_view t i \<noteq> SFree then (Err Occupied, t)
      else (Ok \<lparr>sr_slot = i, sr_state = unat i\<rparr>, set_state (unat i) RESERVED t))"
  using slot_byte [of t i]
  by (auto simp: slot_tracker_reserve_def state_mut_wf not_le simp flip: byte_view_eq)

lemma view_set_byte:
  "tracker_wf t \<Longrightarrow> i < st_capacity t \<Longrightarrow>
     tracker_view (set_state (unat i) b t) = (tracker_view t)(i := byte_view b)"
  by (simp add: slot_byte(1) tracker_view_set_state)

lemma mark_occupied_refines:
  assumes "tracker_wf t" and "slot_tracker_mark_occupied i t = (x, u)"
  shows "tracker_wf u \<and> st_capacity u = st_capacity t \<and>
    map_ok (\<lambda>_. tracker_view u) x = claim (st_capacity t) SOwned i (tracker_view t) \<and>
    (x \<noteq> Ok () \<longrightarrow> u = t)"
  using assms unfolding mark_occupied_wf [OF assms(1)] claim_def
  by (auto simp: not_le tracker_wf_set_state view_set_byte split: if_splits)

lemma reserve_refines:
  assumes "tracker_wf t" and "slot_tracker_reserve i t = (x, u)"
  shows "tracker_wf u \<and> st_capacity u = st_capacity t \<and>
    map_ok (\<lambda>_. tracker_view u) x = claim (st_capacity t) SReceiving i (tracker_view t) \<and>
    (\<forall>r. x = Ok r \<longrightarrow> live_reservation r u \<and> slot_tracker_reservation_slot r = i) \<and>
    ((\<forall>r. x \<noteq> Ok r) \<longrightarrow> u = t)"
  using assms unfolding reserve_wf [OF assms(1)] claim_def
  by (auto simp: not_le tracker_wf_set_state view_set_byte live_reservation_def
      slot_tracker_reservation_slot_def split: if_splits)

lemma finish_refines:
  assumes "tracker_wf t" and "live_reservation r t"
  shows "slot_tracker_commit r t = (Ok (), set_state (unat (sr_slot r)) OCCUPIED t)"
    and "slot_tracker_cancel r t = (Ok (), set_state (unat (sr_slot r)) FREE t)"
    and "b \<in> {FREE, RESERVED, OCCUPIED} \<Longrightarrow> tracker_wf (set_state (unat (sr_slot r)) b t)"
    and "tracker_view (set_state (unat (sr_slot r)) b t) = (tracker_view t)(sr_slot r := byte_view b)"
  using assms slot_byte [OF assms(1), of "sr_slot r"] tracker_wf_set_state [OF assms(1)]
  by (auto simp: live_reservation_def slot_tracker_commit_def slot_tracker_cancel_def byte_view_eq
      tracker_view_set_state)

section \<open>The interface the receive path relies on\<close>

locale slot_owner =
  fixes wf :: "'t \<Rightarrow> bool"
    and cap :: "'t \<Rightarrow> usize"
    and view :: "'t \<Rightarrow> usize \<Rightarrow> slot_view"
    and live :: "'r \<Rightarrow> 't \<Rightarrow> bool"
    and target :: "'r \<Rightarrow> usize"
    and reserve :: "usize \<Rightarrow> 't \<Rightarrow> ('r, slot_error) res \<times> 't"
    and commit :: "'r \<Rightarrow> 't \<Rightarrow> (unit, slot_error) res \<times> 't"
    and cancel :: "'r \<Rightarrow> 't \<Rightarrow> (unit, slot_error) res \<times> 't"
  assumes reserve_law: "wf t \<Longrightarrow> reserve i t = (x, u) \<Longrightarrow> wf u \<and> cap u = cap t \<and>
      map_ok (\<lambda>_. view u) x = claim (cap t) SReceiving i (view t) \<and>
      (\<forall>r. x = Ok r \<longrightarrow> live r u \<and> target r = i) \<and> ((\<forall>r. x \<noteq> Ok r) \<longrightarrow> u = t)"
    and commit_law: "wf t \<Longrightarrow> live r t \<Longrightarrow> \<exists>u. commit r t = (Ok (), u) \<and> wf u \<and> cap u = cap t \<and>
      view u = (view t)(target r := SOwned)"
    and cancel_law: "wf t \<Longrightarrow> live r t \<Longrightarrow> \<exists>u. cancel r t = (Ok (), u) \<and> wf u \<and> cap u = cap t \<and>
      view u = (view t)(target r := SFree)"
begin

lemma reserve_Ok:
  assumes "wf t" and "reserve i t = (Ok r, u)"
  shows "wf u" "cap u = cap t" "live r u" "target r = i" "i \<noteq> 0" "i < cap t"
    "view t i = SFree" "view u = (view t)(i := SReceiving)"
  using reserve_law [OF assms] by (auto simp: claim_def split: if_splits)

lemma taken_refused:
  assumes "wf t" and "i \<noteq> 0" and "i < cap t" and "view t i \<noteq> SFree"
  shows "reserve i t = (Err Occupied, t)"
proof (cases "reserve i t")
  case (Pair x u)
  from reserve_law [OF assms(1) this] assms(2-4) Pair show ?thesis
    by (cases x) (auto simp: claim_def split: if_splits)
qed

lemma cancelled_is_free:
  assumes "wf t" and "reserve i t = (Ok r, u)"
  shows "\<exists>v. cancel r u = (Ok (), v) \<and> wf v \<and> cap v = cap t \<and> view v = view t"
  using cancel_law [of u r] reserve_Ok [OF assms] by (auto simp: fun_eq_iff)

lemma committed_is_owned:
  assumes "wf t" and "reserve i t = (Ok r, u)"
  shows "\<exists>v. commit r u = (Ok (), v) \<and> wf v \<and> cap v = cap t \<and> view v = (view t)(i := SOwned) \<and>
    reserve i v = (Err Occupied, v)"
proof -
  note res = reserve_Ok [OF assms]
  from commit_law [OF res(1) res(3)] res obtain v where
    v: "commit r u = (Ok (), v)" "wf v" "cap v = cap t" "view v = (view t)(i := SOwned)"
    by (auto simp: fun_eq_iff)
  have "reserve i v = (Err Occupied, v)"
    by (rule taken_refused) (simp_all add: v res(5,6))
  with v show ?thesis by blast
qed

lemma reserved_is_exclusive:
  assumes "wf t" and "reserve i t = (Ok r, u)"
  shows "reserve i u = (Err Occupied, u)"
  using reserve_Ok [OF assms] by (auto intro: taken_refused)

end

interpretation tracker: slot_owner tracker_wf st_capacity tracker_view live_reservation
  slot_tracker_reservation_slot slot_tracker_reserve slot_tracker_commit slot_tracker_cancel
proof unfold_locales
  fix t i x u
  assume "tracker_wf t" and "slot_tracker_reserve i t = (x, u)"
  then show "tracker_wf u \<and> st_capacity u = st_capacity t \<and>
      map_ok (\<lambda>_. tracker_view u) x = claim (st_capacity t) SReceiving i (tracker_view t) \<and>
      (\<forall>r. x = Ok r \<longrightarrow> live_reservation r u \<and> slot_tracker_reservation_slot r = i) \<and>
      ((\<forall>r. x \<noteq> Ok r) \<longrightarrow> u = t)"
    by (rule reserve_refines)
next
  fix t r
  assume "tracker_wf t" and "live_reservation r t"
  note fin = finish_refines [OF this]
  show "\<exists>u. slot_tracker_commit r t = (Ok (), u) \<and> tracker_wf u \<and> st_capacity u = st_capacity t \<and>
      tracker_view u = (tracker_view t)(slot_tracker_reservation_slot r := SOwned)"
    using fin(1,3,4) by (simp add: slot_tracker_reservation_slot_def)
  show "\<exists>u. slot_tracker_cancel r t = (Ok (), u) \<and> tracker_wf u \<and> st_capacity u = st_capacity t \<and>
      tracker_view u = (tracker_view t)(slot_tracker_reservation_slot r := SFree)"
    using fin(2,3,4) by (simp add: slot_tracker_reservation_slot_def)
qed

section \<open>Runs of a tracker\<close>

text \<open>
  Marking a slot, and reserving one with the three possible ends of the reservation: commit,
  cancel, or dropped without either (the borrow ends, no code runs). Failing operations leave the
  tracker as it is.
\<close>

datatype tracker_op = TMark usize | TCommit usize | TCancel usize | TDrop usize

primrec tracker_exec :: "tracker_op \<Rightarrow> slot_tracker \<Rightarrow> slot_tracker" where
  "tracker_exec (TMark i) t = snd (slot_tracker_mark_occupied i t)"
| "tracker_exec (TCommit i) t = (case slot_tracker_reserve i t of
     (Ok r, u) \<Rightarrow> snd (slot_tracker_commit r u) | (_, u) \<Rightarrow> u)"
| "tracker_exec (TCancel i) t = (case slot_tracker_reserve i t of
     (Ok r, u) \<Rightarrow> snd (slot_tracker_cancel r u) | (_, u) \<Rightarrow> u)"
| "tracker_exec (TDrop i) t = snd (slot_tracker_reserve i t)"

lemma tracker_exec_view:
  assumes "tracker_wf t"
  shows "tracker_wf (tracker_exec op t) \<and> st_capacity (tracker_exec op t) = st_capacity t \<and>
    (tracker_view t i \<noteq> SFree \<longrightarrow> tracker_view (tracker_exec op t) i = tracker_view t i)"
proof -
  have reserve: "(\<exists>r. x = Ok r) \<or> x \<noteq> Panic \<and> u = t" if "slot_tracker_reserve j t = (x, u)" for j x u
    using reserve_refines [OF assms that] by (cases x) (auto simp: claim_def split: if_splits)
  show ?thesis
  proof (cases op)
    case (TMark j)
    obtain x u where mark: "slot_tracker_mark_occupied j t = (x, u)" by fastforce
    from mark_occupied_refines [OF assms this] mark TMark assms show ?thesis
      by (cases x) (auto simp: claim_def split: if_splits)
  next
    case (TCommit j)
    obtain x u where res: "slot_tracker_reserve j t = (x, u)" by fastforce
    show ?thesis
    proof (cases x)
      case (Ok r)
      with res have res: "slot_tracker_reserve j t = (Ok r, u)" by simp
      from tracker.committed_is_owned [OF assms res] tracker.reserve_Ok(7) [OF assms res] res TCommit
      show ?thesis by auto
    qed (use reserve [OF res] res TCommit assms in auto)
  next
    case (TCancel j)
    obtain x u where res: "slot_tracker_reserve j t = (x, u)" by fastforce
    show ?thesis
    proof (cases x)
      case (Ok r)
      with res have res: "slot_tracker_reserve j t = (Ok r, u)" by simp
      from tracker.cancelled_is_free [OF assms res] res TCancel show ?thesis by auto
    qed (use reserve [OF res] res TCancel assms in auto)
  next
    case (TDrop j)
    obtain x u where res: "slot_tracker_reserve j t = (x, u)" by fastforce
    from reserve_refines [OF assms res] res TDrop show ?thesis
      by (cases x) (auto simp: claim_def split: if_splits)
  qed
qed

lemma tracker_run_view:
  assumes "tracker_wf t"
  shows "tracker_wf (fold tracker_exec ops t) \<and> st_capacity (fold tracker_exec ops t) = st_capacity t \<and>
    (tracker_view t i \<noteq> SFree \<longrightarrow> tracker_view (fold tracker_exec ops t) i = tracker_view t i)"
  using assms
proof (induction ops arbitrary: t)
  case (Cons op ops)
  from Cons.IH [of "tracker_exec op t"] tracker_exec_view [OF Cons.prems, of op i] show ?case by auto
qed simp

section \<open>Properties\<close>

text \<open>
  C21. The byte array implements slot ownership: on a well-formed tracker both ways of taking a
  slot are the abstract claim on the view (null slot, out of range, already taken, or taken now),
  the fallback of the array access is never used, every other slot is untouched, and a refused
  operation changes nothing.
\<close>

theorem tracker_implements_ownership:
  assumes "tracker_wf t"
  shows "(case slot_tracker_mark_occupied i t of (x, u) \<Rightarrow>
      tracker_wf u \<and> map_ok (\<lambda>_. tracker_view u) x = claim (st_capacity t) SOwned i (tracker_view t) \<and>
      (x \<noteq> Ok () \<longrightarrow> u = t)) \<and>
    (case slot_tracker_reserve i t of (x, u) \<Rightarrow>
      tracker_wf u \<and> map_ok (\<lambda>_. tracker_view u) x = claim (st_capacity t) SReceiving i (tracker_view t) \<and>
      (\<forall>r. x = Ok r \<longrightarrow> live_reservation r u) \<and> ((\<forall>r. x \<noteq> Ok r) \<longrightarrow> u = t))"
proof -
  obtain x u where mark: "slot_tracker_mark_occupied i t = (x, u)" by fastforce
  obtain y v where res: "slot_tracker_reserve i t = (y, v)" by fastforce
  from mark_occupied_refines [OF assms mark] reserve_refines [OF assms res]
  show ?thesis unfolding mark res prod.case by blast
qed

theorem tracker_implements_ownership_witness:
  "\<exists>t. slot_tracker_try_new 8 = Ok t \<and> slot_tracker_reserve 8 t = (Err OutOfRange, t) \<and>
    tracker_view (snd (slot_tracker_mark_occupied 3 t)) 3 = SOwned"
proof -
  obtain t where t: "slot_tracker_try_new 8 = Ok t"
    by (simp add: slot_tracker_try_new_def MAX_SLOTS_def)
  from try_new_wf [OF t] have wf: "tracker_wf t" "st_capacity t = 8" "tracker_view t = (\<lambda>_. SFree)"
    by auto
  obtain x u where mark: "slot_tracker_mark_occupied 3 t = (x, u)" by fastforce
  obtain y v where res: "slot_tracker_reserve 8 t = (y, v)" by fastforce
  from tracker_implements_ownership [OF wf(1), of 3] mark wf(2,3)
  have "tracker_view u 3 = SOwned" by (cases x) (auto simp: claim_def fun_eq_iff)
  moreover from tracker_implements_ownership [OF wf(1), of 8] res wf(2,3)
  have "y = Err OutOfRange \<and> v = t" by (cases y) (auto simp: claim_def)
  ultimately show ?thesis using t mark res by auto
qed

text \<open>
  One-shot reservations: while a reservation is live its slot cannot be reserved again;
  cancelling it succeeds and gives back every slot as it was; committing it succeeds, makes
  exactly that slot owned, and the slot is refused from then on. Neither end of a live
  reservation can report an invalid reservation.
\<close>

lemma reservation_lifecycle:
  assumes "tracker_wf t" and "slot_tracker_reserve i t = (Ok r, u)"
  shows "slot_tracker_reserve i u = (Err Occupied, u) \<and>
    (\<exists>v. slot_tracker_cancel r u = (Ok (), v) \<and> tracker_wf v \<and> tracker_view v = tracker_view t) \<and>
    (\<exists>v. slot_tracker_commit r u = (Ok (), v) \<and> tracker_wf v \<and>
       tracker_view v = (tracker_view t)(i := SOwned) \<and>
       slot_tracker_reserve i v = (Err Occupied, v))"
  using tracker.reserved_is_exclusive [OF assms] tracker.cancelled_is_free [OF assms]
    tracker.committed_is_owned [OF assms] by blast

lemma reservation_lifecycle_example:
  "\<exists>t r u. slot_tracker_try_new 8 = Ok t \<and> slot_tracker_reserve 3 t = (Ok r, u) \<and>
    slot_tracker_reserve 3 u = (Err Occupied, u)"
proof -
  obtain t where t: "slot_tracker_try_new 8 = Ok t"
    by (simp add: slot_tracker_try_new_def MAX_SLOTS_def)
  from try_new_wf [OF t] have wf: "tracker_wf t" by simp
  have "\<exists>r u. slot_tracker_reserve 3 t = (Ok r, u)"
    using t by (auto simp: slot_tracker_try_new_def slot_tracker_reserve_def MAX_SLOTS_def
        slot_tracker_state_mut_def split: if_splits)
  with reservation_lifecycle [OF wf] t show ?thesis by blast
qed

text \<open>
  Ownership is permanent: over any run of operations that starts with no reservation alive, a
  slot that is owned, or whose reservation was dropped without being finished, keeps that state
  and every later attempt to reserve it is refused.
\<close>

lemma taken_slots_stay_taken:
  assumes "tracker_wf t" and "i \<noteq> 0" and "i < st_capacity t" and "tracker_view t i \<noteq> SFree"
  shows "tracker_view (fold tracker_exec ops t) i = tracker_view t i \<and>
    fst (slot_tracker_reserve i (fold tracker_exec ops t)) = Err Occupied"
  using tracker_run_view [OF assms(1), of ops i] assms(2-4)
    tracker.taken_refused [of "fold tracker_exec ops t" i] by simp

lemma taken_slots_stay_taken_example:
  "\<exists>t. slot_tracker_try_new 8 = Ok t \<and>
    fst (slot_tracker_reserve 3 (fold tracker_exec [TMark 3, TCancel 3, TCommit 4] t)) = Err Occupied"
proof -
  obtain t where t: "slot_tracker_try_new 8 = Ok t"
    by (simp add: slot_tracker_try_new_def MAX_SLOTS_def)
  from try_new_wf [OF t] have wf: "tracker_wf t" "st_capacity t = 8" "tracker_view t = (\<lambda>_. SFree)"
    by auto
  let ?u = "tracker_exec (TMark 3) t"
  have u: "tracker_wf ?u" "st_capacity ?u = 8"
    using tracker_exec_view [OF wf(1), of "TMark 3"] wf(2) by (simp_all del: tracker_exec.simps)
  obtain x v where mark: "slot_tracker_mark_occupied 3 t = (x, v)" by fastforce
  with mark_occupied_refines [OF wf(1) mark] wf(2,3) have "tracker_view ?u 3 \<noteq> SFree"
    by (cases x) (auto simp: claim_def fun_eq_iff)
  with taken_slots_stay_taken [OF u(1), of 3 "[TCancel 3, TCommit 4]"] u(2) t show ?thesis by auto
qed

end
