(* ===== verification/Sel4.thy ===== *)
theory Sel4
  imports Ipc_State
begin

text \<open>
  The boundary to the kernel. The crates \<open>sel4\<close> and \<open>sel4-root-task\<close> are not part of the
  repository, so every constant, conversion and invocation the source takes from them is a field
  of the record \<open>sel4\<close>, an argument of every definition that uses it. Values the source builds
  with that crate's constructors (rights, slot addresses, object blueprints) are kept as the
  constructor calls themselves, with no meaning of their own. An invocation acts on the kernel
  state, whose type is a parameter, and on the thread's IPC buffer; a field of function type gives
  the outcome of a call that returns.
\<close>

section \<open>Values handed to the kernel\<close>

datatype sel4_error = NotEnoughMemory | FailedLookup | OtherError nat

text \<open>\<open>CapRights\<close>, by the constructor or builder calls that make them.\<close>

datatype cap_rights =
    RightsReadOnly
  | RightsWriteOnly
  | RightsReadWrite
  | RightsAll
  | RightsNone
  | RightsSetWrite bool cap_rights
  | RightsSetGrant bool cap_rights

text \<open>\<open>AbsoluteCPtr\<close>: a CNode itself, a pointer in it, or index bits with a depth.\<close>

datatype abs_cptr =
    AbsSelf cptr
  | AbsCPtr cptr cptr
  | AbsBits cptr u64 usize

text \<open>\<open>ObjectBlueprint\<close>, by the object type it is taken from.\<close>

datatype blueprint =
    GranuleBp
  | VSpaceBp
  | TcbBp
  | EndpointBp
  | NotificationBp
  | CNodeBp usize
  | TableBp nat

datatype vm_attributes = DefaultVmAttributes

text \<open>\<open>CNodeCapData::new(guard, guard_size)\<close>.\<close>

datatype cnode_cap_data = CNodeCapData u64 usize

text \<open>
  \<open>MessageInfo\<close>, by what its accessors return. How the builder packs the fields into one word is
  not part of the repository: the info built from a label, a number of capabilities and a length is
  the field \<open>message_info\<close> below.
\<close>

record msg_info =
  mi_label :: u64
  mi_caps_unwrapped :: nat
  mi_extra_caps :: nat
  mi_length :: nat

text \<open>The registers of \<open>UserContext\<close> the source reads and writes, and the rest of the frame.\<close>

record user_context =
  uc_pc :: u64
  uc_sp :: u64
  uc_gprs :: "u64 list"
  uc_other :: "u64 list"

record untyped_desc =
  ud_is_device :: bool
  ud_size_bits :: usize

text \<open>\<open>BootInfo\<close>, by the accessors the source calls.\<close>

record bootinfo =
  bi_empty_len :: nat
  bi_empty_range :: usize_range
  bi_untyped_len :: nat
  bi_untyped_cap :: "nat \<Rightarrow> cptr"
  bi_untyped_list :: "untyped_desc list"
  bi_image_len :: nat
  bi_image_cap :: "nat \<Rightarrow> cptr"

record ipc_buffer =
  msg_regs :: "u64 list"
  caps_or_badges :: "u64 list"
  recv_slot :: abs_cptr

section \<open>The kernel as a parameter\<close>

record 'k machine =
  kstate :: 'k
  ipcbuf :: ipc_buffer

type_synonym ('k, 'a) kcall = "('k machine, 'a, sel4_error) prog"

record 'k sel4 =
  WORD_SIZE :: usize
  NUM_MESSAGE_REGISTERS :: nat
  GRANULE_BYTES :: usize
  IPC_BUFFER_SIZE :: usize
  IPC_BUFFER_ALIGN :: usize
  NUM_LEVELS :: nat
  span_bits :: "nat \<Rightarrow> usize"
  table_from_level :: "nat \<Rightarrow> nat option"
  physical_size_bits :: "blueprint \<Rightarrow> usize"
  slot_cptr :: "usize \<Rightarrow> cptr"
  init_cnode :: cptr
  init_vspace :: cptr
  init_asid_pool :: cptr
  null_cptr :: cptr
  default_context :: user_context
  message_info :: "u64 \<Rightarrow> nat \<Rightarrow> nat \<Rightarrow> msg_info"
  untyped_retype :: "cptr \<Rightarrow> blueprint \<Rightarrow> abs_cptr \<Rightarrow> usize \<Rightarrow> usize \<Rightarrow> ('k, unit) kcall"
  cnode_mint :: "abs_cptr \<Rightarrow> abs_cptr \<Rightarrow> cap_rights \<Rightarrow> u64 \<Rightarrow> ('k, unit) kcall"
  cnode_copy :: "abs_cptr \<Rightarrow> abs_cptr \<Rightarrow> cap_rights \<Rightarrow> ('k, unit) kcall"
  cnode_delete :: "abs_cptr \<Rightarrow> ('k, unit) kcall"
  cnode_save_caller :: "abs_cptr \<Rightarrow> ('k, unit) kcall"
  asid_pool_assign :: "cptr \<Rightarrow> cptr \<Rightarrow> ('k, unit) kcall"
  table_map :: "cptr \<Rightarrow> nat \<Rightarrow> cptr \<Rightarrow> usize \<Rightarrow> vm_attributes \<Rightarrow> ('k, unit) kcall"
  frame_map :: "cptr \<Rightarrow> cptr \<Rightarrow> usize \<Rightarrow> cap_rights \<Rightarrow> vm_attributes \<Rightarrow> ('k, unit) kcall"
  frame_unmap :: "cptr \<Rightarrow> ('k, unit) kcall"
  tcb_configure :: "cptr \<Rightarrow> cptr \<Rightarrow> cptr \<Rightarrow> cnode_cap_data \<Rightarrow> cptr \<Rightarrow> u64 \<Rightarrow> cptr \<Rightarrow> ('k, unit) kcall"
  tcb_write_all_registers :: "cptr \<Rightarrow> bool \<Rightarrow> user_context \<Rightarrow> ('k, unit) kcall"
  tcb_read_all_registers :: "cptr \<Rightarrow> bool \<Rightarrow> ('k, user_context) kcall"
  tcb_resume :: "cptr \<Rightarrow> ('k, unit) kcall"
  tcb_suspend :: "cptr \<Rightarrow> ('k, unit) kcall"
  cap_send :: "cptr \<Rightarrow> msg_info \<Rightarrow> 'k machine \<Rightarrow> unit \<times> 'k machine"
  ep_nb_send :: "cptr \<Rightarrow> msg_info \<Rightarrow> 'k machine \<Rightarrow> unit \<times> 'k machine"
  ep_call :: "cptr \<Rightarrow> msg_info \<Rightarrow> 'k machine \<Rightarrow> msg_info \<times> 'k machine"
  ep_recv :: "cptr \<Rightarrow> 'k machine \<Rightarrow> (msg_info \<times> u64) \<times> 'k machine"
  ep_nb_recv :: "cptr \<Rightarrow> 'k machine \<Rightarrow> (msg_info \<times> u64) \<times> 'k machine"
  sys_reply :: "msg_info \<Rightarrow> 'k machine \<Rightarrow> unit \<times> 'k machine"
  ntfn_signal :: "cptr \<Rightarrow> 'k machine \<Rightarrow> unit \<times> 'k machine"
  ntfn_wait :: "cptr \<Rightarrow> 'k machine \<Rightarrow> u64 \<times> 'k machine"
  ntfn_poll :: "cptr \<Rightarrow> 'k machine \<Rightarrow> u64 \<times> 'k machine"

section \<open>The world of the root task\<close>

text \<open>
  Beside the machine, an explicit store of the objects the source shares by reference: the flag
  \<open>implicit_reply_pending\<close> of each endpoint, the occupancy mask of each reply pool, the slot
  tracker of each CSpace. An object that owns one of these holds its address.
\<close>

record 'k world =
  mach :: "'k machine"
  flag_cells :: "nat \<Rightarrow> bool"
  mask_cells :: "nat \<Rightarrow> u64"
  tracker_cells :: "nat \<Rightarrow> slot_tracker"
  next_cell :: nat

definition syscall :: "('k, 'a) kcall \<Rightarrow> ('k world, 'a, sel4_error) prog" where
  "syscall f w = (case f (mach w) of (r, m) \<Rightarrow> (r, w\<lparr>mach := m\<rparr>))"

text \<open>An invocation with no error result.\<close>

definition invoke :: "('k machine \<Rightarrow> 'a \<times> 'k machine) \<Rightarrow> ('k world, 'a, 'e) prog" where
  "invoke f w = (case f (mach w) of (a, m) \<Rightarrow> (Ok a, w\<lparr>mach := m\<rparr>))"

abbreviation wbuf :: "'k world \<Rightarrow> ipc_buffer" where
  "wbuf w \<equiv> ipcbuf (mach w)"

definition set_buf :: "ipc_buffer \<Rightarrow> 'k world \<Rightarrow> 'k world" where
  "set_buf b w = w\<lparr>mach := (mach w)\<lparr>ipcbuf := b\<rparr>\<rparr>"

definition set_flag :: "nat \<Rightarrow> bool \<Rightarrow> 'k world \<Rightarrow> 'k world" where
  "set_flag c b w = w\<lparr>flag_cells := (flag_cells w)(c := b)\<rparr>"

definition set_mask :: "nat \<Rightarrow> u64 \<Rightarrow> 'k world \<Rightarrow> 'k world" where
  "set_mask c m w = w\<lparr>mask_cells := (mask_cells w)(c := m)\<rparr>"

definition set_tracker :: "nat \<Rightarrow> slot_tracker \<Rightarrow> 'k world \<Rightarrow> 'k world" where
  "set_tracker c t w = w\<lparr>tracker_cells := (tracker_cells w)(c := t)\<rparr>"

definition pmodify :: "('s \<Rightarrow> 's) \<Rightarrow> ('s, unit, 'e) prog" where
  "pmodify f s = (Ok (), f s)"

definition fresh_cell :: "('k world, nat, 'e) prog" where
  "fresh_cell w = (Ok (next_cell w), w\<lparr>next_cell := Suc (next_cell w)\<rparr>)"

lemma world_setters [simp]:
  "mach (set_flag c b w) = mach w" "mach (set_mask c m w) = mach w" "mach (set_tracker c t w) = mach w"
  "flag_cells (set_flag c b w) = (flag_cells w)(c := b)" "flag_cells (set_mask c m w) = flag_cells w"
  "flag_cells (set_tracker c t w) = flag_cells w" "flag_cells (set_buf u w) = flag_cells w"
  "mask_cells (set_flag c b w) = mask_cells w" "mask_cells (set_mask c m w) = (mask_cells w)(c := m)"
  "mask_cells (set_tracker c t w) = mask_cells w" "mask_cells (set_buf u w) = mask_cells w"
  "tracker_cells (set_flag c b w) = tracker_cells w" "tracker_cells (set_mask c m w) = tracker_cells w"
  "tracker_cells (set_tracker c t w) = (tracker_cells w)(c := t)"
  "tracker_cells (set_buf u w) = tracker_cells w"
  "kstate (mach (set_buf u w)) = kstate (mach w)" "wbuf (set_buf u w) = u"
  "next_cell (set_flag c b w) = next_cell w" "next_cell (set_mask c m w) = next_cell w"
  "next_cell (set_tracker c t w) = next_cell w" "next_cell (set_buf u w) = next_cell w"
  by (simp_all add: set_flag_def set_mask_def set_tracker_def set_buf_def)

lemma syscall_cells:
  "syscall f w = (r, v) \<Longrightarrow> flag_cells v = flag_cells w \<and> mask_cells v = mask_cells w \<and>
     tracker_cells v = tracker_cells w \<and> next_cell v = next_cell w"
  by (auto simp: syscall_def split: prod.splits)

lemma invoke_cells:
  "invoke f w = (r, v) \<Longrightarrow> flag_cells v = flag_cells w \<and> mask_cells v = mask_cells w \<and>
     tracker_cells v = tracker_cells w \<and> next_cell v = next_cell w \<and> (\<exists>a. r = Ok a)"
  by (auto simp: invoke_def split: prod.splits)

lemma invoke_run: "invoke f w = (Ok (fst (f (mach w))), w\<lparr>mach := snd (f (mach w))\<rparr>)"
  by (simp add: invoke_def split: prod.splits)

end
