(* ===== verification/Root_Slots.thy ===== *)
theory Root_Slots
  imports Free_Slots Sel4
begin

text \<open>
  The parts of cspace.rs that act on the root CSpace (copying a capability into the next tracked
  slot, deleting slots, saving the caller's reply capability), and the ledger: the contract
  between the slot allocator and the kernel's root CSpace that every construction step keeps.
\<close>

section \<open>Operations on the root CSpace\<close>

definition copy_to_root ::
  "'k sel4 \<Rightarrow> cptr \<Rightarrow> cap_rights \<Rightarrow> (free_slots \<times> 'k world, cptr, bootstrap_error) prog" where
  "copy_to_root K source rights =
     pbind
       (free_slots_try_allocate (\<lambda>index.
          pbind
            (pmap_err (\<lambda>_. CSpaceCreationFailed)
              (syscall (cnode_copy K (AbsCPtr (init_cnode K) (slot_cptr K index))
                (AbsCPtr (init_cnode K) source) rights)))
            (\<lambda>_. pret (slot_cptr K index))))
       (\<lambda>copied. pres (ok_or NoFreeSlots copied))"

definition delete_root_slot :: "'k sel4 \<Rightarrow> usize \<Rightarrow> ('k world, unit, sel4_error) prog" where
  "delete_root_slot K slot = syscall (cnode_delete K (AbsCPtr (init_cnode K) (slot_cptr K slot)))"

text \<open>Deletes in reverse order and stops at the first failure.\<close>

definition delete_root_slots ::
  "'k sel4 \<Rightarrow> usize_range \<Rightarrow> ('k world, unit, bootstrap_error) prog" where
  "delete_root_slots K slots =
     pfor (rev (range_list slots)) (\<lambda>index.
       pmap_err (\<lambda>_. RollbackFailed)
         (syscall (cnode_delete K (AbsCPtr (init_cnode K) (slot_cptr K index)))))"

definition save_caller :: "'k sel4 \<Rightarrow> usize \<Rightarrow> ('k world, unit, sel4_error) prog" where
  "save_caller K slot =
     syscall (cnode_save_caller K (AbsCPtr (init_cnode K) (slot_cptr K slot)))"

section \<open>What the construction code relies on in the kernel\<close>

text \<open>
  \<open>occ\<close> reads off a kernel state which root CSpace slots hold a capability. The laws are the
  documented effect of the invocations on these slots: a successful retype or copy fills its
  destination and a failed one does not, a successful delete empties its slot and a failed one
  leaves it, and invocations with no destination in the root CSpace leave all root slots alone.
\<close>

definition fills :: "('k \<Rightarrow> usize set) \<Rightarrow> usize \<Rightarrow> ('k, 'a) kcall \<Rightarrow> bool" where
  "fills occ i f \<longleftrightarrow> (\<forall>m. case f m of (r, n) \<Rightarrow>
     occ (kstate n) = (if \<exists>a. r = Ok a then insert i (occ (kstate m)) else occ (kstate m)))"

definition empties :: "('k \<Rightarrow> usize set) \<Rightarrow> usize \<Rightarrow> ('k, 'a) kcall \<Rightarrow> bool" where
  "empties occ i f \<longleftrightarrow> (\<forall>m. case f m of (r, n) \<Rightarrow>
     occ (kstate n) = (if \<exists>a. r = Ok a then occ (kstate m) - {i} else occ (kstate m)))"

definition quiet :: "('k \<Rightarrow> usize set) \<Rightarrow> ('k, 'a) kcall \<Rightarrow> bool" where
  "quiet occ f \<longleftrightarrow> (\<forall>m. occ (kstate (snd (f m))) = occ (kstate m))"

definition root_slot_laws :: "'k sel4 \<Rightarrow> ('k \<Rightarrow> usize set) \<Rightarrow> bool" where
  "root_slot_laws K occ \<longleftrightarrow>
     (\<forall>ut bp i. fills occ i (untyped_retype K ut bp (AbsSelf (init_cnode K)) i 1)) \<and>
     (\<forall>ut bp i m n. untyped_retype K ut bp (AbsSelf (init_cnode K)) i 1 m = (Ok (), n) \<longrightarrow>
        slot_cptr K i \<noteq> init_cnode K) \<and>
     (\<forall>i src r. fills occ i (cnode_copy K (AbsCPtr (init_cnode K) (slot_cptr K i)) src r)) \<and>
     (\<forall>i. empties occ i (cnode_delete K (AbsCPtr (init_cnode K) (slot_cptr K i)))) \<and>
     (\<forall>root bits depth src r b. root \<noteq> init_cnode K \<longrightarrow>
        quiet occ (cnode_mint K (AbsBits root bits depth) src r b)) \<and>
     (\<forall>p v. quiet occ (asid_pool_assign K p v)) \<and>
     (\<forall>c ty v a at. quiet occ (table_map K c ty v a at)) \<and>
     (\<forall>c v a r at. quiet occ (frame_map K c v a r at)) \<and>
     (\<forall>t e r d v a b. quiet occ (tcb_configure K t e r d v a b)) \<and>
     (\<forall>t b u. quiet occ (tcb_write_all_registers K t b u))"

lemma root_slot_lawsD:
  assumes "root_slot_laws K occ"
  shows law_retype: "fills occ i (untyped_retype K ut bp (AbsSelf (init_cnode K)) i 1)"
    and law_copy: "fills occ i (cnode_copy K (AbsCPtr (init_cnode K) (slot_cptr K i)) src rights)"
    and law_delete: "empties occ i (cnode_delete K (AbsCPtr (init_cnode K) (slot_cptr K i)))"
    and law_mint: "root \<noteq> init_cnode K \<Longrightarrow> quiet occ (cnode_mint K (AbsBits root bits depth) src rights b)"
    and law_asid: "quiet occ (asid_pool_assign K p c)"
    and law_table: "quiet occ (table_map K c ty vs a at)"
    and law_frame: "quiet occ (frame_map K c vs a rights at)"
    and law_configure: "quiet occ (tcb_configure K t e croot d vs a c)"
    and law_registers: "quiet occ (tcb_write_all_registers K t resume u)"
  using assms unfolding root_slot_laws_def by simp_all

lemma law_retype_dest:
  "root_slot_laws K occ \<Longrightarrow> untyped_retype K ut bp (AbsSelf (init_cnode K)) i 1 m = (Ok (), n) \<Longrightarrow>
     slot_cptr K i \<noteq> init_cnode K"
  unfolding root_slot_laws_def by (elim conjE) blast

section \<open>The ledger\<close>

text \<open>
  Between two states of the allocator and the world, the allocator only moved forward inside its
  range; and, when a view \<open>occ\<close> of the kernel is given and the unallocated slots were empty, the
  slots now holding capabilities are the old ones and exactly the newly allocated ones. Without a
  view (\<open>None\<close>) the ledger is the accounting part alone, which needs nothing of the kernel.
\<close>

abbreviation occupied_slots :: "('k \<Rightarrow> usize set) \<Rightarrow> 'k world \<Rightarrow> usize set" where
  "occupied_slots occ w \<equiv> occ (kstate (mach w))"

definition ledger :: "('k \<Rightarrow> usize set) option \<Rightarrow>
    free_slots \<times> 'k world \<Rightarrow> free_slots \<times> 'k world \<Rightarrow> bool" where
  "ledger view = (\<lambda>(f, w) (g, v).
     fs_first g = fs_first f \<and> fs_end g = fs_end f \<and> fs_start f \<le> fs_start g \<and>
     (fs_start g = fs_start f \<or> fs_start g \<le> fs_end f) \<and>
     (\<forall>occ. view = Some occ \<longrightarrow> occupied_slots occ w \<inter> {fs_start f ..< fs_end f} = {} \<longrightarrow>
        occupied_slots occ v = occupied_slots occ w \<union> {fs_start f ..< fs_start g}))"

definition kernel_ok :: "'k sel4 \<Rightarrow> ('k \<Rightarrow> usize set) option \<Rightarrow> bool" where
  "kernel_ok K view \<longleftrightarrow> (\<forall>occ. view = Some occ \<longrightarrow> root_slot_laws K occ)"

lemma ledger_refl: "ledger view s s"
  by (auto simp: ledger_def split: prod.splits)

lemma ledger_trans:
  assumes "ledger view s t" and "ledger view t u"
  shows "ledger view s u"
proof -
  obtain f w g v h x where s: "s = (f, w)" "t = (g, v)" "u = (h, x)" by (metis prod.exhaust)
  from assms s have acct: "fs_first h = fs_first f" "fs_end h = fs_end f" "fs_start f \<le> fs_start g"
    "fs_start g \<le> fs_start h" "fs_start h = fs_start f \<or> fs_start h \<le> fs_end f" "fs_end g = fs_end f"
    by (auto simp: ledger_def)
  have "occupied_slots occ x = occupied_slots occ w \<union> {fs_start f ..< fs_start h}"
    if "view = Some occ" and free: "occupied_slots occ w \<inter> {fs_start f ..< fs_end f} = {}" for occ
  proof -
    from assms(1) s that have first: "occupied_slots occ v =
        occupied_slots occ w \<union> {fs_start f ..< fs_start g}" by (simp add: ledger_def)
    moreover have "{fs_start g ..< fs_end f} \<subseteq> {fs_start f ..< fs_end f}" using acct(3) by auto
    ultimately have "occupied_slots occ v \<inter> {fs_start g ..< fs_end g} = {}"
      using free acct(6) by (auto simp: disjoint_iff)
    with assms(2) s \<open>view = Some occ\<close> have "occupied_slots occ x =
        occupied_slots occ v \<union> {fs_start g ..< fs_start h}" by (simp add: ledger_def)
    with first word_interval_split [OF acct(3,4)] show ?thesis by auto
  qed
  with acct s show ?thesis by (auto simp: ledger_def)
qed

interpretation ledger: step_order "ledger view" for view
  by unfold_locales (auto intro: ledger_refl ledger_trans)

text \<open>Allocating a slot with a callback that fills it keeps the ledger.\<close>

definition fills_slot :: "('k \<Rightarrow> usize set) option \<Rightarrow> (usize \<Rightarrow> ('k world, 'a, 'e) prog) \<Rightarrow> bool" where
  "fills_slot view create \<longleftrightarrow> (\<forall>occ i w r v. view = Some occ \<longrightarrow> create i w = (r, v) \<longrightarrow>
     occupied_slots occ v =
       (if \<exists>a. r = Ok a then insert i (occupied_slots occ w) else occupied_slots occ w))"

lemma ledger_try_allocate:
  assumes "fills_slot view create"
  shows "keeps (ledger view) (free_slots_try_allocate create)"
proof (rule keepsI)
  fix s t :: "free_slots \<times> 'a world" and r
  assume run: "free_slots_try_allocate create s = (r, t)"
  obtain f w where s: "s = (f, w)" by fastforce
  show "ledger view s t"
  proof (cases "fs_start f < fs_end f")
    case False
    with run s show ?thesis by (simp add: try_allocate_cases ledger_refl)
  next
    case True
    obtain x v where create: "create (fs_start f) w = (x, v)" by fastforce
    from assms create have occ: "view = Some occ \<Longrightarrow> occupied_slots occ v =
        (if \<exists>a. x = Ok a then insert (fs_start f) (occupied_slots occ w) else occupied_slots occ w)"
      for occ by (simp add: fills_slot_def)
    from checked_succ_below [OF True] have succ: "unat (fs_start f + 1) = Suc (unat (fs_start f))"
      by simp
    then have one: "{fs_start f ..< fs_start f + 1} = {fs_start f}"
      by (auto simp: word_le_nat_alt word_less_nat_alt word_unat_eq_iff)
    show ?thesis
      using run s True create occ one succ
      by (cases x) (auto simp: try_allocate_cases ledger_def word_le_nat_alt word_less_nat_alt)
  qed
qed

text \<open>World-only steps under the allocator's pair.\<close>

definition on_world :: "('k world, 'a, 'e) prog \<Rightarrow> ('f \<times> 'k world, 'a, 'e) prog" where
  "on_world m = (\<lambda>(f, w). case m w of (r, v) \<Rightarrow> (r, (f, v)))"

lemma ledger_on_world:
  assumes "\<And>occ w r v. view = Some occ \<Longrightarrow> m w = (r, v) \<Longrightarrow> occupied_slots occ v = occupied_slots occ w"
  shows "keeps (ledger view) (on_world m)"
proof (rule keepsI)
  fix s t :: "free_slots \<times> 'a world" and r
  assume run: "on_world m s = (r, t)"
  obtain f w v where "s = (f, w)" and "t = (f, v)" and "m w = (r, v)"
    using run by (cases s) (auto simp: on_world_def split: prod.splits)
  with assms [of _ w r v] show "ledger view s t" by (auto simp: ledger_def)
qed

lemma quiet_syscall:
  "quiet occ f \<Longrightarrow> syscall f w = (r, v) \<Longrightarrow> occupied_slots occ v = occupied_slots occ w"
  by (auto simp: quiet_def syscall_def dest: spec [of _ "mach w"] split: prod.splits)

lemma fills_syscall:
  "fills occ i f \<Longrightarrow> syscall f w = (r, v) \<Longrightarrow> occupied_slots occ v =
     (if \<exists>a. r = Ok a then insert i (occupied_slots occ w) else occupied_slots occ w)"
  by (auto simp: fills_def syscall_def dest!: spec [of _ "mach w"] split: prod.splits)

lemma empties_syscall:
  "empties occ i f \<Longrightarrow> syscall f w = (r, v) \<Longrightarrow> occupied_slots occ v =
     (if \<exists>a. r = Ok a then occupied_slots occ w - {i} else occupied_slots occ w)"
  by (auto simp: empties_def syscall_def dest!: spec [of _ "mach w"] split: prod.splits)

lemma ledger_copy_to_root:
  assumes "kernel_ok K view"
  shows "keeps (ledger view) (copy_to_root K source rights)"
proof -
  let ?copy = "\<lambda>index. syscall (cnode_copy K (AbsCPtr (init_cnode K) (slot_cptr K index))
    (AbsCPtr (init_cnode K) source) rights)"
  have "fills_slot view (\<lambda>index. pbind (pmap_err (\<lambda>_. CSpaceCreationFailed) (?copy index))
      (\<lambda>_. pret (slot_cptr K index)))"
    unfolding fills_slot_def
  proof (intro allI impI)
    fix occ index w r v
    assume view: "view = Some occ"
      and run: "pbind (pmap_err (\<lambda>_. CSpaceCreationFailed) (?copy index))
        (\<lambda>_. pret (slot_cptr K index)) w = (r, v)"
    obtain x u where copy: "?copy index w = (x, u)" by fastforce
    from assms view have "fills occ index (cnode_copy K (AbsCPtr (init_cnode K) (slot_cptr K index))
        (AbsCPtr (init_cnode K) source) rights)"
      by (simp add: kernel_ok_def law_copy)
    from fills_syscall [OF this copy] run copy
    show "occupied_slots occ v = (if \<exists>a. r = Ok a then insert index (occupied_slots occ w)
        else occupied_slots occ w)"
      by (cases x) (auto simp: prog_simps)
  qed
  then show ?thesis
    unfolding copy_to_root_def by (intro ledger.keeps_intros ledger_try_allocate)
qed

text \<open>Deleting an allocated suffix empties exactly its slots.\<close>

lemma delete_root_slots_empties:
  assumes "root_slot_laws K occ" and "delete_root_slots K slots w = (Ok (), v)"
  shows "occupied_slots occ v = occupied_slots occ w - set (range_list slots)"
proof -
  have law: "empties occ i (cnode_delete K (AbsCPtr (init_cnode K) (slot_cptr K i)))" for i
    using assms(1) by (rule law_delete)
  have "pfor xs (\<lambda>index. pmap_err (\<lambda>_. RollbackFailed)
      (syscall (cnode_delete K (AbsCPtr (init_cnode K) (slot_cptr K index))))) w = (Ok (), v) \<Longrightarrow>
      occupied_slots occ v = occupied_slots occ w - set xs" for xs w
  proof (induction xs arbitrary: w)
    case Nil
    then show ?case by (simp add: pret_def)
  next
    case (Cons x xs)
    let ?del = "syscall (cnode_delete K (AbsCPtr (init_cnode K) (slot_cptr K x)))"
    obtain r u where del: "?del w = (r, u)" by fastforce
    with Cons.prems have r: "r = Ok ()"
      by (cases r) (auto simp: pmap_err_run [of ?del, OF del] pbind_def)
    with Cons.prems del have rest: "pfor xs (\<lambda>index. pmap_err (\<lambda>_. RollbackFailed)
        (syscall (cnode_delete K (AbsCPtr (init_cnode K) (slot_cptr K index))))) u = (Ok (), v)"
      by (simp add: pmap_err_run [of ?del, OF del] pbind_def)
    from empties_syscall [OF law del] r have "occupied_slots occ u = occupied_slots occ w - {x}"
      by simp
    with Cons.IH [OF rest] show ?case by auto
  qed
  from this [of "rev (range_list slots)"] assms(2) show ?thesis
    by (simp add: delete_root_slots_def)
qed

end
