(* ===== verification/Reference_Kernel.thy ===== *)
theory Reference_Kernel
  imports Root_Slots
begin

text \<open>
  One concrete kernel, an instance of the parameter record at which the properties are applied.
  It keeps which root slots are occupied, how many objects still fit in each untyped region, the
  messages waiting at each endpoint, the single reply capability of the root task's TCB, the reply
  capabilities saved in root slots, and a log of delivered replies. It is not a model of seL4: the
  properties hold for every kernel that satisfies their hypotheses.
\<close>

text \<open>A waiting message: the sending thread, whether it called (and waits for a reply), badge, info, words.\<close>

record waiting =
  wt_thread :: nat
  wt_call :: bool
  wt_badge :: u64
  wt_info :: msg_info
  wt_words :: "u64 list"

record ref_kernel =
  rk_occ :: "usize list"
  rk_room :: "cptr \<Rightarrow> nat"
  rk_queue :: "cptr \<Rightarrow> waiting list"
  rk_caller :: "nat option"
  rk_saved :: "cptr \<Rightarrow> nat option"
  rk_log :: "(nat \<times> u64 \<times> u64 list) list"

abbreviation on_k :: "(ref_kernel \<Rightarrow> ref_kernel) \<Rightarrow> ref_kernel machine \<Rightarrow> ref_kernel machine" where
  "on_k f m \<equiv> m\<lparr>kstate := f (kstate m)\<rparr>"

definition root_task_cnode :: cptr where "root_task_cnode = 2"

fun ref_retype :: "cptr \<Rightarrow> blueprint \<Rightarrow> abs_cptr \<Rightarrow> usize \<Rightarrow> usize \<Rightarrow> (ref_kernel, unit) kcall" where
  "ref_retype ut bp dest i n m =
     (let k = kstate m in
      if i \<in> set (rk_occ k) \<or> i = root_task_cnode then (Err (OtherError 8), m)
      else if rk_room k ut = 0 then (Err NotEnoughMemory, m)
      else (Ok (), on_k (\<lambda>k. k\<lparr>rk_occ := i # rk_occ k, rk_room := (rk_room k)(ut := rk_room k ut - 1)\<rparr>) m))"

fun ref_copy :: "abs_cptr \<Rightarrow> abs_cptr \<Rightarrow> cap_rights \<Rightarrow> (ref_kernel, unit) kcall" where
  "ref_copy (AbsCPtr r i) (AbsCPtr q s) rights m =
     (let k = kstate m in
      if i \<in> set (rk_occ k) then (Err (OtherError 8), m)
      else if s \<notin> set (rk_occ k) then (Err FailedLookup, m)
      else (Ok (), on_k (\<lambda>k. k\<lparr>rk_occ := i # rk_occ k\<rparr>) m))"
| "ref_copy _ _ rights m = (Err FailedLookup, m)"

fun ref_delete :: "abs_cptr \<Rightarrow> (ref_kernel, unit) kcall" where
  "ref_delete (AbsCPtr r i) m = (Ok (), on_k (\<lambda>k. k\<lparr>rk_occ := removeAll i (rk_occ k), rk_saved := (rk_saved k)(i := None)\<rparr>) m)"
| "ref_delete _ m = (Err FailedLookup, m)"

fun ref_mint :: "abs_cptr \<Rightarrow> abs_cptr \<Rightarrow> cap_rights \<Rightarrow> u64 \<Rightarrow> (ref_kernel, unit) kcall" where
  "ref_mint (AbsBits r bits d) (AbsCPtr q s) rights badge m =
     (if s \<in> set (rk_occ (kstate m)) then (Ok (), m) else (Err FailedLookup, m))"
| "ref_mint _ _ rights badge m = (Err FailedLookup, m)"

fun ref_save_caller :: "abs_cptr \<Rightarrow> (ref_kernel, unit) kcall" where
  "ref_save_caller (AbsCPtr r i) m =
     (let k = kstate m in
      case rk_caller k of
        None \<Rightarrow> (Err FailedLookup, m)
      | Some t \<Rightarrow> (Ok (), on_k (\<lambda>k. k\<lparr>rk_caller := None, rk_saved := (rk_saved k)(i := Some t)\<rparr>) m))"
| "ref_save_caller _ m = (Err FailedLookup, m)"

definition ref_words :: "msg_info \<Rightarrow> ref_kernel machine \<Rightarrow> u64 list" where
  "ref_words info m = take (mi_length info) (msg_regs (ipcbuf m))"

text \<open>Sending to a saved reply capability answers its caller and consumes it.\<close>

definition ref_send :: "cptr \<Rightarrow> msg_info \<Rightarrow> ref_kernel machine \<Rightarrow> unit \<times> ref_kernel machine" where
  "ref_send c info m =
     (case rk_saved (kstate m) c of
        None \<Rightarrow> ((), m)
      | Some t \<Rightarrow> ((), on_k (\<lambda>k. k\<lparr>rk_saved := (rk_saved k)(c := None),
          rk_log := (t, mi_label info, ref_words info m) # rk_log k\<rparr>) m))"

definition ref_reply :: "msg_info \<Rightarrow> ref_kernel machine \<Rightarrow> unit \<times> ref_kernel machine" where
  "ref_reply info m =
     (case rk_caller (kstate m) of
        None \<Rightarrow> ((), m)
      | Some t \<Rightarrow> ((), on_k (\<lambda>k. k\<lparr>rk_caller := None, rk_log := (t, mi_label info, ref_words info m) # rk_log k\<rparr>) m))"

text \<open>
  Receiving takes the first waiting message of the endpoint, copies its words into the message
  registers and makes the sender, when it called, the holder of the one reply capability, which
  replaces the previous one.
\<close>

definition empty_info :: msg_info where
  "empty_info = \<lparr>mi_label = 0, mi_caps_unwrapped = 0, mi_extra_caps = 0, mi_length = 0\<rparr>"

definition ref_recv :: "cptr \<Rightarrow> ref_kernel machine \<Rightarrow> (msg_info \<times> u64) \<times> ref_kernel machine" where
  "ref_recv c m =
     (case rk_queue (kstate m) c of
        [] \<Rightarrow> ((empty_info, 0), m)
      | x # rest \<Rightarrow>
          ((wt_info x, wt_badge x),
           m\<lparr>kstate := (kstate m)\<lparr>rk_queue := (rk_queue (kstate m))(c := rest),
               rk_caller := (if wt_call x then Some (wt_thread x) else None)\<rparr>,
             ipcbuf := (ipcbuf m)\<lparr>msg_regs := take (length (msg_regs (ipcbuf m)))
               (wt_words x @ drop (length (wt_words x)) (msg_regs (ipcbuf m)))\<rparr>\<rparr>))"

text \<open>
  The message info of the 64-bit kernel has 52 bits for the label, two for the number of
  capabilities and seven for the length; what does not fit is cut off.
\<close>

definition packed_info :: "u64 \<Rightarrow> nat \<Rightarrow> nat \<Rightarrow> msg_info" where
  "packed_info label extra_caps n = \<lparr>mi_label = take_bit 52 label, mi_caps_unwrapped = 0,
     mi_extra_caps = extra_caps mod 4, mi_length = n mod 128\<rparr>"

definition ref_sel4 :: "ref_kernel sel4" where
  "ref_sel4 = \<lparr>
     WORD_SIZE = 64,
     NUM_MESSAGE_REGISTERS = 4,
     GRANULE_BYTES = 4096,
     IPC_BUFFER_SIZE = 1024,
     IPC_BUFFER_ALIGN = 512,
     NUM_LEVELS = 4,
     span_bits = (\<lambda>l. if l = 1 then 39 else if l = 2 then 30 else 21),
     table_from_level = (\<lambda>l. if l < 4 then Some l else None),
     physical_size_bits = (\<lambda>bp. case bp of CNodeBp n \<Rightarrow> n + 5 | TcbBp \<Rightarrow> 11 | EndpointBp \<Rightarrow> 4
        | NotificationBp \<Rightarrow> 5 | _ \<Rightarrow> 12),
     slot_cptr = (\<lambda>i. i),
     init_cnode = root_task_cnode,
     init_vspace = 3,
     init_asid_pool = 6,
     null_cptr = 0,
     default_context = \<lparr>uc_pc = 0, uc_sp = 0, uc_gprs = replicate 31 0, uc_other = []\<rparr>,
     message_info = packed_info,
     untyped_retype = ref_retype,
     cnode_mint = ref_mint,
     cnode_copy = ref_copy,
     cnode_delete = ref_delete,
     cnode_save_caller = ref_save_caller,
     asid_pool_assign = (\<lambda>p v m. (Ok (), m)),
     table_map = (\<lambda>c ty v a at m. (Ok (), m)),
     frame_map = (\<lambda>c v a r at m. (Ok (), m)),
     frame_unmap = (\<lambda>c m. (Ok (), m)),
     tcb_configure = (\<lambda>t e r d v a b m. (Ok (), m)),
     tcb_write_all_registers = (\<lambda>t b u m. (Ok (), m)),
     tcb_read_all_registers =
       (\<lambda>t b m. (Ok \<lparr>uc_pc = 0, uc_sp = 0, uc_gprs = replicate 31 0, uc_other = []\<rparr>, m)),
     tcb_resume = (\<lambda>t m. (Ok (), m)),
     tcb_suspend = (\<lambda>t m. (Ok (), m)),
     cap_send = ref_send,
     ep_nb_send = ref_send,
     ep_call = (\<lambda>c info m. (empty_info, m)),
     ep_recv = ref_recv,
     ep_nb_recv = ref_recv,
     sys_reply = ref_reply,
     ntfn_signal = (\<lambda>c m. ((), m)),
     ntfn_wait = (\<lambda>c m. (1, m)),
     ntfn_poll = (\<lambda>c m. (0, m))\<rparr>"

text \<open>A world over this kernel with the root slots \<open>occupied\<close> in use and nothing allocated yet.\<close>

definition ref_world :: "usize list \<Rightarrow> (cptr \<Rightarrow> waiting list) \<Rightarrow> ref_kernel world" where
  "ref_world occupied queue = \<lparr>
     mach = \<lparr>
       kstate = \<lparr>rk_occ = occupied, rk_room = (\<lambda>_. 100), rk_queue = queue, rk_caller = None,
         rk_saved = (\<lambda>_. None), rk_log = []\<rparr>,
       ipcbuf = \<lparr>msg_regs = [0, 0, 0, 0], caps_or_badges = [0, 0, 0, 0], recv_slot = AbsBits 0 0 0\<rparr>\<rparr>,
     flag_cells = (\<lambda>_. False),
     mask_cells = (\<lambda>_. 0),
     tracker_cells = (\<lambda>_. \<lparr>st_capacity = 0, st_states = []\<rparr>),
     next_cell = 0\<rparr>"

text \<open>The world in which the root task holds the reply capability of the caller \<open>t\<close>.\<close>

definition ref_called :: "nat \<Rightarrow> ref_kernel world \<Rightarrow> ref_kernel world" where
  "ref_called t w = w\<lparr>mach := on_k (\<lambda>k. k\<lparr>rk_caller := Some t\<rparr>) (mach w)\<rparr>"

definition ref_occ :: "ref_kernel \<Rightarrow> usize set" where
  "ref_occ k = set (rk_occ k)"

lemma ref_sel4_simps [simp]:
  "WORD_SIZE ref_sel4 = 64" "NUM_MESSAGE_REGISTERS ref_sel4 = 4" "GRANULE_BYTES ref_sel4 = 4096"
  "IPC_BUFFER_SIZE ref_sel4 = 1024" "IPC_BUFFER_ALIGN ref_sel4 = 512"
  "NUM_LEVELS ref_sel4 = 4" "slot_cptr ref_sel4 = (\<lambda>i. i)" "init_cnode ref_sel4 = root_task_cnode"
  "message_info ref_sel4 = packed_info"
  "untyped_retype ref_sel4 = ref_retype" "cnode_mint ref_sel4 = ref_mint"
  "cnode_copy ref_sel4 = ref_copy" "cnode_delete ref_sel4 = ref_delete"
  "cnode_save_caller ref_sel4 = ref_save_caller" "cap_send ref_sel4 = ref_send"
  "ep_nb_send ref_sel4 = ref_send"
  "ep_recv ref_sel4 = ref_recv" "ep_nb_recv ref_sel4 = ref_recv" "sys_reply ref_sel4 = ref_reply"
  "asid_pool_assign ref_sel4 = (\<lambda>p v m. (Ok (), m))"
  "table_map ref_sel4 = (\<lambda>c ty v a at m. (Ok (), m))"
  "frame_map ref_sel4 = (\<lambda>c v a r at m. (Ok (), m))"
  "tcb_configure ref_sel4 = (\<lambda>t e r d v a b m. (Ok (), m))"
  "tcb_write_all_registers ref_sel4 = (\<lambda>t b u m. (Ok (), m))"
  by (simp_all add: ref_sel4_def)

text \<open>The kernel satisfies the laws of root slots.\<close>

lemma ref_copy_fills: "fills ref_occ i (ref_copy (AbsCPtr root_task_cnode i) src r)"
  by (cases src) (auto simp: fills_def ref_occ_def Let_def)

lemma ref_mint_quiet: "quiet ref_occ (ref_mint (AbsBits root bits depth) src r b)"
  by (cases src) (auto simp: quiet_def ref_occ_def)

lemma ref_retype_fills: "fills ref_occ i (ref_retype ut bp dest i n)"
  by (auto simp: fills_def ref_occ_def Let_def)

lemma ref_delete_empties: "empties ref_occ i (ref_delete (AbsCPtr root_task_cnode i))"
  by (auto simp: empties_def ref_occ_def)

lemma ref_root_slot_laws: "root_slot_laws ref_sel4 ref_occ"
  unfolding root_slot_laws_def
  by (simp add: ref_copy_fills ref_mint_quiet ref_retype_fills ref_delete_empties
      del: ref_copy.simps ref_mint.simps ref_retype.simps ref_delete.simps)
    (auto simp: quiet_def Let_def split: if_splits)

end
