(* ===== verification/Objects.thy ===== *)
theory Objects
  imports Reference_Kernel
begin

text \<open>
  The model of object.rs: creation of a kernel object by retyping the first suitable untyped
  region of BootInfo into the next free root slot. The loop over candidates is a recursion on the
  list of descriptors with their indices, cut to the number of untyped capabilities.
\<close>

section \<open>Operations\<close>

fun retype_candidates ::
  "'k sel4 \<Rightarrow> bootinfo \<Rightarrow> blueprint \<Rightarrow> usize \<Rightarrow> (nat \<times> untyped_desc) list \<Rightarrow>
     ('k world, cptr, bootstrap_error) prog" where
  "retype_candidates K bi bp slot [] w = (Err NoKernelMemory, w)"
| "retype_candidates K bi bp slot ((i, d) # rest) w =
     (if ud_is_device d \<or> ud_size_bits d < physical_size_bits K bp
      then retype_candidates K bi bp slot rest w
      else (case syscall (untyped_retype K (bi_untyped_cap bi i) bp (AbsSelf (init_cnode K)) slot 1) w of
          (Ok _, v) \<Rightarrow> (Ok (slot_cptr K slot), v)
        | (Err NotEnoughMemory, v) \<Rightarrow> retype_candidates K bi bp slot rest v
        | (Err e, v) \<Rightarrow> (Err KernelAllocationFailed, v)
        | (Panic, v) \<Rightarrow> (Panic, v)))"

definition untyped_candidates :: "bootinfo \<Rightarrow> (nat \<times> untyped_desc) list" where
  "untyped_candidates bi = take (bi_untyped_len bi) (enumerate 0 (bi_untyped_list bi))"

definition object_allocate_blueprint ::
  "'k sel4 \<Rightarrow> bootinfo \<Rightarrow> blueprint \<Rightarrow> (free_slots \<times> 'k world, cptr, bootstrap_error) prog" where
  "object_allocate_blueprint K bi bp =
     pbind
       (free_slots_try_allocate (\<lambda>index. retype_candidates K bi bp index (untyped_candidates bi)))
       (\<lambda>created. pres (ok_or NoFreeSlots created))"

text \<open>
  The two typed entry points: an object type of fixed size gives its blueprint, one of variable
  size a blueprint for each size.
\<close>

definition object_allocate ::
  "'k sel4 \<Rightarrow> bootinfo \<Rightarrow> blueprint \<Rightarrow> (free_slots \<times> 'k world, cptr, bootstrap_error) prog" where
  "object_allocate K bi object_blueprint = object_allocate_blueprint K bi object_blueprint"

definition object_allocate_variable ::
  "'k sel4 \<Rightarrow> bootinfo \<Rightarrow> (usize \<Rightarrow> blueprint) \<Rightarrow> usize \<Rightarrow>
     (free_slots \<times> 'k world, cptr, bootstrap_error) prog" where
  "object_allocate_variable K bi object_blueprint size_bits =
     object_allocate_blueprint K bi (object_blueprint size_bits)"

section \<open>First fit\<close>

text \<open>
  \<open>skipped ds w v\<close>: every candidate of \<open>ds\<close> was passed over, being a device region, too small, or
  out of memory when tried; \<open>v\<close> is the world after the attempts.
\<close>

definition suitable :: "'k sel4 \<Rightarrow> blueprint \<Rightarrow> untyped_desc \<Rightarrow> bool" where
  "suitable K bp d \<longleftrightarrow> \<not> ud_is_device d \<and> physical_size_bits K bp \<le> ud_size_bits d"

abbreviation retype_into ::
  "'k sel4 \<Rightarrow> bootinfo \<Rightarrow> blueprint \<Rightarrow> usize \<Rightarrow> nat \<Rightarrow> ('k world, unit, sel4_error) prog" where
  "retype_into K bi bp slot i \<equiv>
     syscall (untyped_retype K (bi_untyped_cap bi i) bp (AbsSelf (init_cnode K)) slot 1)"

inductive skipped :: "'k sel4 \<Rightarrow> bootinfo \<Rightarrow> blueprint \<Rightarrow> usize \<Rightarrow>
    (nat \<times> untyped_desc) list \<Rightarrow> 'k world \<Rightarrow> 'k world \<Rightarrow> bool"
  for K :: "'k sel4" and bi bp slot where
  skipped_none: "skipped K bi bp slot [] w w"
| skipped_unsuitable: "\<not> suitable K bp d \<Longrightarrow> skipped K bi bp slot rest w v \<Longrightarrow>
     skipped K bi bp slot ((i, d) # rest) w v"
| skipped_full: "suitable K bp d \<Longrightarrow> retype_into K bi bp slot i w = (Err NotEnoughMemory, u) \<Longrightarrow>
     skipped K bi bp slot rest u v \<Longrightarrow> skipped K bi bp slot ((i, d) # rest) w v"

inductive_cases skipped_ConsE: "skipped K bi bp slot ((i, d) # rest) w v"
inductive_simps skipped_Nil [simp]: "skipped K bi bp slot [] w v"

lemma retype_candidates_Cons:
  "retype_candidates K bi bp slot ((i, d) # rest) w =
     (if suitable K bp d then
        (case retype_into K bi bp slot i w of
           (Ok _, v) \<Rightarrow> (Ok (slot_cptr K slot), v)
         | (Err NotEnoughMemory, v) \<Rightarrow> retype_candidates K bi bp slot rest v
         | (Err e, v) \<Rightarrow> (Err KernelAllocationFailed, v)
         | (Panic, v) \<Rightarrow> (Panic, v))
      else retype_candidates K bi bp slot rest w)"
  by (auto simp: suitable_def not_le)

declare retype_candidates.simps(2) [simp del]

text \<open>How the loop ends, by where it stopped.\<close>

definition stopped_at :: "'k sel4 \<Rightarrow> bootinfo \<Rightarrow> blueprint \<Rightarrow> usize \<Rightarrow> (nat \<times> untyped_desc) list \<Rightarrow>
    'k world \<Rightarrow> (unit, sel4_error) res \<Rightarrow> 'k world \<Rightarrow> bool" where
  "stopped_at K bi bp slot ds w r v \<longleftrightarrow>
     (\<exists>pre i d post u. ds = pre @ (i, d) # post \<and> skipped K bi bp slot pre w u \<and> suitable K bp d \<and>
        retype_into K bi bp slot i u = (r, v))"

lemma stopped_here:
  "suitable K bp d \<Longrightarrow> retype_into K bi bp slot i w = (r, v) \<Longrightarrow>
     stopped_at K bi bp slot ((i, d) # rest) w r v"
  unfolding stopped_at_def by (metis append_Nil skipped_none)

lemma stopped_later:
  assumes "stopped_at K bi bp slot rest u r v"
    and "\<And>pre x. skipped K bi bp slot pre u x \<Longrightarrow> skipped K bi bp slot ((i, d) # pre) w x"
  shows "stopped_at K bi bp slot ((i, d) # rest) w r v"
proof -
  from assms(1) obtain pre j e post x where "rest = pre @ (j, e) # post"
    and "skipped K bi bp slot pre u x" and "suitable K bp e" and "retype_into K bi bp slot j x = (r, v)"
    unfolding stopped_at_def by blast
  with assms(2) have "(i, d) # rest = ((i, d) # pre) @ (j, e) # post"
    and "skipped K bi bp slot ((i, d) # pre) w x" by auto
  with \<open>suitable K bp e\<close> \<open>retype_into K bi bp slot j x = (r, v)\<close> show ?thesis
    unfolding stopped_at_def by blast
qed

lemma retype_candidates_outcome:
  "retype_candidates K bi bp slot ds w = (r, v) \<Longrightarrow>
     (r = Err NoKernelMemory \<and> skipped K bi bp slot ds w v) \<or>
     (r = Ok (slot_cptr K slot) \<and> stopped_at K bi bp slot ds w (Ok ()) v) \<or>
     (r = Err KernelAllocationFailed \<and>
        (\<exists>e. e \<noteq> NotEnoughMemory \<and> stopped_at K bi bp slot ds w (Err e) v)) \<or>
     (r = Panic \<and> stopped_at K bi bp slot ds w Panic v)"
proof (induction ds arbitrary: w)
  case Nil
  then show ?case by simp
next
  case (Cons c ds)
  obtain i d where c: "c = (i, d)" by fastforce
  show ?case
  proof (cases "suitable K bp d")
    case False
    with Cons.prems c have "retype_candidates K bi bp slot ds w = (r, v)"
      by (simp add: retype_candidates_Cons)
    from Cons.IH [OF this] show ?thesis
      unfolding c using skipped_unsuitable [OF False] stopped_later [of K bi bp slot ds w _ v i d w]
      by blast
  next
    case True
    obtain x u where att: "retype_into K bi bp slot i w = (x, u)" by fastforce
    note here = stopped_here [OF True att]
    show ?thesis
    proof (cases "x = Err NotEnoughMemory")
      case full: True
      with Cons.prems c True att have "retype_candidates K bi bp slot ds u = (r, v)"
        by (simp add: retype_candidates_Cons)
      from Cons.IH [OF this] show ?thesis
        unfolding c using skipped_full [OF True att [unfolded full]]
          stopped_later [of K bi bp slot ds u _ v i d w] by blast
    next
      case False
      have "(case x of Ok a \<Rightarrow> r = Ok (slot_cptr K slot) | Err e \<Rightarrow> r = Err KernelAllocationFailed
          | Panic \<Rightarrow> r = Panic) \<and> u = v"
        using Cons.prems c True att False
        by (auto simp: retype_candidates_Cons split: res.splits sel4_error.splits)
      with here False show ?thesis unfolding c by (cases x) auto
    qed
  qed
qed

section \<open>The ledger\<close>

lemma retype_candidates_fill:
  assumes "root_slot_laws K occ" and "retype_candidates K bi bp slot ds w = (r, v)"
  shows "occupied_slots occ v =
    (if \<exists>a. r = Ok a then insert slot (occupied_slots occ w) else occupied_slots occ w)"
proof -
  have law: "fills occ slot (untyped_retype K ut bp (AbsSelf (init_cnode K)) slot 1)" for ut
    using assms(1) by (rule law_retype)
  note filled = fills_syscall [OF law]
  have skip: "skipped K bi bp slot ds w u \<Longrightarrow> occupied_slots occ u = occupied_slots occ w" for ds w u
  proof (induction rule: skipped.induct)
    case (skipped_full d i w u rest v)
    from filled [OF skipped_full.hyps(2)] skipped_full.IH show ?case by simp
  qed simp_all
  have stop: "stopped_at K bi bp slot ds w x v \<Longrightarrow> occupied_slots occ v =
      (if \<exists>a. x = Ok a then insert slot (occupied_slots occ w) else occupied_slots occ w)" for x
  proof -
    assume "stopped_at K bi bp slot ds w x v"
    then obtain pre i u where pre: "skipped K bi bp slot pre w u"
      and run: "retype_into K bi bp slot i u = (x, v)" unfolding stopped_at_def by blast
    from filled [OF run] skip [OF pre] show ?thesis by simp
  qed
  from retype_candidates_outcome [OF assms(2)] show ?thesis
    using skip [of ds w v] stop by auto
qed

lemma retype_candidates_cap:
  assumes "root_slot_laws K occ" and "retype_candidates K bi bp slot ds w = (Ok c, v)"
  shows "c = slot_cptr K slot \<and> c \<noteq> init_cnode K"
proof -
  from retype_candidates_outcome [OF assms(2)] have c: "c = slot_cptr K slot"
    and "stopped_at K bi bp slot ds w (Ok ()) v" by auto
  then obtain i u where "retype_into K bi bp slot i u = (Ok (), v)"
    by (auto simp: stopped_at_def)
  then have "\<exists>n. untyped_retype K (bi_untyped_cap bi i) bp (AbsSelf (init_cnode K)) slot 1 (mach u) =
      (Ok (), n)" by (auto simp: syscall_def split: prod.splits)
  with law_retype_dest [OF assms(1)] have "slot_cptr K slot \<noteq> init_cnode K" by blast
  with c show ?thesis by simp
qed

lemma ledger_allocate_blueprint:
  assumes "kernel_ok K view"
  shows "keeps (ledger view) (object_allocate_blueprint K bi bp)"
proof -
  have "fills_slot view (\<lambda>index. retype_candidates K bi bp index (untyped_candidates bi))"
    unfolding fills_slot_def
  proof (intro allI impI)
    fix occ index r and w v :: "'a world"
    assume "view = Some occ"
      and run: "retype_candidates K bi bp index (untyped_candidates bi) w = (r, v)"
    with assms have "root_slot_laws K occ" by (simp add: kernel_ok_def)
    from retype_candidates_fill [OF this run]
    show "occupied_slots occ v = (if \<exists>a. r = Ok a then insert index (occupied_slots occ w)
        else occupied_slots occ w)" .
  qed
  then show ?thesis
    unfolding object_allocate_blueprint_def by (intro ledger.keeps_intros ledger_try_allocate)
qed

section \<open>Properties\<close>

text \<open>
  C28. First fit: the loop over candidates ends in one of four ways. It returns the capability of
  the destination slot when the first candidate that is not a device region, is large enough and
  is not out of memory was retyped; it reports that there is no kernel memory only when every
  candidate was passed over; it reports a failed allocation when a suitable candidate failed for
  another reason; and a panic is one of the kernel wrapper. No device region is ever retyped.
\<close>

theorem retype_is_first_fit:
  assumes "retype_candidates K bi bp slot ds w = (r, v)"
  shows "(case r of
      Ok c \<Rightarrow> c = slot_cptr K slot \<and> stopped_at K bi bp slot ds w (Ok ()) v
    | Err e \<Rightarrow> (e = NoKernelMemory \<and> skipped K bi bp slot ds w v) \<or>
        (e = KernelAllocationFailed \<and>
          (\<exists>x. x \<noteq> NotEnoughMemory \<and> stopped_at K bi bp slot ds w (Err x) v))
    | Panic \<Rightarrow> stopped_at K bi bp slot ds w Panic v)"
  using retype_candidates_outcome [OF assms] by (elim disjE conjE exE) auto

theorem retype_is_first_fit_witness:
  "let ds = [(0, \<lparr>ud_is_device = True, ud_size_bits = 30\<rparr>), (1, \<lparr>ud_is_device = False, ud_size_bits = 4\<rparr>),
        (2, \<lparr>ud_is_device = False, ud_size_bits = 20\<rparr>)];
       bi = \<lparr>bi_empty_len = 10, bi_empty_range = \<lparr>range_start = 100, range_end = 110\<rparr>, bi_untyped_len = 3,
        bi_untyped_cap = (\<lambda>i. 50 + of_nat i), bi_untyped_list = map snd ds, bi_image_len = 0,
        bi_image_cap = (\<lambda>_. 0)\<rparr>;
       w = ref_world [] (\<lambda>_. [])
   in untyped_candidates bi = ds \<and>
      (\<exists>v. retype_candidates ref_sel4 bi GranuleBp 100 ds w = (Ok 100, v) \<and>
        stopped_at ref_sel4 bi GranuleBp 100 ds w (Ok ()) v)"
proof -
  let ?ds = "[(0 :: nat, \<lparr>ud_is_device = True, ud_size_bits = 30\<rparr>), (1, \<lparr>ud_is_device = False, ud_size_bits = 4\<rparr>),
        (2, \<lparr>ud_is_device = False, ud_size_bits = 20\<rparr>)]"
  let ?bi = "\<lparr>bi_empty_len = 10, bi_empty_range = \<lparr>range_start = 100, range_end = 110\<rparr>, bi_untyped_len = 3,
        bi_untyped_cap = (\<lambda>i. 50 + of_nat i), bi_untyped_list = map snd ?ds, bi_image_len = 0,
        bi_image_cap = (\<lambda>_. 0)\<rparr>"
  let ?w = "ref_world [] (\<lambda>_. [])"
  obtain v where run: "retype_candidates ref_sel4 ?bi GranuleBp 100 ?ds ?w = (Ok 100, v)"
    by (simp add: retype_candidates.simps(2) ref_sel4_def ref_world_def syscall_def Let_def
        root_task_cnode_def)
  from retype_is_first_fit [OF run] run show ?thesis
    by (auto simp: Let_def untyped_candidates_def)
qed

end
