(* ===== verification/Boot.thy ===== *)
theory Boot
  imports Objects
begin

text \<open>
  The model of boot.rs: the owner of the free root slots, object allocation through it, and the
  checkpoint / rollback pair every multi-object construction uses. Its operations are programs
  over the pair of the bootstrap record and the world.
\<close>

section \<open>State and operations\<close>

record bootstrap =
  bt_bootinfo :: bootinfo
  bt_slots :: free_slots

type_synonym 'k boot_state = "bootstrap \<times> 'k world"

definition on_slots ::
  "(free_slots \<times> 'k world, 'a, 'e) prog \<Rightarrow> ('k boot_state, 'a, 'e) prog" where
  "on_slots m = (\<lambda>(b, w). case m (bt_slots b, w) of (r, (f, v)) \<Rightarrow> (r, (b\<lparr>bt_slots := f\<rparr>, v)))"

definition bootstrap_new :: "bootinfo \<Rightarrow> (bootstrap, bootstrap_error) res" where
  "bootstrap_new bi =
     (if bi_empty_len bi = 0 then Err NoFreeSlots
      else Ok \<lparr>bt_bootinfo = bi, bt_slots = free_slots_new (bi_empty_range bi)\<rparr>)"

definition bootstrap_allocate_frame :: "'k sel4 \<Rightarrow> ('k boot_state, cptr, bootstrap_error) prog" where
  "bootstrap_allocate_frame K =
     (\<lambda>(b, w). on_slots (object_allocate K (bt_bootinfo b) GranuleBp) (b, w))"

definition bootstrap_allocate_object ::
  "'k sel4 \<Rightarrow> blueprint \<Rightarrow> ('k boot_state, cptr, bootstrap_error) prog" where
  "bootstrap_allocate_object K object_blueprint =
     (\<lambda>(b, w). on_slots (object_allocate K (bt_bootinfo b) object_blueprint) (b, w))"

definition bootstrap_allocate_variable_object ::
  "'k sel4 \<Rightarrow> (usize \<Rightarrow> blueprint) \<Rightarrow> usize \<Rightarrow> ('k boot_state, cptr, bootstrap_error) prog" where
  "bootstrap_allocate_variable_object K object_blueprint size_bits =
     (\<lambda>(b, w). on_slots (object_allocate_variable K (bt_bootinfo b) object_blueprint size_bits) (b, w))"

definition bootstrap_allocate_blueprint ::
  "'k sel4 \<Rightarrow> blueprint \<Rightarrow> ('k boot_state, cptr, bootstrap_error) prog" where
  "bootstrap_allocate_blueprint K bp =
     (\<lambda>(b, w). on_slots (object_allocate_blueprint K (bt_bootinfo b) bp) (b, w))"

definition bootstrap_copy_cap ::
  "'k sel4 \<Rightarrow> cptr \<Rightarrow> cap_rights \<Rightarrow> ('k boot_state, cptr, bootstrap_error) prog" where
  "bootstrap_copy_cap K source rights = on_slots (copy_to_root K source rights)"

definition bootstrap_checkpoint :: "bootstrap \<Rightarrow> usize" where
  "bootstrap_checkpoint b = free_slots_checkpoint (bt_slots b)"

definition bootstrap_reserve_empty_slots ::
  "usize \<Rightarrow> bootstrap \<Rightarrow> usize_range option \<times> bootstrap" where
  "bootstrap_reserve_empty_slots count b =
     (case free_slots_reserve count (bt_slots b) of (r, f) \<Rightarrow> (r, b\<lparr>bt_slots := f\<rparr>))"

definition bootstrap_committed_slots ::
  "bootstrap \<Rightarrow> usize \<Rightarrow> (usize_range, bootstrap_error) res" where
  "bootstrap_committed_slots b checkpoint =
     ok_or RollbackFailed (free_slots_allocated_since (bt_slots b) checkpoint)"

definition bootstrap_rollback :: "'k sel4 \<Rightarrow> usize \<Rightarrow> ('k boot_state, unit, bootstrap_error) prog" where
  "bootstrap_rollback K checkpoint =
     pbind (\<lambda>(b, w). (bootstrap_committed_slots b checkpoint, (b, w))) (\<lambda>slots.
     pbind (on_world (delete_root_slots K slots)) (\<lambda>_.
     (\<lambda>(b, w). case free_slots_rewind checkpoint (bt_slots b) of
         (rewound, f) \<Rightarrow>
           if \<not> rewound then (Err RollbackFailed, (b\<lparr>bt_slots := f\<rparr>, w))
           else (Ok (), (b\<lparr>bt_slots := f\<rparr>, w)))))"

text \<open>
  The frame backing an image page. The bound check divides by the page size, which the
  compile-time assertions below make nonzero.
\<close>

definition bootstrap_image_frame ::
  "'k sel4 \<Rightarrow> bootstrap \<Rightarrow> usize \<Rightarrow> usize \<Rightarrow> (cptr, bootstrap_error) res" where
  "bootstrap_image_frame K b image_start address =
     res_bind (ok_or InvalidImageRegion (checked_sub address image_start)) (\<lambda>offset.
       if \<not> is_multiple_of image_start (GRANULE_BYTES K) \<or>
          \<not> is_multiple_of address (GRANULE_BYTES K)
       then Err InvalidImageRegion
       else if GRANULE_BYTES K = 0 then Panic
       else if bi_image_len (bt_bootinfo b) \<le> unat (offset div GRANULE_BYTES K)
       then Err InvalidImageRegion
       else Ok (bi_image_cap (bt_bootinfo b) (unat (offset div GRANULE_BYTES K))))"

text \<open>What \<open>run\<close> prints before it suspends the initial thread for good.\<close>

datatype boot_message = SubstrateReady | BootstrapFailed bootstrap_error

definition boot_run :: "bootinfo \<Rightarrow> (boot_message, unit) res" where
  "boot_run bi = (case bootstrap_new bi of
       Ok b \<Rightarrow> Ok SubstrateReady
     | Err e \<Rightarrow> Ok (BootstrapFailed e)
     | Panic \<Rightarrow> Panic)"

text \<open>The root task's entry point (main.rs) hands the boot information over.\<close>

definition root_main :: "bootinfo \<Rightarrow> (boot_message, unit) res" where
  "root_main bootinfo = boot_run bootinfo"

text \<open>The compile-time assertions on the page size (task.rs), checked when the crate is built.\<close>

definition frame_asserts :: "'k sel4 \<Rightarrow> bool" where
  "frame_asserts K \<longleftrightarrow> is_power_of_two (GRANULE_BYTES K) \<and> is_multiple_of (GRANULE_BYTES K) 16 \<and>
     IPC_BUFFER_SIZE K \<le> GRANULE_BYTES K \<and> IPC_BUFFER_ALIGN K \<le> GRANULE_BYTES K"

lemma frame_asserts_nonzero: "frame_asserts K \<Longrightarrow> GRANULE_BYTES K \<noteq> 0"
proof -
  assume "frame_asserts K"
  then obtain k where "k < 64" and "GRANULE_BYTES K = push_bit k 1"
    by (auto simp: frame_asserts_def is_power_of_two_def list_ex_iff)
  moreover from \<open>k < 64\<close> have "bit (push_bit k (1 :: usize)) k" by (simp add: bit_simps)
  ultimately show ?thesis by auto
qed

section \<open>The ledger of the bootstrap\<close>

definition boot_ledger :: "('k \<Rightarrow> usize set) option \<Rightarrow> 'k boot_state \<Rightarrow> 'k boot_state \<Rightarrow> bool" where
  "boot_ledger view = (\<lambda>(b, w) (c, v).
     bt_bootinfo c = bt_bootinfo b \<and> ledger view (bt_slots b, w) (bt_slots c, v))"

interpretation boot_ledger: step_order "boot_ledger view" for view
  by unfold_locales (auto simp: boot_ledger_def intro: ledger_refl ledger_trans)

lemma keeps_on_slots: "keeps (ledger view) m \<Longrightarrow> keeps (boot_ledger view) (on_slots m)"
  by (rule keepsI) (auto simp: on_slots_def boot_ledger_def dest: keepsD split: prod.splits)

lemma keeps_with_bootinfo:
  "(\<And>bi. keeps (ledger view) (m bi)) \<Longrightarrow>
     keeps (boot_ledger view) (\<lambda>(b, w). on_slots (m (bt_bootinfo b)) (b, w))"
  by (rule keepsI) (auto dest: keepsD [OF keeps_on_slots])

lemma keeps_on_world:
  assumes "\<And>occ w r v. view = Some occ \<Longrightarrow> m w = (r, v) \<Longrightarrow> occupied_slots occ v = occupied_slots occ w"
  shows "keeps (boot_ledger view) (on_world m)"
proof (rule keepsI)
  fix s t :: "'a boot_state" and r
  assume run: "on_world m s = (r, t)"
  obtain b w v where "s = (b, w)" and "t = (b, v)" and "m w = (r, v)"
    using run by (cases s) (auto simp: on_world_def split: prod.splits)
  with assms [of _ w r v] show "boot_ledger view s t" by (auto simp: boot_ledger_def ledger_def)
qed

lemma keeps_quiet_syscall:
  assumes "\<And>occ. view = Some occ \<Longrightarrow> quiet occ f"
  shows "keeps (boot_ledger view) (on_world (syscall f))"
  by (rule keeps_on_world) (rule quiet_syscall [OF assms])

lemma ledger_allocations:
  assumes "kernel_ok K view"
  shows keeps_allocate_frame: "keeps (boot_ledger view) (bootstrap_allocate_frame K)"
    and keeps_allocate_object: "keeps (boot_ledger view) (bootstrap_allocate_object K bp)"
    and keeps_allocate_variable:
      "keeps (boot_ledger view) (bootstrap_allocate_variable_object K mk size_bits)"
    and keeps_allocate_blueprint: "keeps (boot_ledger view) (bootstrap_allocate_blueprint K bp)"
    and keeps_copy_cap: "keeps (boot_ledger view) (bootstrap_copy_cap K source rights)"
  unfolding bootstrap_allocate_frame_def bootstrap_allocate_object_def
    bootstrap_allocate_variable_object_def bootstrap_allocate_blueprint_def bootstrap_copy_cap_def
    object_allocate_def object_allocate_variable_def
  by (intro keeps_with_bootinfo keeps_on_slots ledger_allocate_blueprint ledger_copy_to_root assms)+

section \<open>Single allocations\<close>

text \<open>
  A creation callback that fills its slot on success, lifted to the bootstrap: the slot consumed,
  the slot filled and the capability returned are the same one, and a failure consumes nothing.
\<close>

definition one_slot :: "'k sel4 \<Rightarrow> ('k \<Rightarrow> usize set) \<Rightarrow> ('k boot_state, cptr, bootstrap_error) prog \<Rightarrow> bool" where
  "one_slot K occ m \<longleftrightarrow> (\<forall>b w. case m (b, w) of
     (Ok cap, (c, v)) \<Rightarrow> cap = slot_cptr K (bootstrap_checkpoint b) \<and>
        unat (bootstrap_checkpoint c) = Suc (unat (bootstrap_checkpoint b)) \<and>
        occupied_slots occ v = insert (bootstrap_checkpoint b) (occupied_slots occ w)
   | (r, (c, v)) \<Rightarrow> bootstrap_checkpoint c = bootstrap_checkpoint b \<and>
        occupied_slots occ v = occupied_slots occ w)"

lemma one_slot_try_allocate:
  assumes fill: "\<And>i w r v. create i w = (r, v) \<Longrightarrow> occupied_slots occ v =
      (if \<exists>a. r = Ok a then insert i (occupied_slots occ w) else occupied_slots occ w)"
    and cap: "\<And>i w a v. create i w = (Ok a, v) \<Longrightarrow> a = slot_cptr K i"
    and run: "pbind (free_slots_try_allocate create) (\<lambda>x. pres (ok_or NoFreeSlots x)) (f, w) = (r, (g, v))"
  shows "case r of
      Ok c \<Rightarrow> c = slot_cptr K (fs_start f) \<and> unat (fs_start g) = Suc (unat (fs_start f)) \<and>
        occupied_slots occ v = insert (fs_start f) (occupied_slots occ w)
    | _ \<Rightarrow> fs_start g = fs_start f \<and> occupied_slots occ v = occupied_slots occ w"
proof (cases "fs_start f < fs_end f")
  case False
  with run show ?thesis by (auto simp: try_allocate_cases pbind_def pres_def)
next
  case True
  obtain x u where create: "create (fs_start f) w = (x, u)" by fastforce
  from fill [OF create] cap [of "fs_start f" w _ u] create True run checked_succ_below [OF True]
  show ?thesis by (cases x) (auto simp: try_allocate_cases pbind_def pres_def)
qed

lemma one_slot_on_slots:
  assumes "\<And>bi f w r g v. m bi (f, w) = (r, (g, v)) \<Longrightarrow> (case r of
      Ok c \<Rightarrow> c = slot_cptr K (fs_start f) \<and> unat (fs_start g) = Suc (unat (fs_start f)) \<and>
        occupied_slots occ v = insert (fs_start f) (occupied_slots occ w)
    | _ \<Rightarrow> fs_start g = fs_start f \<and> occupied_slots occ v = occupied_slots occ w)"
  shows "one_slot K occ (\<lambda>(b, w). on_slots (m (bt_bootinfo b)) (b, w))"
  unfolding one_slot_def
proof (intro allI)
  fix b :: bootstrap and w :: "'a world"
  obtain r g v where run: "m (bt_bootinfo b) (bt_slots b, w) = (r, (g, v))" by (metis prod.exhaust)
  from assms [OF run] run
  show "case (\<lambda>(b, w). on_slots (m (bt_bootinfo b)) (b, w)) (b, w) of
      (Ok cap, (c, v)) \<Rightarrow> cap = slot_cptr K (bootstrap_checkpoint b) \<and>
        unat (bootstrap_checkpoint c) = Suc (unat (bootstrap_checkpoint b)) \<and>
        occupied_slots occ v = insert (bootstrap_checkpoint b) (occupied_slots occ w)
    | (r, (c, v)) \<Rightarrow> bootstrap_checkpoint c = bootstrap_checkpoint b \<and>
        occupied_slots occ v = occupied_slots occ w"
    by (cases r) (auto simp: on_slots_def bootstrap_checkpoint_def free_slots_checkpoint_def)
qed

lemma one_slot_allocate:
  assumes "root_slot_laws K occ"
  shows "one_slot K occ (bootstrap_allocate_blueprint K bp)"
    and "one_slot K occ (bootstrap_copy_cap K source rights)"
proof -
  show "one_slot K occ (bootstrap_allocate_blueprint K bp)"
    unfolding bootstrap_allocate_blueprint_def
  proof (rule one_slot_on_slots)
    fix bi f w r g v
    assume "object_allocate_blueprint K bi bp (f, w) = (r, (g, v))"
    then have run: "pbind (free_slots_try_allocate
          (\<lambda>index. retype_candidates K bi bp index (untyped_candidates bi)))
        (\<lambda>x. pres (ok_or NoFreeSlots x)) (f, w) = (r, (g, v))"
      by (simp add: object_allocate_blueprint_def)
    show "case r of
      Ok c \<Rightarrow> c = slot_cptr K (fs_start f) \<and> unat (fs_start g) = Suc (unat (fs_start f)) \<and>
        occupied_slots occ v = insert (fs_start f) (occupied_slots occ w)
    | _ \<Rightarrow> fs_start g = fs_start f \<and> occupied_slots occ v = occupied_slots occ w"
      by (rule one_slot_try_allocate [OF _ _ run])
        (rule retype_candidates_fill [OF assms], simp, simp add: retype_candidates_cap [OF assms])
  qed
  let ?copy = "\<lambda>index. pbind (pmap_err (\<lambda>_. CSpaceCreationFailed)
      (syscall (cnode_copy K (AbsCPtr (init_cnode K) (slot_cptr K index))
        (AbsCPtr (init_cnode K) source) rights))) (\<lambda>_. pret (slot_cptr K index))"
  have fill: "occupied_slots occ v =
      (if \<exists>a. r = Ok a then insert i (occupied_slots occ w) else occupied_slots occ w)"
    and cap: "\<forall>a. r = Ok a \<longrightarrow> a = slot_cptr K i" if copy: "?copy i w = (r, v)" for i w r v
  proof -
    obtain x u where sys: "syscall (cnode_copy K (AbsCPtr (init_cnode K) (slot_cptr K i))
        (AbsCPtr (init_cnode K) source) rights) w = (x, u)" by fastforce
    from fills_syscall [OF law_copy [OF assms] sys] sys copy
    show "occupied_slots occ v =
        (if \<exists>a. r = Ok a then insert i (occupied_slots occ w) else occupied_slots occ w)"
      and "\<forall>a. r = Ok a \<longrightarrow> a = slot_cptr K i"
      by (cases x; auto simp: prog_simps)+
  qed
  have "one_slot K occ (\<lambda>(b, w). on_slots ((\<lambda>_. copy_to_root K source rights) (bt_bootinfo b)) (b, w))"
  proof (rule one_slot_on_slots)
    fix f w r g v
    assume "copy_to_root K source rights (f, w) = (r, (g, v))"
    then have run: "pbind (free_slots_try_allocate ?copy) (\<lambda>x. pres (ok_or NoFreeSlots x)) (f, w) =
        (r, (g, v))" by (simp add: copy_to_root_def)
    show "case r of
      Ok c \<Rightarrow> c = slot_cptr K (fs_start f) \<and> unat (fs_start g) = Suc (unat (fs_start f)) \<and>
        occupied_slots occ v = insert (fs_start f) (occupied_slots occ w)
    | _ \<Rightarrow> fs_start g = fs_start f \<and> occupied_slots occ v = occupied_slots occ w"
      by (rule one_slot_try_allocate [OF _ _ run]) (use fill cap in blast)+
  qed
  then show "one_slot K occ (bootstrap_copy_cap K source rights)"
    by (simp add: bootstrap_copy_cap_def case_prod_eta)
qed

section \<open>Counting slots\<close>

text \<open>\<open>advances n m\<close>: every successful run of \<open>m\<close> consumes exactly \<open>n\<close> slots.\<close>

definition advances :: "nat \<Rightarrow> ('k boot_state, 'a, 'e) prog \<Rightarrow> bool" where
  "advances n m \<longleftrightarrow> (\<forall>b w a c v. m (b, w) = (Ok a, (c, v)) \<longrightarrow>
     unat (bootstrap_checkpoint c) = unat (bootstrap_checkpoint b) + n)"

lemma advancesD: "advances n m \<Longrightarrow> m (b, w) = (Ok a, (c, v)) \<Longrightarrow>
    unat (bootstrap_checkpoint c) = unat (bootstrap_checkpoint b) + n"
  unfolding advances_def by blast

lemma advances_pret: "advances 0 (pret a)"
  by (simp add: advances_def pret_def)

lemma advances_fail: "advances n (pfail e)" "advances n (pres Panic)"
  by (simp_all add: advances_def pfail_def pres_def)

lemma advances_pres: "advances 0 (pres r)"
  by (simp add: advances_def pres_def)

lemma advances_on_world: "advances 0 (on_world m)"
  by (auto simp: advances_def on_world_def split: prod.splits)

lemma advances_pbind:
  assumes "advances n m" and "\<And>a. advances k (f a)"
  shows "advances (n + k) (pbind m f)"
  unfolding advances_def
proof (intro allI impI)
  fix b w a c v
  assume "pbind m f (b, w) = (Ok a, (c, v))"
  then obtain x d u where "m (b, w) = (Ok x, (d, u))" and "f x (d, u) = (Ok a, (c, v))"
    by (auto simp: pbind_Ok)
  with assms have "unat (bootstrap_checkpoint d) = unat (bootstrap_checkpoint b) + n"
    and "unat (bootstrap_checkpoint c) = unat (bootstrap_checkpoint d) + k"
    unfolding advances_def by blast+
  then show "unat (bootstrap_checkpoint c) = unat (bootstrap_checkpoint b) + (n + k)" by simp
qed

text \<open>The same with the total computed, for steps that consume no slot and steps that consume one.\<close>

lemma advances_quiet: "advances 0 m \<Longrightarrow> (\<And>a. advances k (f a)) \<Longrightarrow> advances k (pbind m f)"
  using advances_pbind [of 0 m k f] by simp

lemma advances_one: "advances 1 m \<Longrightarrow> (\<And>a. advances k (f a)) \<Longrightarrow> advances (Suc k) (pbind m f)"
  using advances_pbind [of 1 m k f] by simp

lemma advances_pfor: "(\<And>x. advances n (body x)) \<Longrightarrow> advances (n * length xs) (pfor xs body)"
proof (induction xs)
  case (Cons x xs)
  then show ?case using advances_pbind [of n "body x" "n * length xs" "\<lambda>_. pfor xs body"] by simp
qed (simp add: advances_pret)

lemma try_allocate_advances:
  "free_slots_try_allocate create (f, w) = (Ok (Some a), (g, v)) \<Longrightarrow>
     unat (fs_start g) = Suc (unat (fs_start f))"
  using checked_succ_below [of "fs_start f" "fs_end f"]
  by (auto simp: try_allocate_cases split: if_splits prod.splits res.splits)

lemma advances_allocations:
  "advances 1 (bootstrap_allocate_frame K)" "advances 1 (bootstrap_allocate_object K bp)"
  "advances 1 (bootstrap_allocate_variable_object K mk n)"
  "advances 1 (bootstrap_allocate_blueprint K bp)" "advances 1 (bootstrap_copy_cap K source rights)"
  by (auto simp: advances_def bootstrap_allocate_frame_def bootstrap_allocate_object_def
      bootstrap_allocate_variable_object_def bootstrap_allocate_blueprint_def bootstrap_copy_cap_def
      object_allocate_def object_allocate_variable_def object_allocate_blueprint_def copy_to_root_def
      on_slots_def bootstrap_checkpoint_def free_slots_checkpoint_def pbind_Ok pres_def
      split: prod.splits dest!: try_allocate_advances)

lemmas advances_intros =
  advances_pret advances_quiet [OF advances_pres] advances_quiet [OF advances_on_world]
  advances_one [OF advances_allocations(1)] advances_one [OF advances_allocations(2)]
  advances_one [OF advances_allocations(3)] advances_one [OF advances_allocations(4)]
  advances_one [OF advances_allocations(5)]

section \<open>Rollback\<close>

lemma bootstrap_eta: "b\<lparr>bt_slots := bt_slots b\<rparr> = b"
  by simp

lemma delete_root_slots_error:
  "delete_root_slots K slots w = (Err e, v) \<Longrightarrow> e = RollbackFailed"
proof -
  have "pfor xs (\<lambda>index. pmap_err (\<lambda>_. RollbackFailed)
      (syscall (cnode_delete K (AbsCPtr (init_cnode K) (slot_cptr K index))))) w = (Err e, v) \<Longrightarrow>
      e = RollbackFailed" for xs w
  proof (induction xs arbitrary: w)
    case Nil
    then show ?case by (simp add: pret_def)
  next
    case (Cons x xs)
    let ?del = "syscall (cnode_delete K (AbsCPtr (init_cnode K) (slot_cptr K x)))"
    obtain r u where del: "?del w = (r, u)" by fastforce
    show ?case
      using Cons.prems Cons.IH [of u]
      by (cases r) (auto simp: pbind_def pmap_err_run [of ?del, OF del])
  qed
  then show "delete_root_slots K slots w = (Err e, v) \<Longrightarrow> e = RollbackFailed"
    by (simp add: delete_root_slots_def)
qed

lemma rollback_cases:
  assumes "bootstrap_rollback K cp (b, w) = (r, (c, v))"
  shows "case r of
      Ok _ \<Rightarrow> fs_first (bt_slots b) \<le> cp \<and> cp \<le> fs_start (bt_slots b) \<and>
        delete_root_slots K \<lparr>range_start = cp, range_end = fs_start (bt_slots b)\<rparr> w = (Ok (), v) \<and>
        c = b\<lparr>bt_slots := set_start cp (bt_slots b)\<rparr>
    | Err e \<Rightarrow> e = RollbackFailed \<and> c = b
    | Panic \<Rightarrow> c = b"
proof (cases "free_slots_allocated_since (bt_slots b) cp")
  case None
  with assms show ?thesis by (auto simp: bootstrap_rollback_def bootstrap_committed_slots_def pbind_def)
next
  case (Some slots)
  then have le: "fs_first (bt_slots b) \<le> cp" "cp \<le> fs_start (bt_slots b)"
    and slots: "slots = \<lparr>range_start = cp, range_end = fs_start (bt_slots b)\<rparr>"
    by (auto simp: free_slots_allocated_since_def split: if_splits)
  obtain x u where del: "delete_root_slots K slots w = (x, u)" by fastforce
  have rewind: "free_slots_rewind cp (bt_slots b) = (True, set_start cp (bt_slots b))"
    using le by (simp add: free_slots_rewind_True)
  from assms Some del rewind le slots delete_root_slots_error [of K slots w _ u] show ?thesis
    by (cases x)
      (auto simp: bootstrap_rollback_def bootstrap_committed_slots_def pbind_def on_world_def)
qed

lemma rollback_after:
  assumes "boot_ledger view (b, w) (c, v)" and "fs_first (bt_slots b) \<le> fs_start (bt_slots b)"
    and "bootstrap_rollback K (bootstrap_checkpoint b) (c, v) = (Ok (), (d, u))"
  shows "d = b" and "kernel_ok K view \<Longrightarrow> view = Some occ \<Longrightarrow>
    occupied_slots occ w \<inter> {fs_start (bt_slots b) ..< fs_end (bt_slots b)} = {} \<Longrightarrow>
    occupied_slots occ u = occupied_slots occ w"
proof -
  let ?cp = "fs_start (bt_slots b)"
  from assms(1) have led: "bt_bootinfo c = bt_bootinfo b" "fs_first (bt_slots c) = fs_first (bt_slots b)"
    "fs_end (bt_slots c) = fs_end (bt_slots b)" "?cp \<le> fs_start (bt_slots c)"
    by (auto simp: boot_ledger_def ledger_def)
  from rollback_cases [OF assms(3)]
  have del: "delete_root_slots K \<lparr>range_start = ?cp, range_end = fs_start (bt_slots c)\<rparr> v = (Ok (), u)"
    and d: "d = c\<lparr>bt_slots := set_start ?cp (bt_slots c)\<rparr>"
    by (simp_all add: bootstrap_checkpoint_def free_slots_checkpoint_def)
  from led d show "d = b" by (simp add: set_start_def)
  assume "kernel_ok K view" and view: "view = Some occ"
    and free: "occupied_slots occ w \<inter> {?cp ..< fs_end (bt_slots b)} = {}"
  then have laws: "root_slot_laws K occ" by (simp add: kernel_ok_def)
  from assms(1) view free have occ: "occupied_slots occ v =
      occupied_slots occ w \<union> {?cp ..< fs_start (bt_slots c)}"
    by (simp add: boot_ledger_def ledger_def)
  have "?cp = fs_start (bt_slots c) \<or> fs_start (bt_slots c) \<le> fs_end (bt_slots b)"
    using assms(1) by (auto simp: boot_ledger_def ledger_def)
  then have "occupied_slots occ w \<inter> {?cp ..< fs_start (bt_slots c)} = {}"
    using free by (auto simp: disjoint_iff)
  with delete_root_slots_empties [OF laws del] occ
  show "occupied_slots occ u = occupied_slots occ w"
    by (auto simp: set_range_list disjoint_iff)
qed

section \<open>A concrete bootstrap\<close>

text \<open>The bootstrap over the reference kernel with the empty slots \<open>start ..< stop\<close> and one region.\<close>

definition ref_bootinfo :: "usize \<Rightarrow> usize \<Rightarrow> bootinfo" where
  "ref_bootinfo start stop = \<lparr>bi_empty_len = unat (stop - start),
     bi_empty_range = \<lparr>range_start = start, range_end = stop\<rparr>, bi_untyped_len = 1,
     bi_untyped_cap = (\<lambda>_. 50), bi_untyped_list = [\<lparr>ud_is_device = False, ud_size_bits = 30\<rparr>],
     bi_image_len = 0, bi_image_cap = (\<lambda>_. 0)\<rparr>"

definition ref_boot :: "usize \<Rightarrow> usize \<Rightarrow> bootstrap" where
  "ref_boot start stop = \<lparr>bt_bootinfo = ref_bootinfo start stop,
     bt_slots = free_slots_new \<lparr>range_start = start, range_end = stop\<rparr>\<rparr>"

section \<open>Properties\<close>

text \<open>
  Allocations are atomic: creating an object from untyped memory or copying a capability
  either succeeds, and then consumes the next slot of the allocator, fills exactly that slot of
  the root CSpace and returns the capability of that slot; or it fails, and then no slot is
  consumed and no root slot changes.
\<close>

lemma allocations_are_atomic:
  assumes "root_slot_laws K occ"
  shows "one_slot K occ (bootstrap_allocate_blueprint K bp) \<and>
    one_slot K occ (bootstrap_allocate_object K bp) \<and>
    one_slot K occ (bootstrap_copy_cap K source rights)"
  using one_slot_allocate [OF assms]
  by (simp add: bootstrap_allocate_object_def bootstrap_allocate_blueprint_def object_allocate_def)

lemma allocations_are_atomic_example:
  "root_slot_laws ref_sel4 ref_occ \<and>
   one_slot ref_sel4 ref_occ (bootstrap_allocate_blueprint ref_sel4 TcbBp)"
  using allocations_are_atomic [OF ref_root_slot_laws, of TcbBp] ref_root_slot_laws by blast

text \<open>
  C7. Rollback undoes a construction: when a program that keeps the ledger ran since the
  checkpoint and rollback succeeds, the allocator is exactly as it was at the checkpoint, and the
  root slots that hold capabilities are exactly those that did; when rollback fails the error is
  \<open>RollbackFailed\<close> and the allocator is not rewound, so no slot that may be occupied is handed
  out again.
\<close>

theorem rollback_restores_checkpoint:
  assumes "root_slot_laws K occ" and "keeps (boot_ledger (Some occ)) m"
    and "fs_first (bt_slots b) \<le> fs_start (bt_slots b)"
    and "occupied_slots occ w \<inter> {fs_start (bt_slots b) ..< fs_end (bt_slots b)} = {}"
    and "m (b, w) = (x, (c, v))"
    and "bootstrap_rollback K (bootstrap_checkpoint b) (c, v) = (r, (d, u))"
  shows "(r = Ok () \<longrightarrow> d = b \<and> occupied_slots occ u = occupied_slots occ w) \<and>
    (\<forall>e. r = Err e \<longrightarrow> e = RollbackFailed \<and> d = c)"
proof -
  from assms(2,5) have "boot_ledger (Some occ) (b, w) (c, v)" by (rule keepsD)
  note after = rollback_after [OF this assms(3), of K d u]
  show ?thesis
  proof (cases r)
    case (Ok a)
    with assms(6) have run: "bootstrap_rollback K (bootstrap_checkpoint b) (c, v) = (Ok (), (d, u))"
      by simp
    have "kernel_ok K (Some occ)" using assms(1) by (simp add: kernel_ok_def)
    from after(1) [OF run] after(2) [OF run this refl assms(4)] Ok show ?thesis by simp
  qed (use rollback_cases [OF assms(6)] in simp_all)
qed

theorem rollback_restores_checkpoint_witness:
  "let bi = \<lparr>bi_empty_len = 2, bi_empty_range = \<lparr>range_start = 100, range_end = 102\<rparr>,
        bi_untyped_len = 1, bi_untyped_cap = (\<lambda>_. 50),
        bi_untyped_list = [\<lparr>ud_is_device = False, ud_size_bits = 20\<rparr>], bi_image_len = 0,
        bi_image_cap = (\<lambda>_. 0)\<rparr>;
       b = \<lparr>bt_bootinfo = bi, bt_slots = free_slots_new (bi_empty_range bi)\<rparr>;
       w = ref_world [7] (\<lambda>_. [])
   in \<exists>c v d u. bootstrap_allocate_frame ref_sel4 (b, w) = (Ok 100, (c, v)) \<and>
        occupied_slots ref_occ v = {7, 100} \<and>
        bootstrap_rollback ref_sel4 100 (c, v) = (Ok (), (d, u)) \<and>
        d = b \<and> occupied_slots ref_occ u = occupied_slots ref_occ w"
proof -
  let ?bi = "\<lparr>bi_empty_len = 2, bi_empty_range = \<lparr>range_start = 100, range_end = 102\<rparr>,
        bi_untyped_len = 1, bi_untyped_cap = (\<lambda>_. 50),
        bi_untyped_list = [\<lparr>ud_is_device = False, ud_size_bits = 20\<rparr>], bi_image_len = 0,
        bi_image_cap = (\<lambda>_. 0)\<rparr>"
  let ?b = "\<lparr>bt_bootinfo = ?bi, bt_slots = free_slots_new (bi_empty_range ?bi)\<rparr>"
  let ?w = "ref_world [7] (\<lambda>_. [])"
  have ok: "kernel_ok ref_sel4 (Some ref_occ)"
    using ref_root_slot_laws by (simp add: kernel_ok_def)
  obtain c v where alloc: "bootstrap_allocate_frame ref_sel4 (?b, ?w) = (Ok 100, (c, v))"
      "occupied_slots ref_occ v = {7, 100}" "fs_start (bt_slots c) = 101"
      "fs_first (bt_slots c) = 100"
    by (auto simp: bootstrap_allocate_frame_def on_slots_def object_allocate_def
        object_allocate_blueprint_def pbind_def pres_def try_allocate_cases untyped_candidates_def
        retype_candidates.simps(2) ref_sel4_def ref_world_def syscall_def Let_def ref_occ_def
        root_task_cnode_def)
  have "\<exists>d u. bootstrap_rollback ref_sel4 100 (c, v) = (Ok (), (d, u))"
    using alloc(3,4)
    by (simp add: bootstrap_rollback_def bootstrap_committed_slots_def free_slots_allocated_since_def
        pbind_def on_world_def delete_root_slots_def range_list_def pmap_err_def pret_def syscall_def
        free_slots_rewind_def root_task_cnode_def upt_conv_Cons)
  then obtain d u where roll: "bootstrap_rollback ref_sel4 100 (c, v) = (Ok (), (d, u))" by blast
  have "d = ?b \<and> occupied_slots ref_occ u = occupied_slots ref_occ ?w"
    using rollback_restores_checkpoint [OF ref_root_slot_laws keeps_allocate_frame [OF ok], of ?b ?w
        "Ok 100" c v "Ok ()" d u] alloc roll
    by (simp add: bootstrap_checkpoint_def free_slots_checkpoint_def ref_occ_def ref_world_def)
  with alloc roll show ?thesis unfolding Let_def by auto
qed

text \<open>
  The page lookup is safe: it never panics, it returns the capability of page
  \<open>(address - image_start) / page size\<close> of the image exactly when both addresses are page
  aligned, the address is not below the image and the page exists, and it reports an invalid
  image region in every other case.
\<close>

lemma image_frame_exact:
  assumes "frame_asserts K"
  shows "bootstrap_image_frame K b start address =
    (if start \<le> address \<and> is_multiple_of start (GRANULE_BYTES K) \<and>
        is_multiple_of address (GRANULE_BYTES K) \<and>
        (unat address - unat start) div unat (GRANULE_BYTES K) < bi_image_len (bt_bootinfo b)
     then Ok (bi_image_cap (bt_bootinfo b) ((unat address - unat start) div unat (GRANULE_BYTES K)))
     else Err InvalidImageRegion)"
proof (cases "start \<le> address")
  case True
  then have "unat ((address - start) div GRANULE_BYTES K) =
      (unat address - unat start) div unat (GRANULE_BYTES K)"
    by (simp add: unat_div unat_sub_le)
  with True frame_asserts_nonzero [OF assms] show ?thesis
    by (auto simp: bootstrap_image_frame_def checked_sub_def not_le)
next
  case False
  then show ?thesis by (simp add: bootstrap_image_frame_def checked_sub_def)
qed

lemma image_frame_exact_example:
  "frame_asserts ref_sel4 \<and>
   bootstrap_image_frame ref_sel4
     \<lparr>bt_bootinfo = \<lparr>bi_empty_len = 1, bi_empty_range = \<lparr>range_start = 100, range_end = 101\<rparr>,
        bi_untyped_len = 0, bi_untyped_cap = (\<lambda>_. 0), bi_untyped_list = [], bi_image_len = 3,
        bi_image_cap = (\<lambda>i. 10 + of_nat i)\<rparr>,
      bt_slots = free_slots_new \<lparr>range_start = 100, range_end = 101\<rparr>\<rparr> 0x400000 0x402000 = Ok 12"
proof -
  have asserts: "frame_asserts ref_sel4"
    by (simp add: frame_asserts_def is_power_of_two_def list_ex_iff is_multiple_of_def)
      (rule bexI [of _ 12], simp_all)
  from image_frame_exact [OF asserts] asserts show ?thesis by (simp add: is_multiple_of_def)
qed

end
