(* ===== verification/Messages.thy ===== *)
theory Messages
  imports Reference_Kernel
begin

text \<open>
  The message half of ipc.rs: badges and their allocator, bounded messages, and their transfer
  to and from the IPC buffer. Word and capability counts are lengths of slices, kept as natural
  numbers; every slice bound that could panic is a branch of the model.
\<close>

section \<open>Badges\<close>

datatype badge = Badge (badge_raw: u64)

instantiation badge :: linorder
begin

definition less_eq_badge :: "badge \<Rightarrow> badge \<Rightarrow> bool" where
  "less_eq_badge a b \<longleftrightarrow> badge_raw a \<le> badge_raw b"

definition less_badge :: "badge \<Rightarrow> badge \<Rightarrow> bool" where
  "less_badge a b \<longleftrightarrow> badge_raw a < badge_raw b"

instance
  by standard (auto simp: less_eq_badge_def less_badge_def badge.expand)

end

definition badge_new :: "u64 \<Rightarrow> (badge, badge_error) res" where
  "badge_new raw = (if raw = 0 then Err ReservedZero else Ok (Badge raw))"

text \<open>\<open>Badge::new(raw).ok()\<close>.\<close>

definition badge_ok :: "u64 \<Rightarrow> badge option" where
  "badge_ok raw = (case badge_new raw of Ok b \<Rightarrow> Some b | _ \<Rightarrow> None)"

datatype badge_allocator = BadgeAllocator (ba_sequence: badge_sequence)

definition badge_allocator_new :: "u64 \<Rightarrow> (badge_allocator, badge_allocation_error) res" where
  "badge_allocator_new first =
     res_bind (map_err (\<lambda>_. InvalidStart) (try_into_word first)) (\<lambda>first.
       ok_or InvalidStart (map_option BadgeAllocator (badge_sequence_new first)))"

definition badge_allocator_allocate ::
  "badge_allocator \<Rightarrow> (badge, badge_allocation_error) res \<times> badge_allocator" where
  "badge_allocator_allocate a =
     (case badge_sequence_allocate (ba_sequence a) of (x, s) \<Rightarrow>
        (res_bind (ok_or Exhausted x) (\<lambda>raw.
         res_bind (map_err (\<lambda>_. Exhausted) (try_into_word raw)) (\<lambda>raw.
           map_err (\<lambda>_. Exhausted) (badge_new raw))), BadgeAllocator s))"

text \<open>The allocator as a source of badges; a failed allocation draws nothing.\<close>

definition badge_draw :: "badge_allocator \<Rightarrow> badge option \<times> badge_allocator" where
  "badge_draw a = (case badge_allocator_allocate a of
     (Ok b, t) \<Rightarrow> (Some b, t) | (_, t) \<Rightarrow> (None, t))"

definition badge_pos :: "badge_allocator \<Rightarrow> nat" where
  "badge_pos a = unat (bs_next (ba_sequence a))"

lemma badge_draw_eq:
  "0 < badge_pos a \<Longrightarrow> badge_draw a =
     (if badge_pos a < 2 ^ 64 - 1
      then (Some (Badge (bs_next (ba_sequence a))),
            BadgeAllocator ((ba_sequence a)\<lparr>bs_next := bs_next (ba_sequence a) + 1\<rparr>))
      else (None, a))"
  by (auto simp: badge_draw_def badge_pos_def badge_allocator_allocate_def
      badge_sequence_allocate_eq try_into_word_def badge_new_def)

interpretation badge_source: monotone_source badge_draw badge_pos "\<lambda>b. unat (badge_raw b)"
    "\<lambda>a. 0 < badge_pos a"
proof unfold_locales
  fix s a t
  assume pos: "0 < badge_pos s"
  { assume "badge_draw s = (Some a, t)"
    then show "unat (badge_raw a) = badge_pos s \<and> badge_pos t = Suc (badge_pos s) \<and> 0 < badge_pos t"
      using pos unat_succ_below_max [of "bs_next (ba_sequence s)"]
      by (auto simp: badge_draw_eq badge_pos_def split: if_splits) }
  assume "badge_draw s = (None, t)"
  then show "t = s" using pos by (simp add: badge_draw_eq split: if_splits)
qed

lemma length_draws_badge:
  "0 < badge_pos a \<Longrightarrow> length (fst (draws badge_draw n a)) = min n (2 ^ 64 - 1 - badge_pos a)"
proof (induction n arbitrary: a)
  case (Suc n)
  show ?case
  proof (cases "badge_pos a < 2 ^ 64 - 1")
    case True
    let ?b = "BadgeAllocator ((ba_sequence a)\<lparr>bs_next := bs_next (ba_sequence a) + 1\<rparr>)"
    have pos: "badge_pos ?b = Suc (badge_pos a)"
      using True unat_succ_below_max [of "bs_next (ba_sequence a)"] by (simp add: badge_pos_def)
    have "badge_draw a = (Some (Badge (bs_next (ba_sequence a))), ?b)"
      using Suc.prems True by (simp add: badge_draw_eq)
    with True Suc.IH [of ?b] pos show ?thesis by (auto split: prod.splits)
  next
    case False
    then have "badge_draw a = (None, a)" using Suc.prems by (simp add: badge_draw_eq)
    with badge_source.exhausted_forever [OF Suc.prems this, of "Suc n"] False show ?thesis by simp
  qed
qed simp

section \<open>Messages\<close>

definition MESSAGE_CAPACITY :: "'k sel4 \<Rightarrow> nat" where
  "MESSAGE_CAPACITY K = NUM_MESSAGE_REGISTERS K"

definition EXTRA_CAPACITY :: nat where "EXTRA_CAPACITY = 4"

definition MAX_DEFERRED_REPLIES :: nat where "MAX_DEFERRED_REPLIES = 64"

text \<open>The compile-time assertions of ipc.rs.\<close>

definition ipc_asserts :: "'k sel4 \<Rightarrow> bool" where
  "ipc_asserts K \<longleftrightarrow> MESSAGE_CAPACITY K > 0 \<and> EXTRA_CAPACITY = 4 \<and> MAX_DEFERRED_REPLIES \<le> 64"

record message =
  msg_label :: u64
  msg_words :: "u64 list"
  msg_length :: nat
  msg_capabilities :: "u64 list"
  msg_extra_caps :: nat
  msg_caps_unwrapped :: nat

definition message_empty :: "'k sel4 \<Rightarrow> u64 \<Rightarrow> message" where
  "message_empty K label = \<lparr>msg_label = label, msg_words = replicate (MESSAGE_CAPACITY K) 0,
     msg_length = 0, msg_capabilities = replicate EXTRA_CAPACITY 0, msg_extra_caps = 0,
     msg_caps_unwrapped = 0\<rparr>"

definition message_empty_reply :: "'k sel4 \<Rightarrow> message" where
  "message_empty_reply K = message_empty K 0"

text \<open>The loop over \<open>iter_mut().zip(..)\<close> overwrites the common prefix.\<close>

definition zip_assign :: "'a list \<Rightarrow> 'a list \<Rightarrow> 'a list" where
  "zip_assign dst src = take (length dst) src @ drop (length src) dst"

definition message_with_capabilities ::
  "'k sel4 \<Rightarrow> u64 \<Rightarrow> u64 list \<Rightarrow> cptr list \<Rightarrow> (message, ipc_error) res" where
  "message_with_capabilities K label words capabilities =
     (if length words > MESSAGE_CAPACITY K
      then Err (MessageTooLong (length words) (MESSAGE_CAPACITY K))
      else if length capabilities > EXTRA_CAPACITY
      then Err (TooManyCapabilities (length capabilities) EXTRA_CAPACITY)
      else
        let message = message_empty K label in
        res_bind (or_panic (copy_prefix (msg_words message) (length words) words)) (\<lambda>copied.
          Ok (message\<lparr>msg_words := copied, msg_length := length words,
            msg_capabilities := zip_assign (msg_capabilities message) capabilities,
            msg_extra_caps := length capabilities\<rparr>)))"

definition message_new :: "'k sel4 \<Rightarrow> u64 \<Rightarrow> u64 list \<Rightarrow> (message, ipc_error) res" where
  "message_new K label words = message_with_capabilities K label words []"

text \<open>The payload slice; \<open>None\<close> is the panic of an out-of-range length.\<close>

definition message_words :: "message \<Rightarrow> u64 list option" where
  "message_words m = slice_to (msg_words m) (msg_length m)"

definition message_word :: "message \<Rightarrow> nat \<Rightarrow> (u64, ipc_error) res" where
  "message_word m index =
     (if index \<ge> msg_length m then Err (InvalidMessageIndex index (msg_length m))
      else if index < length (msg_words m) then Ok (msg_words m ! index)
      else Err (InvalidMessageIndex index (msg_length m)))"

definition message_prepare :: "'k sel4 \<Rightarrow> message \<Rightarrow> ('k world, msg_info, 'e) prog" where
  "message_prepare K m w =
     (case Option.bind (message_words m) (copy_prefix (msg_regs (wbuf w)) (msg_length m)) of
        None \<Rightarrow> (Panic, w)
      | Some regs \<Rightarrow>
          (case Option.bind (slice_to (msg_capabilities m) (msg_extra_caps m))
              (copy_prefix (caps_or_badges (wbuf w)) (msg_extra_caps m)) of
             None \<Rightarrow> (Panic, w)
           | Some caps \<Rightarrow>
               (Ok (message_info K (msg_label m) (msg_extra_caps m) (msg_length m)),
                set_buf ((wbuf w)\<lparr>msg_regs := regs, caps_or_badges := caps\<rparr>) w)))"

definition message_received :: "'k sel4 \<Rightarrow> msg_info \<Rightarrow> ('k world, message, ipc_error) prog" where
  "message_received K info w =
     (if mi_length info > MESSAGE_CAPACITY K
      then (Err (MessageTooLong (mi_length info) (MESSAGE_CAPACITY K)), w)
      else if mi_extra_caps info > EXTRA_CAPACITY
      then (Err (TooManyCapabilities (mi_extra_caps info) EXTRA_CAPACITY), w)
      else
        let message = message_empty K (mi_label info) in
        (case Option.bind (slice_to (msg_regs (wbuf w)) (mi_length info))
            (copy_prefix (msg_words message) (mi_length info)) of
           None \<Rightarrow> (Panic, w)
         | Some words \<Rightarrow>
             (Ok (message\<lparr>msg_words := words, msg_length := mi_length info,
                msg_extra_caps := mi_extra_caps info,
                msg_caps_unwrapped := mi_caps_unwrapped info\<rparr>), w)))"

section \<open>Well-formed messages\<close>

definition message_wf :: "'k sel4 \<Rightarrow> message \<Rightarrow> bool" where
  "message_wf K m \<longleftrightarrow> length (msg_words m) = MESSAGE_CAPACITY K \<and>
     length (msg_capabilities m) = EXTRA_CAPACITY \<and>
     msg_length m \<le> MESSAGE_CAPACITY K \<and> msg_extra_caps m \<le> EXTRA_CAPACITY"

text \<open>The buffer's register array has the capacity the source takes from the kernel's constant.\<close>

definition buffer_wf :: "'k sel4 \<Rightarrow> ipc_buffer \<Rightarrow> bool" where
  "buffer_wf K b \<longleftrightarrow> length (msg_regs b) = MESSAGE_CAPACITY K"

text \<open>
  What the message info keeps: the 64-bit kernel documents 52 bits of label, two bits for the number
  of capabilities and seven for the length. Fields that fit are read back as they were given, and a
  length is never read back larger.
\<close>

definition info_law :: "'k sel4 \<Rightarrow> bool" where
  "info_law K \<longleftrightarrow> (\<forall>label caps n. mi_length (message_info K label caps n) \<le> n \<and>
     (label < 2 ^ 52 \<and> caps < 4 \<and> n < 128 \<longrightarrow> message_info K label caps n =
       \<lparr>mi_label = label, mi_caps_unwrapped = 0, mi_extra_caps = caps, mi_length = n\<rparr>))"

lemma info_lawD:
  assumes "info_law K"
  shows "mi_length (message_info K label caps n) \<le> n"
    and "label < 2 ^ 52 \<Longrightarrow> caps < 4 \<Longrightarrow> n < 128 \<Longrightarrow> message_info K label caps n =
      \<lparr>mi_label = label, mi_caps_unwrapped = 0, mi_extra_caps = caps, mi_length = n\<rparr>"
  using assms by (simp_all add: info_law_def)

lemma packed_info_law: "message_info K = packed_info \<Longrightarrow> info_law K"
proof -
  have "take_bit 52 label = label" if "label < 2 ^ 52" for label :: u64
    using that by (simp add: word_unat_eq_iff unsigned_take_bit_eq take_bit_nat_eq_self word_less_nat_alt)
  then show "message_info K = packed_info \<Longrightarrow> info_law K" by (simp add: info_law_def packed_info_def)
qed

lemma message_empty_wf: "message_wf K (message_empty K l)"
  by (simp add: message_wf_def message_empty_def)

lemma message_with_capabilities_Ok:
  assumes "length ws \<le> MESSAGE_CAPACITY K" and "length cs \<le> EXTRA_CAPACITY"
  shows "message_with_capabilities K l ws cs = Ok \<lparr>msg_label = l,
    msg_words = ws @ replicate (MESSAGE_CAPACITY K - length ws) 0, msg_length = length ws,
    msg_capabilities = cs @ replicate (EXTRA_CAPACITY - length cs) 0,
    msg_extra_caps = length cs, msg_caps_unwrapped = 0\<rparr>"
  using assms by (simp add: message_with_capabilities_def message_empty_def copy_prefix_def
      zip_assign_def Let_def)

lemma message_with_capabilities_wf:
  "message_with_capabilities K l ws cs = Ok m \<Longrightarrow> message_wf K m \<and> msg_extra_caps m = length cs"
  by (cases "length ws \<le> MESSAGE_CAPACITY K \<and> length cs \<le> EXTRA_CAPACITY")
    (auto simp: message_with_capabilities_Ok message_wf_def,
     auto simp: message_with_capabilities_def split: if_splits)

lemma message_words_wf: "message_wf K m \<Longrightarrow> message_words m = Some (take (msg_length m) (msg_words m))"
  by (simp add: message_words_def message_wf_def slice_to_def)

lemma message_prepare_wf:
  assumes "message_wf K m"
  shows "message_prepare K m w =
    (if msg_length m \<le> length (msg_regs (wbuf w)) \<and> msg_extra_caps m \<le> length (caps_or_badges (wbuf w))
     then (Ok (message_info K (msg_label m) (msg_extra_caps m) (msg_length m)),
           set_buf ((wbuf w)\<lparr>
             msg_regs := take (msg_length m) (msg_words m) @ drop (msg_length m) (msg_regs (wbuf w)),
             caps_or_badges := take (msg_extra_caps m) (msg_capabilities m) @
               drop (msg_extra_caps m) (caps_or_badges (wbuf w))\<rparr>) w)
     else (Panic, w))"
  using assms by (auto simp: message_prepare_def message_words_wf message_wf_def slice_to_def
      copy_prefix_def min_def)

lemma message_received_buffer:
  assumes "buffer_wf K (wbuf w)"
  shows "message_received K info w =
    (if mi_length info > MESSAGE_CAPACITY K
     then Err (MessageTooLong (mi_length info) (MESSAGE_CAPACITY K))
     else if mi_extra_caps info > EXTRA_CAPACITY
     then Err (TooManyCapabilities (mi_extra_caps info) EXTRA_CAPACITY)
     else Ok \<lparr>msg_label = mi_label info,
       msg_words = take (mi_length info) (msg_regs (wbuf w)) @
         replicate (MESSAGE_CAPACITY K - mi_length info) 0,
       msg_length = mi_length info, msg_capabilities = replicate EXTRA_CAPACITY 0,
       msg_extra_caps = mi_extra_caps info, msg_caps_unwrapped = mi_caps_unwrapped info\<rparr>, w)"
  using assms by (auto simp: message_received_def buffer_wf_def slice_to_def copy_prefix_def
      message_empty_def Let_def min_def)

lemma message_received_wf:
  "buffer_wf K (wbuf w) \<Longrightarrow> message_received K info w = (Ok m, v) \<Longrightarrow> message_wf K m"
  by (auto simp: message_received_buffer message_wf_def buffer_wf_def split: if_splits)

lemma message_prepare_cells:
  "message_prepare K m w = (r, v) \<Longrightarrow> flag_cells v = flag_cells w \<and> mask_cells v = mask_cells w \<and>
     tracker_cells v = tracker_cells w \<and> kstate (mach v) = kstate (mach w)"
  by (auto simp: message_prepare_def split: option.splits)

section \<open>Properties\<close>

text \<open>
  C34. Badges are nonzero, unique and bounded: the badges an allocator hands out are the
  consecutive words from its validated start, in strictly increasing order, every one a valid
  badge, up to and never including the largest word; then the allocator is exhausted.
\<close>

theorem badges_are_unique:
  assumes "badge_allocator_new first = Ok a"
  shows "let badges = fst (draws badge_draw n a) in
    map (\<lambda>b. unat (badge_raw b)) badges = [unat first ..< min (unat first + n) (2 ^ 64 - 1)] \<and>
    sorted_wrt (<) badges \<and> (\<forall>b \<in> set badges. badge_new (badge_raw b) = Ok b)"
proof -
  from assms have a: "first \<noteq> 0" "a = BadgeAllocator \<lparr>bs_next = first\<rparr>"
    by (auto simp: badge_allocator_new_def try_into_word_def badge_sequence_new_def split: if_splits)
  then have pos: "0 < badge_pos a" and start: "badge_pos a = unat first"
    by (simp_all add: badge_pos_def unat_gt_0)
  obtain bs t where run: "draws badge_draw n a = (bs, t)" by fastforce
  from badge_source.draws_keys [OF pos run]
  have keys: "map (\<lambda>b. unat (badge_raw b)) bs = [unat first ..< unat first + length bs]"
    by (simp add: start)
  have len: "unat first + length bs = min (unat first + n) (2 ^ 64 - 1)"
    using length_draws_badge [OF pos, of n] run start unat_lt_64 [of first] by auto
  have "sorted_wrt (<) (map (\<lambda>b. unat (badge_raw b)) bs)"
    unfolding keys by (simp add: strict_sorted_iff)
  moreover have "(\<lambda>a b :: badge. unat (badge_raw a) < unat (badge_raw b)) = (<)"
    by (simp add: fun_eq_iff less_badge_def word_less_nat_alt)
  ultimately have sorted: "sorted_wrt (<) bs" by (simp add: sorted_wrt_map)
  have "0 < unat (badge_raw b)" if "b \<in> set bs" for b
  proof -
    from that have "unat (badge_raw b) \<in> set (map (\<lambda>b. unat (badge_raw b)) bs)" by auto
    then have "unat first \<le> unat (badge_raw b)" unfolding keys by simp
    with a(1) show ?thesis by (simp add: unat_gt_0) (metis le_zero_eq unat_eq_zero)
  qed
  then have "\<forall>b \<in> set bs. badge_new (badge_raw b) = Ok b"
    by (fastforce simp: badge_new_def)
  with keys len sorted show ?thesis by (simp add: run)
qed

theorem badges_are_unique_witness:
  "\<exists>a. badge_allocator_new 0x51 = Ok a \<and>
     map (\<lambda>b. unat (badge_raw b)) (fst (draws badge_draw 4 a)) = [81, 82, 83, 84]"
proof -
  obtain a where a: "badge_allocator_new 0x51 = Ok a"
    by (simp add: badge_allocator_new_def try_into_word_def badge_sequence_new_def)
  from badges_are_unique [OF a, of 4] a show ?thesis by (auto simp: Let_def upt_conv_Cons)
qed

text \<open>
  Messages are bounded copies: construction never panics; it succeeds exactly when both
  lists fit, otherwise the payload is checked before the capabilities; and a constructed message
  reports the label, the payload and the capabilities it was given, each payload word at its index
  and no other index.
\<close>

lemma message_construction_exact:
  "case message_with_capabilities K label words caps of
     Ok m \<Rightarrow> length words \<le> MESSAGE_CAPACITY K \<and> length caps \<le> EXTRA_CAPACITY \<and> message_wf K m \<and>
       msg_label m = label \<and> message_words m = Some words \<and>
       take (msg_extra_caps m) (msg_capabilities m) = caps \<and> msg_extra_caps m = length caps \<and>
       (\<forall>i. message_word m i = (if i < length words then Ok (words ! i)
          else Err (InvalidMessageIndex i (length words))))
   | Err e \<Rightarrow> (if MESSAGE_CAPACITY K < length words
          then e = MessageTooLong (length words) (MESSAGE_CAPACITY K)
          else EXTRA_CAPACITY < length caps \<and> e = TooManyCapabilities (length caps) EXTRA_CAPACITY)
   | Panic \<Rightarrow> False"
proof (cases "length words \<le> MESSAGE_CAPACITY K \<and> length caps \<le> EXTRA_CAPACITY")
  case True
  then show ?thesis
    by (auto simp: message_with_capabilities_Ok message_wf_def message_words_def slice_to_def
        message_word_def nth_append)
next
  case False
  then show ?thesis by (auto simp: message_with_capabilities_def)
qed

text \<open>
  C32. The IPC buffer carries messages faithfully: a constructed message whose capabilities fit in
  the buffer and whose label, capability count and length fit in the fields of a message info is
  prepared without a panic, and reading the buffer back with the message info that
  \<open>prepare\<close> builds gives a message with the same label, payload and capability count; the
  capability words are in the buffer and the rest of the world is unchanged.
\<close>

theorem message_loopback:
  assumes "message_with_capabilities K label words caps = Ok m" and "buffer_wf K (wbuf w)"
    and "length caps \<le> length (caps_or_badges (wbuf w))"
    and "info_law K" and "label < 2 ^ 52" and "length caps < 4" and "length words < 128"
  shows "\<exists>info v r. message_prepare K m w = ((Ok info, v) :: (msg_info, unit) res \<times> 'k world) \<and>
    message_received K info v = (Ok r, v) \<and> msg_label r = label \<and> message_words r = Some words \<and>
    msg_extra_caps r = length caps \<and> take (length caps) (caps_or_badges (wbuf v)) = caps \<and>
    kstate (mach v) = kstate (mach w) \<and> flag_cells v = flag_cells w \<and> buffer_wf K (wbuf v)"
proof -
  from assms(1) have fit: "length words \<le> MESSAGE_CAPACITY K" "length caps \<le> EXTRA_CAPACITY"
    by (auto simp: message_with_capabilities_def split: if_splits)
  with assms(1) have m: "m = \<lparr>msg_label = label,
      msg_words = words @ replicate (MESSAGE_CAPACITY K - length words) 0, msg_length = length words,
      msg_capabilities = caps @ replicate (EXTRA_CAPACITY - length caps) 0,
      msg_extra_caps = length caps, msg_caps_unwrapped = 0\<rparr>"
    by (simp add: message_with_capabilities_Ok)
  with fit have wf: "message_wf K m" by (simp add: message_wf_def)
  let ?v = "set_buf ((wbuf w)\<lparr>msg_regs := words @ drop (length words) (msg_regs (wbuf w)),
      caps_or_badges := caps @ drop (length caps) (caps_or_badges (wbuf w))\<rparr>) w"
  have buf: "buffer_wf K (wbuf ?v)" using assms(2) fit by (simp add: buffer_wf_def)
  note built = info_lawD(2) [OF assms(4-7)]
  have "message_prepare K m w = ((Ok \<lparr>mi_label = label, mi_caps_unwrapped = 0,
      mi_extra_caps = length caps, mi_length = length words\<rparr>, ?v) :: (msg_info, unit) res \<times> 'k world)"
    using assms(2,3) fit unfolding message_prepare_wf [OF wf] by (simp add: m buffer_wf_def built)
  moreover have "\<exists>r. message_received K \<lparr>mi_label = label, mi_caps_unwrapped = 0,
      mi_extra_caps = length caps, mi_length = length words\<rparr> ?v = (Ok r, ?v) \<and> msg_label r = label \<and>
      message_words r = Some words \<and> msg_extra_caps r = length caps"
    using fit by (auto simp: message_received_buffer [OF buf] message_words_def slice_to_def)
  ultimately show ?thesis using buf by fastforce
qed

theorem message_loopback_witness:
  "let w = ref_world [] (\<lambda>_. []) in
   \<exists>m info v r. message_with_capabilities ref_sel4 3 [7, 8] [9] = Ok m \<and>
     message_prepare ref_sel4 m w = ((Ok info, v) :: (msg_info, unit) res \<times> ref_kernel world) \<and>
     message_received ref_sel4 info v = (Ok r, v) \<and> message_words r = Some [7, 8]"
proof -
  let ?w = "ref_world [] (\<lambda>_. [])"
  obtain m where m: "message_with_capabilities ref_sel4 3 [7, 8] [9] = Ok m"
    by (simp add: message_with_capabilities_Ok MESSAGE_CAPACITY_def EXTRA_CAPACITY_def)
  have "buffer_wf ref_sel4 (wbuf ?w)" and "length [9 :: cptr] \<le> length (caps_or_badges (wbuf ?w))"
    by (simp_all add: buffer_wf_def ref_world_def MESSAGE_CAPACITY_def)
  from message_loopback [OF m this packed_info_law] m show ?thesis unfolding Let_def by fastforce
qed

text \<open>
  C38. The capability bound is the buffer's, not the message's: a constructed message is prepared
  without a panic exactly when the IPC buffer has room for its capabilities. With the three
  capability words of the documented seL4 buffer, a message with the four capabilities that
  \<open>EXTRA_CAPACITY\<close> admits panics when it is sent.
\<close>

theorem prepare_panics_beyond_buffer:
  assumes "message_with_capabilities K label words caps = Ok m" and "buffer_wf K (wbuf w)"
  shows "fst (message_prepare K m w :: (msg_info, unit) res \<times> 'k world) = Panic \<longleftrightarrow>
    length (caps_or_badges (wbuf w)) < length caps"
proof -
  from message_with_capabilities_wf [OF assms(1)]
  have "message_wf K m" and "msg_extra_caps m = length caps" by simp_all
  moreover from this assms(2) have "msg_length m \<le> length (msg_regs (wbuf w))"
    by (simp add: message_wf_def buffer_wf_def)
  ultimately show ?thesis by (auto simp: message_prepare_wf)
qed

theorem prepare_panics_beyond_buffer_witness:
  "let w = set_buf \<lparr>msg_regs = [0, 0, 0, 0], caps_or_badges = [0, 0, 0], recv_slot = AbsBits 0 0 0\<rparr>
        (ref_world [] (\<lambda>_. []))
   in \<exists>m. message_with_capabilities ref_sel4 0 [] [1, 2, 3, 4] = Ok m \<and>
        fst (message_prepare ref_sel4 m w :: (msg_info, unit) res \<times> ref_kernel world) = Panic"
proof -
  let ?w = "set_buf \<lparr>msg_regs = [0, 0, 0, 0], caps_or_badges = [0, 0, 0], recv_slot = AbsBits 0 0 0\<rparr>
        (ref_world [] (\<lambda>_. []))"
  obtain m where m: "message_with_capabilities ref_sel4 0 [] [1, 2, 3, 4] = Ok m"
    by (simp add: message_with_capabilities_Ok MESSAGE_CAPACITY_def EXTRA_CAPACITY_def)
  have "buffer_wf ref_sel4 (wbuf ?w)" by (simp add: buffer_wf_def MESSAGE_CAPACITY_def)
  from prepare_panics_beyond_buffer [OF m this] m show ?thesis by (simp add: Let_def)
qed

end
