(* ===== verification/Endpoints.thy ===== *)
theory Endpoints
  imports Messages Boot
begin

text \<open>
  The endpoint part of ipc.rs: synchronous receive with the implicit reply authority of the
  classic kernel, the receive destination for a transferred capability, and notifications. The
  flag of an endpoint and the tracker of a CSpace are cells of the store, so that the values
  holding a reference to them share them.
\<close>

section \<open>Receive destinations\<close>

record receive_slot =
  rs_root :: cptr
  rs_size_bits :: usize
  rs_reservation :: slot_reservation
  rs_tracker :: nat

definition map_slot_error :: "slot_error \<Rightarrow> ipc_error" where
  "map_slot_error e = InvalidReceiveSlot"

definition ipc_receive_slot ::
  "cptr \<Rightarrow> usize \<Rightarrow> nat \<Rightarrow> usize \<Rightarrow> ('k world, receive_slot, ipc_error) prog" where
  "ipc_receive_slot root size_bits slots index w =
     (case slot_tracker_reserve index (tracker_cells w slots) of
        (r, t) \<Rightarrow>
          (map_ok (\<lambda>reservation. \<lparr>rs_root = root, rs_size_bits = size_bits,
              rs_reservation = reservation, rs_tracker = slots\<rparr>) (map_err map_slot_error r),
           set_tracker slots t w))"

definition receive_slot_absolute :: "receive_slot \<Rightarrow> abs_cptr" where
  "receive_slot_absolute s =
     AbsBits (rs_root s) (slot_tracker_reservation_slot (rs_reservation s)) (rs_size_bits s)"

definition receive_slot_finish :: "receive_slot \<Rightarrow> bool \<Rightarrow> ('k world, unit, ipc_error) prog" where
  "receive_slot_finish s received w =
     (case (if received
            then slot_tracker_commit (rs_reservation s) (tracker_cells w (rs_tracker s))
            else slot_tracker_cancel (rs_reservation s) (tracker_cells w (rs_tracker s))) of
        (r, t) \<Rightarrow> (map_err (\<lambda>_. InvalidReceivePath) r, set_tracker (rs_tracker s) t w))"

definition configure_receive_path :: "receive_slot option \<Rightarrow> ('k world, unit, 'e) prog" where
  "configure_receive_path slot = pmodify (\<lambda>w. set_buf ((wbuf w)\<lparr>recv_slot :=
     (case slot of Some s \<Rightarrow> receive_slot_absolute s | None \<Rightarrow> AbsBits 0 0 0)\<rparr>) w)"

section \<open>Endpoints and received messages\<close>

record endpoint =
  ep_cap :: cptr
  ep_pending :: nat

record received_message =
  rm_endpoint :: endpoint
  rm_badge :: "badge option"
  rm_message :: message

text \<open>\<open>MessageInfoBuilder::default().build()\<close>.\<close>

definition default_info :: "'k sel4 \<Rightarrow> msg_info" where
  "default_info K = message_info K 0 0 0"

definition endpoint_send :: "'k sel4 \<Rightarrow> endpoint \<Rightarrow> message \<Rightarrow> ('k world, unit, 'e) prog" where
  "endpoint_send K ep m = pbind (message_prepare K m) (\<lambda>info. invoke (cap_send K (ep_cap ep) info))"

definition endpoint_try_send :: "'k sel4 \<Rightarrow> endpoint \<Rightarrow> message \<Rightarrow> ('k world, unit, 'e) prog" where
  "endpoint_try_send K ep m = pbind (message_prepare K m) (\<lambda>info. invoke (ep_nb_send K (ep_cap ep) info))"

definition endpoint_call :: "'k sel4 \<Rightarrow> endpoint \<Rightarrow> message \<Rightarrow> ('k world, message, ipc_error) prog" where
  "endpoint_call K ep m =
     pbind (message_prepare K m) (\<lambda>info.
     pbind (invoke (ep_call K (ep_cap ep) info)) (\<lambda>reply. message_received K reply))"

definition clear_implicit_reply :: "'k sel4 \<Rightarrow> endpoint \<Rightarrow> ('k world, unit, 'e) prog" where
  "clear_implicit_reply K ep =
     pbind (invoke (sys_reply K (default_info K))) (\<lambda>_. pmodify (set_flag (ep_pending ep) False))"

text \<open>\<open>if let Some(slot) = receive_slot \{ slot.finish(received)? \}\<close>.\<close>

definition finish_slot :: "receive_slot option \<Rightarrow> bool \<Rightarrow> ('k world, unit, ipc_error) prog" where
  "finish_slot slot received =
     (case slot of Some s \<Rightarrow> receive_slot_finish s received | None \<Rightarrow> pret ())"

text \<open>The common end of both receives, after the kernel returned a message.\<close>

definition endpoint_deliver ::
  "'k sel4 \<Rightarrow> endpoint \<Rightarrow> receive_slot option \<Rightarrow> msg_info \<Rightarrow> u64 \<Rightarrow>
     ('k world, received_message, ipc_error) prog" where
  "endpoint_deliver K ep slot info raw_badge =
     (let capacity = (if slot = None then 0 else 1) in
      pbind (finish_slot slot (mi_extra_caps info \<noteq> 0)) (\<lambda>_.
        if mi_extra_caps info > capacity
        then pbind (clear_implicit_reply K ep)
               (\<lambda>_. pfail (ReceiveCapacityExceeded (mi_extra_caps info) capacity))
        else (\<lambda>w. case message_received K info w of
            (Ok m, v) \<Rightarrow> (Ok \<lparr>rm_endpoint = ep, rm_badge = badge_ok raw_badge, rm_message = m\<rparr>, v)
          | (Err e, v) \<Rightarrow> pbind (clear_implicit_reply K ep) (\<lambda>_. pfail e) v
          | (Panic, v) \<Rightarrow> (Panic, v))))"

definition endpoint_receive ::
  "'k sel4 \<Rightarrow> endpoint \<Rightarrow> receive_slot option \<Rightarrow> ('k world, received_message, ipc_error) prog" where
  "endpoint_receive K ep slot w =
     (let pending = flag_cells w (ep_pending ep); w = set_flag (ep_pending ep) True w in
      if pending then (Err ReplyPending, w)
      else
        pbind (configure_receive_path slot) (\<lambda>_.
        pbind (invoke (ep_recv K (ep_cap ep))) (\<lambda>(info, raw_badge).
        endpoint_deliver K ep slot info raw_badge)) w)"

definition endpoint_try_receive ::
  "'k sel4 \<Rightarrow> endpoint \<Rightarrow> receive_slot option \<Rightarrow>
     ('k world, received_message option, ipc_error) prog" where
  "endpoint_try_receive K ep slot w =
     (let pending = flag_cells w (ep_pending ep); w = set_flag (ep_pending ep) True w in
      if pending then (Err ReplyPending, w)
      else
        pbind (configure_receive_path slot) (\<lambda>_.
        pbind (invoke (ep_nb_recv K (ep_cap ep))) (\<lambda>(info, raw_badge).
          if raw_badge = 0 \<and> mi_length info = 0 \<and> mi_extra_caps info = 0
          then pbind (pmodify (set_flag (ep_pending ep) False)) (\<lambda>_.
               pbind (finish_slot slot False) (\<lambda>_. pret None))
          else pmap Some (endpoint_deliver K ep slot info raw_badge))) w)"

definition received_message_reply ::
  "'k sel4 \<Rightarrow> received_message \<Rightarrow> message \<Rightarrow> ('k world, unit, 'e) prog" where
  "received_message_reply K rm m =
     pbind (message_prepare K m) (\<lambda>info.
     pbind (invoke (sys_reply K info)) (\<lambda>_.
     pmodify (set_flag (ep_pending (rm_endpoint rm)) False)))"

definition received_message_finish :: "'k sel4 \<Rightarrow> received_message \<Rightarrow> ('k world, unit, 'e) prog" where
  "received_message_finish K rm = clear_implicit_reply K (rm_endpoint rm)"

section \<open>Notifications\<close>

datatype notification = Notification (ntfn_cap: cptr)

definition notification_signal :: "'k sel4 \<Rightarrow> notification \<Rightarrow> ('k world, unit, 'e) prog" where
  "notification_signal K n = invoke (ntfn_signal K (ntfn_cap n))"

definition notification_wait :: "'k sel4 \<Rightarrow> notification \<Rightarrow> ('k world, badge option, 'e) prog" where
  "notification_wait K n = pbind (invoke (ntfn_wait K (ntfn_cap n))) (\<lambda>raw. pret (badge_ok raw))"

definition notification_poll :: "'k sel4 \<Rightarrow> notification \<Rightarrow> ('k world, badge option, 'e) prog" where
  "notification_poll K n = pbind (invoke (ntfn_poll K (ntfn_cap n))) (\<lambda>raw. pret (badge_ok raw))"

section \<open>Allocation from the bootstrap\<close>

definition bootstrap_allocate_endpoint :: "'k sel4 \<Rightarrow> ('k boot_state, endpoint, bootstrap_error) prog" where
  "bootstrap_allocate_endpoint K =
     pbind (bootstrap_allocate_object K EndpointBp) (\<lambda>cap.
     pbind (on_world fresh_cell) (\<lambda>cell.
     pbind (on_world (pmodify (set_flag cell False))) (\<lambda>_.
     pret \<lparr>ep_cap = cap, ep_pending = cell\<rparr>)))"

definition bootstrap_allocate_notification ::
  "'k sel4 \<Rightarrow> ('k boot_state, notification, bootstrap_error) prog" where
  "bootstrap_allocate_notification K =
     pmap Notification (bootstrap_allocate_object K NotificationBp)"

section \<open>Effects of the parts\<close>

lemma set_mach_simps [simp]:
  "mach (w\<lparr>mach := m\<rparr>) = m" "flag_cells (w\<lparr>mach := m\<rparr>) = flag_cells w"
  "tracker_cells (w\<lparr>mach := m\<rparr>) = tracker_cells w" "mask_cells (w\<lparr>mach := m\<rparr>) = mask_cells w"
  by simp_all

text \<open>The world after the reply authority was used with an empty message.\<close>

definition replied :: "'k sel4 \<Rightarrow> endpoint \<Rightarrow> 'k world \<Rightarrow> 'k world" where
  "replied K ep w =
     set_flag (ep_pending ep) False (w\<lparr>mach := snd (sys_reply K (default_info K) (mach w))\<rparr>)"

lemma clear_implicit_reply_run: "clear_implicit_reply K ep w = (Ok (), replied K ep w)"
  by (simp add: clear_implicit_reply_def invoke_def pmodify_def pbind_def replied_def
      split: prod.splits)

lemma replied_simps [simp]:
  "flag_cells (replied K ep w) = (flag_cells w)(ep_pending ep := False)"
  "tracker_cells (replied K ep w) = tracker_cells w"
  "mask_cells (replied K ep w) = mask_cells w"
  by (simp_all add: replied_def)

lemma message_received_world: "message_received K info w = (r, v) \<Longrightarrow> v = w"
  by (auto simp: message_received_def Let_def split: if_splits option.splits)

lemma message_received_bounds:
  "message_received K info w = (Ok m, v) \<Longrightarrow>
     msg_length m = mi_length info \<and> mi_length info \<le> MESSAGE_CAPACITY K \<and>
     msg_extra_caps m = mi_extra_caps info \<and> msg_label m = mi_label info \<and>
     msg_caps_unwrapped m = mi_caps_unwrapped info"
  by (auto simp: message_received_def message_empty_def Let_def split: if_splits option.splits)

lemma message_received_Err:
  "message_received K info w = (Err e, v) \<Longrightarrow> mi_extra_caps info \<le> 1 \<Longrightarrow>
     e = MessageTooLong (mi_length info) (MESSAGE_CAPACITY K)"
  by (auto simp: message_received_def EXTRA_CAPACITY_def Let_def split: if_splits option.splits)

lemma badge_ok_nonzero: "badge_ok raw = Some b \<Longrightarrow> badge_raw b = raw \<and> raw \<noteq> 0"
  by (auto simp: badge_ok_def badge_new_def split: if_splits)

text \<open>
  A receive destination is ready when its reservation is live in the well-formed tracker it
  borrows; \<open>slot_state\<close> reads off what became of its slot.
\<close>

definition slot_ready :: "receive_slot option \<Rightarrow> 'k world \<Rightarrow> bool" where
  "slot_ready slot w = (case slot of None \<Rightarrow> True | Some s \<Rightarrow>
     tracker_wf (tracker_cells w (rs_tracker s)) \<and>
     live_reservation (rs_reservation s) (tracker_cells w (rs_tracker s)))"

definition slot_state :: "receive_slot \<Rightarrow> 'k world \<Rightarrow> slot_view" where
  "slot_state s w = tracker_view (tracker_cells w (rs_tracker s)) (sr_slot (rs_reservation s))"

definition slot_done :: "receive_slot option \<Rightarrow> bool \<Rightarrow> 'k world \<Rightarrow> 'k world" where
  "slot_done slot received w = (case slot of None \<Rightarrow> w | Some s \<Rightarrow>
     set_tracker (rs_tracker s)
       (set_state (unat (sr_slot (rs_reservation s))) (if received then OCCUPIED else FREE)
         (tracker_cells w (rs_tracker s))) w)"

lemma slot_done_simps [simp]:
  "flag_cells (slot_done slot b w) = flag_cells w"
  "mask_cells (slot_done slot b w) = mask_cells w"
  "mach (slot_done slot b w) = mach w"
  by (simp_all add: slot_done_def split: option.splits)

lemma finish_slot_run: "slot_ready slot w \<Longrightarrow> finish_slot slot b w = (Ok (), slot_done slot b w)"
  by (auto simp: finish_slot_def slot_ready_def slot_done_def receive_slot_finish_def pret_def
      finish_refines split: option.splits)

lemma slot_ready_cong:
  "tracker_cells v = tracker_cells w \<Longrightarrow> slot_ready slot v = slot_ready slot w"
  by (cases slot) (simp_all add: slot_ready_def)

lemma slot_state_done:
  assumes "slot_ready (Some s) w" and "tracker_cells v = tracker_cells (slot_done (Some s) b w)"
  shows "slot_state s v = (if b then SOwned else SFree)"
  using assms finish_refines(4) [of "tracker_cells w (rs_tracker s)" "rs_reservation s"]
  by (simp add: slot_state_def slot_done_def slot_ready_def)

lemma deliver_run:
  fixes info :: msg_info
  assumes "slot_ready slot w"
  defines "u \<equiv> slot_done slot (mi_extra_caps info \<noteq> 0) w"
    and "cap \<equiv> if slot = None then 0 else (1 :: nat)"
  shows "endpoint_deliver K ep slot info raw w =
    (if mi_extra_caps info > cap then (Err (ReceiveCapacityExceeded (mi_extra_caps info) cap), replied K ep u)
     else (case message_received K info u of
         (Ok m, _) \<Rightarrow> (Ok \<lparr>rm_endpoint = ep, rm_badge = badge_ok raw, rm_message = m\<rparr>, u)
       | (Err e, _) \<Rightarrow> (Err e, replied K ep u)
       | (Panic, _) \<Rightarrow> (Panic, u)))"
  using finish_slot_run [OF assms(1)] message_received_world [of K info u]
  by (auto simp: endpoint_deliver_def pbind_def clear_implicit_reply_run pfail_def u_def cap_def
      Let_def split: prod.splits res.splits)

text \<open>What every delivery leaves: the flag, the other flags, and the destination slot.\<close>

lemma deliver_outcome:
  assumes ready: "slot_ready slot w" and run: "endpoint_deliver K ep slot info raw w = (r, v)"
  shows "(\<forall>c. c \<noteq> ep_pending ep \<longrightarrow> flag_cells v c = flag_cells w c) \<and>
    (\<forall>s. slot = Some s \<longrightarrow> slot_state s v = (if mi_extra_caps info = 0 then SFree else SOwned)) \<and>
    (case r of
       Ok rm \<Rightarrow> flag_cells v = flag_cells w \<and> rm_endpoint rm = ep \<and> rm_badge rm = badge_ok raw \<and>
         msg_extra_caps (rm_message rm) = mi_extra_caps info \<and>
         msg_length (rm_message rm) \<le> MESSAGE_CAPACITY K \<and>
         mi_extra_caps info \<le> (if slot = None then 0 else 1)
     | Err e \<Rightarrow> \<not> flag_cells v (ep_pending ep) \<and>
         (e = ReceiveCapacityExceeded (mi_extra_caps info) (if slot = None then 0 else 1) \<or>
          e = MessageTooLong (mi_length info) (MESSAGE_CAPACITY K))
     | Panic \<Rightarrow> True)"
proof -
  let ?u = "slot_done slot (mi_extra_caps info \<noteq> 0) w"
  let ?cap = "if slot = None then 0 else (1 :: nat)"
  note run' = run [unfolded deliver_run [OF ready]]
  have trackers: "tracker_cells v = tracker_cells ?u"
    using run' by (auto split: if_splits prod.splits res.splits)
  have slot: "slot_state s v = (if mi_extra_caps info = 0 then SFree else SOwned)" if "slot = Some s" for s
    using slot_state_done [of s w v] ready trackers that by simp
  show ?thesis
  proof (cases "mi_extra_caps info > ?cap")
    case True
    with run' slot show ?thesis by auto
  next
    case False
    obtain x u where rec: "message_received K info ?u = (x, u)" by fastforce
    show ?thesis
    proof (cases x)
      case (Ok m)
      with rec message_received_bounds [of K info ?u m u] run' False slot show ?thesis by auto
    next
      case (Err e)
      moreover have "mi_extra_caps info \<le> 1" using False by (auto split: if_splits)
      ultimately show ?thesis
        using rec message_received_Err [of K info ?u e u] run' False slot by auto
    qed (use rec run' False slot in auto)
  qed
qed

lemma receive_run:
  "endpoint_receive K ep slot w =
    (if flag_cells w (ep_pending ep) then (Err ReplyPending, w)
     else (case ep_recv K (ep_cap ep)
             (mach (snd (configure_receive_path slot (set_flag (ep_pending ep) True w) :: (unit, unit) res \<times> _))) of
       ((info, raw), m) \<Rightarrow>
         endpoint_deliver K ep slot info raw
           (set_flag (ep_pending ep) True w\<lparr>mach := m\<rparr>)))"
proof -
  have "set_flag c True w = w" if "flag_cells w c" for c
    using that by (simp add: set_flag_def fun_upd_idem)
  then show ?thesis
    by (auto simp: endpoint_receive_def Let_def pbind_def configure_receive_path_def pmodify_def
        invoke_def set_buf_def split: prod.splits)
qed

lemma try_receive_run:
  "endpoint_try_receive K ep slot w =
    (if flag_cells w (ep_pending ep) then (Err ReplyPending, w)
     else (case ep_nb_recv K (ep_cap ep)
             (mach (snd (configure_receive_path slot (set_flag (ep_pending ep) True w) :: (unit, unit) res \<times> _))) of
       ((info, raw), m) \<Rightarrow>
         if raw = 0 \<and> mi_length info = 0 \<and> mi_extra_caps info = 0
         then pbind (finish_slot slot False) (\<lambda>_. pret None)
           (set_flag (ep_pending ep) False (set_flag (ep_pending ep) True w\<lparr>mach := m\<rparr>))
         else pmap Some (endpoint_deliver K ep slot info raw)
           (set_flag (ep_pending ep) True w\<lparr>mach := m\<rparr>)))"
proof -
  have "set_flag c True w = w" if "flag_cells w c" for c
    using that by (simp add: set_flag_def fun_upd_idem)
  then show ?thesis
    by (auto simp: endpoint_try_receive_def Let_def pbind_def configure_receive_path_def pmodify_def
        invoke_def set_buf_def split: prod.splits)
qed

text \<open>
  The contract of a receive, blocking or not: the flags of other endpoints are untouched; a
  message is returned only if no reply was pending, the reply authority is then recorded, the
  message is within bounds, and the destination slot is owned if a capability came and free again
  if none did; a refusal while a reply is pending changes nothing; any other error has released
  the authority and the destination.
\<close>

definition receive_contract :: "'k sel4 \<Rightarrow> endpoint \<Rightarrow> receive_slot option \<Rightarrow> 'k world \<Rightarrow>
    (received_message option, ipc_error) res \<Rightarrow> 'k world \<Rightarrow> bool" where
  "receive_contract K ep slot w r v \<longleftrightarrow>
    (\<forall>c. c \<noteq> ep_pending ep \<longrightarrow> flag_cells v c = flag_cells w c) \<and>
    (case r of
       Ok None \<Rightarrow> \<not> flag_cells w (ep_pending ep) \<and> \<not> flag_cells v (ep_pending ep) \<and>
         (\<forall>s. slot = Some s \<longrightarrow> slot_state s v = SFree)
     | Ok (Some rm) \<Rightarrow> \<not> flag_cells w (ep_pending ep) \<and> flag_cells v (ep_pending ep) \<and>
         rm_endpoint rm = ep \<and> msg_length (rm_message rm) \<le> MESSAGE_CAPACITY K \<and>
         msg_extra_caps (rm_message rm) \<le> (if slot = None then 0 else 1) \<and>
         (\<forall>b. rm_badge rm = Some b \<longrightarrow> badge_raw b \<noteq> 0) \<and>
         (\<forall>s. slot = Some s \<longrightarrow>
            slot_state s v = (if msg_extra_caps (rm_message rm) = 0 then SFree else SOwned))
     | Err e \<Rightarrow> if flag_cells w (ep_pending ep) then e = ReplyPending \<and> v = w
         else \<not> flag_cells v (ep_pending ep) \<and>
           ((\<exists>n. e = ReceiveCapacityExceeded n (if slot = None then 0 else 1)) \<or>
            (\<exists>n. e = MessageTooLong n (MESSAGE_CAPACITY K))) \<and>
           (\<forall>s. slot = Some s \<longrightarrow> slot_state s v \<noteq> SReceiving)
     | Panic \<Rightarrow> \<not> flag_cells w (ep_pending ep))"

lemma receive_outcome:
  assumes "slot_ready slot w" and "endpoint_receive K ep slot w = (r, v)"
  shows "receive_contract K ep slot w (map_ok Some r) v"
proof (cases "flag_cells w (ep_pending ep)")
  case True
  with assms(2) show ?thesis by (auto simp: receive_contract_def receive_run)
next
  case False
  obtain info raw m where recv: "ep_recv K (ep_cap ep)
      (mach (snd (configure_receive_path slot (set_flag (ep_pending ep) True w) :: (unit, unit) res \<times> _))) =
      ((info, raw), m)" by (metis prod.exhaust)
  let ?w = "set_flag (ep_pending ep) True w\<lparr>mach := m\<rparr>"
  from assms(2) False recv have run: "endpoint_deliver K ep slot info raw ?w = (r, v)"
    by (simp add: receive_run)
  have "slot_ready slot ?w" using assms(1) by (simp add: slot_ready_cong [of ?w w])
  from deliver_outcome [OF this run] False show ?thesis
    by (cases r) (auto simp: receive_contract_def dest: badge_ok_nonzero)
qed

text \<open>
  The machine after the kernel has delivered a message to a receive, and what the receive makes
  of it: a refused message is answered through the kernel, with an empty message.
\<close>

definition received_mach :: "'k sel4 \<Rightarrow> endpoint \<Rightarrow> receive_slot option \<Rightarrow> 'k world \<Rightarrow> 'k machine" where
  "received_mach K ep slot w =
     snd (ep_recv K (ep_cap ep) (mach (snd (configure_receive_path slot w :: (unit, unit) res \<times> _))))"

lemma configured_mach:
  "mach (snd (configure_receive_path slot (set_flag c b w) :: (unit, 'e) res \<times> _)) =
    mach (snd (configure_receive_path slot w :: (unit, unit) res \<times> _))"
  by (simp add: configure_receive_path_def pmodify_def set_buf_def set_flag_def)

lemma replied_mach [simp]: "mach (replied K ep w) = snd (sys_reply K (default_info K) (mach w))"
  by (simp add: replied_def set_flag_def)

lemma receive_machine:
  assumes ready: "slot_ready slot w" and free: "\<not> flag_cells w (ep_pending ep)"
    and run: "endpoint_receive K ep slot w = (r, v)"
  shows "mach v = (case r of Err _ \<Rightarrow> snd (sys_reply K (default_info K) (received_mach K ep slot w))
    | _ \<Rightarrow> received_mach K ep slot w)"
proof -
  obtain info raw m where recv: "ep_recv K (ep_cap ep)
      (mach (snd (configure_receive_path slot w :: (unit, unit) res \<times> _))) = ((info, raw), m)"
    by (metis prod.exhaust)
  let ?w = "set_flag (ep_pending ep) True w\<lparr>mach := m\<rparr>"
  have "slot_ready slot ?w" using ready by (simp add: slot_ready_cong [of ?w w])
  moreover from run free recv have "endpoint_deliver K ep slot info raw ?w = (r, v)"
    by (simp add: receive_run configured_mach)
  ultimately have "mach v = (case r of Err _ \<Rightarrow> snd (sys_reply K (default_info K) m) | _ \<Rightarrow> m)"
    by (auto simp: deliver_run split: if_splits prod.splits res.splits)
  moreover from recv have "m = received_mach K ep slot w" by (simp add: received_mach_def)
  ultimately show ?thesis by (simp only:)
qed

lemma try_receive_outcome:
  assumes "slot_ready slot w" and "endpoint_try_receive K ep slot w = (r, v)"
  shows "receive_contract K ep slot w r v"
proof (cases "flag_cells w (ep_pending ep)")
  case True
  with assms(2) show ?thesis by (auto simp: receive_contract_def try_receive_run)
next
  case False
  obtain info raw m where recv: "ep_nb_recv K (ep_cap ep)
      (mach (snd (configure_receive_path slot (set_flag (ep_pending ep) True w) :: (unit, unit) res \<times> _))) =
      ((info, raw), m)" by (metis prod.exhaust)
  let ?w = "set_flag (ep_pending ep) True w\<lparr>mach := m\<rparr>"
  have ready: "slot_ready slot ?w" using assms(1) by (simp add: slot_ready_cong [of ?w w])
  show ?thesis
  proof (cases "raw = 0 \<and> mi_length info = 0 \<and> mi_extra_caps info = 0")
    case True
    let ?u = "set_flag (ep_pending ep) False ?w"
    have ready: "slot_ready slot ?u" using assms(1) by (simp add: slot_ready_cong [of ?u w])
    from assms(2) False recv True have "r = Ok None" and v: "v = slot_done slot False ?u"
      by (simp_all add: try_receive_run pbind_def finish_slot_run [OF ready] pret_def)
    moreover have "slot_state s v = SFree" if "slot = Some s" for s
      using slot_state_done [of s ?u v False] ready that v by simp
    ultimately show ?thesis using False by (simp add: receive_contract_def)
  next
    case nonempty: False
    from assms(2) False recv nonempty obtain x where
      run: "endpoint_deliver K ep slot info raw ?w = (x, v)" and r: "r = map_ok Some x"
      by (auto simp: try_receive_run pmap_def split: prod.splits)
    from deliver_outcome [OF ready run] False r show ?thesis
      by (cases x) (auto simp: receive_contract_def dest: badge_ok_nonzero)
  qed
qed

end
