(* ===== verification/Reply_Pool.thy ===== *)
theory Reply_Pool
  imports Endpoints
begin

text \<open>
  The deferred-reply part of ipc.rs: a bounded pool of root slots whose occupancy is a 64-bit
  mask, saving the caller's reply capability into a pool slot, and answering or discarding it
  later. The mask is a cell of the store, shared by the pool and its deferred replies.
\<close>

section \<open>Deferred replies\<close>

record reply_pool =
  rp_slots :: usize_range
  rp_occupied :: nat

record deferred_reply =
  dr_pool :: reply_pool
  dr_slot :: usize

text \<open>A shift by more than the width panics (\<open>None\<close>).\<close>

definition low_bits :: "nat \<Rightarrow> u64 option" where
  "low_bits count =
     (if count = 64 then Some (- 1)
      else if count < 64 then Some (push_bit count 1 - 1) else None)"

definition reply_pool_reserve :: "reply_pool \<Rightarrow> ('k world, usize option, 'e) prog" where
  "reply_pool_reserve p w =
     (let capacity = range_len (rp_slots p); occupied = mask_cells w (rp_occupied p) in
      case low_bits capacity of
        None \<Rightarrow> (Panic, w)
      | Some low \<Rightarrow>
          let available = (NOT occupied) AND low in
          if available = 0 then (Ok None, w)
          else
            let offset = trailing_zeros available in
            (Ok (checked_add (range_start (rp_slots p)) (of_nat offset)),
             set_mask (rp_occupied p) (occupied OR push_bit offset 1) w))"

definition reply_pool_release :: "reply_pool \<Rightarrow> usize \<Rightarrow> ('k world, unit, 'e) prog" where
  "reply_pool_release p slot w =
     (case checked_sub slot (range_start (rp_slots p)) of
        None \<Rightarrow> (Ok (), w)
      | Some offset \<Rightarrow>
          if unat offset < range_len (rp_slots p) then
            if unat offset < 64 then
              (Ok (), set_mask (rp_occupied p)
                 (mask_cells w (rp_occupied p) AND NOT (push_bit (unat offset) 1)) w)
            else (Panic, w)
          else (Ok (), w))"

definition received_message_defer ::
  "'k sel4 \<Rightarrow> received_message \<Rightarrow> reply_pool \<Rightarrow> ('k world, deferred_reply, ipc_error) prog" where
  "received_message_defer K rm pool =
     pbind (reply_pool_reserve pool) (\<lambda>reserved.
       case reserved of
         None \<Rightarrow> pbind (clear_implicit_reply K (rm_endpoint rm)) (\<lambda>_. pfail NoReplySlots)
       | Some slot \<Rightarrow> (\<lambda>w. case save_caller K slot w of
             (Err _, v) \<Rightarrow>
               pbind (reply_pool_release pool slot) (\<lambda>_.
               pbind (clear_implicit_reply K (rm_endpoint rm)) (\<lambda>_. pfail NoReplyAuthority)) v
           | (Ok _, v) \<Rightarrow>
               pbind (pmodify (set_flag (ep_pending (rm_endpoint rm)) False)) (\<lambda>_.
               pret \<lparr>dr_pool = pool, dr_slot = slot\<rparr>) v
           | (Panic, v) \<Rightarrow> (Panic, v)))"

definition deferred_reply_reply ::
  "'k sel4 \<Rightarrow> deferred_reply \<Rightarrow> message \<Rightarrow> ('k world, unit, 'e) prog" where
  "deferred_reply_reply K d m =
     pbind (message_prepare K m) (\<lambda>info.
     pbind (invoke (cap_send K (slot_cptr K (dr_slot d)) info)) (\<lambda>_.
     reply_pool_release (dr_pool d) (dr_slot d)))"

definition deferred_reply_discard ::
  "'k sel4 \<Rightarrow> deferred_reply \<Rightarrow> ('k world, unit, ipc_error) prog" where
  "deferred_reply_discard K d =
     pbind (pmap_err (\<lambda>_. ReplyCapabilityOperationFailed) (delete_root_slot K (dr_slot d))) (\<lambda>_.
     reply_pool_release (dr_pool d) (dr_slot d))"

definition bootstrap_allocate_reply_pool ::
  "usize \<Rightarrow> ('k boot_state, reply_pool, bootstrap_error) prog" where
  "bootstrap_allocate_reply_pool capacity =
     (if capacity = 0 \<or> unat capacity > MAX_DEFERRED_REPLIES then pfail InvalidTaskConfiguration
      else
        pbind (\<lambda>(b, w). case bootstrap_reserve_empty_slots capacity b of
            (r, c) \<Rightarrow> (ok_or NoFreeSlots r, (c, w))) (\<lambda>slots.
        pbind (on_world fresh_cell) (\<lambda>cell.
        pbind (on_world (pmodify (set_mask cell 0))) (\<lambda>_.
        pret \<lparr>rp_slots = slots, rp_occupied = cell\<rparr>))))"

section \<open>Bits of the mask\<close>

lemma low_bits_Some: "n \<le> 64 \<Longrightarrow> \<exists>l. low_bits n = Some l \<and> (\<forall>i. bit l i \<longleftrightarrow> i < n)"
proof (cases "n = 64")
  case True
  then show ?thesis by (auto simp: low_bits_def bit_minus_1_iff possible_bit_def)
next
  case False
  moreover assume "n \<le> 64"
  ultimately have n: "n < 64" by simp
  have "push_bit n (1 :: u64) - 1 = mask n" by (simp add: mask_eq_exp_minus_1 push_bit_eq_mult)
  with n show ?thesis by (auto simp: low_bits_def bit_mask_iff possible_bit_def)
qed

lemma low_bits_None: "64 < n \<Longrightarrow> low_bits n = None"
  by (simp add: low_bits_def)

lemma trailing_zeros_spec:
  assumes "a \<noteq> 0"
  shows "trailing_zeros a < 64" and "bit a (trailing_zeros a)"
    and "j < trailing_zeros a \<Longrightarrow> \<not> bit a j"
proof -
  from assms obtain i where i: "bit a i" by (auto simp: bit_eq_iff)
  then have "i < 64" using bit_imp_le_length [OF i] by simp
  have len: "trailing_zeros a < length [0..<64]"
  proof (rule ccontr)
    assume "\<not> ?thesis"
    with length_takeWhile_le [of "\<lambda>i. \<not> bit a i" "[0..<64]"]
    have "length (takeWhile (\<lambda>i. \<not> bit a i) [0..<64]) = length [0..<64]"
      unfolding trailing_zeros_def by linarith
    then have "takeWhile (\<lambda>i. \<not> bit a i) [0..<64] = [0..<64]"
      by (metis takeWhile_eq_take take_all order_refl)
    then have "\<forall>i \<in> set [0..<64]. \<not> bit a i" by (simp only: takeWhile_eq_all_conv)
    with i \<open>i < 64\<close> show False by simp
  qed
  then show "trailing_zeros a < 64" by simp
  have "\<not> \<not> bit a ([0..<64] ! trailing_zeros a)"
    using nth_length_takeWhile [of "\<lambda>i. \<not> bit a i" "[0..<64]"] len by (simp add: trailing_zeros_def)
  with len show "bit a (trailing_zeros a)" by simp
  assume "j < trailing_zeros a"
  then have "takeWhile (\<lambda>i. \<not> bit a i) [0..<64] ! j \<in> set (takeWhile (\<lambda>i. \<not> bit a i) [0..<64])"
    by (intro nth_mem) (simp add: trailing_zeros_def)
  moreover have "takeWhile (\<lambda>i. \<not> bit a i) [0..<64] ! j = j"
    using \<open>j < trailing_zeros a\<close> len by (simp add: takeWhile_nth trailing_zeros_def)
  ultimately show "\<not> bit a j" by (metis set_takeWhileD)
qed

lemma bit_single: "k < 64 \<Longrightarrow> bit (push_bit k (1 :: u64)) i \<longleftrightarrow> i = k"
  by (auto simp: bit_push_bit_iff bit_1_iff possible_bit_def simp del: push_bit_of_1)

lemma bit_set_single: "k < 64 \<Longrightarrow> bit (m OR push_bit k (1 :: u64)) i \<longleftrightarrow> bit m i \<or> i = k"
  by (simp only: bit_or_iff bit_single)

lemma bit_clear_single:
  "k < 64 \<Longrightarrow> bit (m AND NOT (push_bit k (1 :: u64))) i \<longleftrightarrow> bit m i \<and> i \<noteq> k"
  by (auto simp only: bit_and_iff bit_not_iff bit_single possible_bit_def dest: bit_imp_le_length)
    (auto dest: bit_imp_le_length)

section \<open>The pool as a set of slots\<close>

definition pool_wf :: "reply_pool \<Rightarrow> 'k world \<Rightarrow> bool" where
  "pool_wf p w \<longleftrightarrow> range_len (rp_slots p) \<le> 64 \<and>
     (\<forall>i. bit (mask_cells w (rp_occupied p)) i \<longrightarrow> i < range_len (rp_slots p))"

definition pool_slot :: "reply_pool \<Rightarrow> nat \<Rightarrow> usize" where
  "pool_slot p i = range_start (rp_slots p) + of_nat i"

definition pool_slots :: "reply_pool \<Rightarrow> usize set" where
  "pool_slots p = set (range_list (rp_slots p))"

definition pool_used :: "reply_pool \<Rightarrow> 'k world \<Rightarrow> usize set" where
  "pool_used p w = pool_slot p ` {i. bit (mask_cells w (rp_occupied p)) i}"

lemma unat_pool_slot:
  "i < range_len (rp_slots p) \<Longrightarrow> unat (pool_slot p i) = unat (range_start (rp_slots p)) + i"
  using unat_lt_64 [of "range_end (rp_slots p)"]
  by (auto simp: pool_slot_def range_len_def unat_word_ariths unat_of_nat_lt split: if_splits)

lemma pool_slot_inj:
  "i < range_len (rp_slots p) \<Longrightarrow> j < range_len (rp_slots p) \<Longrightarrow> pool_slot p i = pool_slot p j \<Longrightarrow> i = j"
  by (metis unat_pool_slot add_left_cancel)

lemma pool_slots_eq: "pool_slots p = pool_slot p ` {..< range_len (rp_slots p)}"
proof -
  have "x \<in> pool_slots p \<longleftrightarrow> x \<in> pool_slot p ` {..< range_len (rp_slots p)}" for x
  proof
    assume "x \<in> pool_slots p"
    then have lo: "unat (range_start (rp_slots p)) \<le> unat x" and hi: "unat x < unat (range_end (rp_slots p))"
      by (simp_all add: pool_slots_def set_range_list word_le_nat_alt word_less_nat_alt)
    define i where "i = unat x - unat (range_start (rp_slots p))"
    from lo hi have i: "i < range_len (rp_slots p)"
      by (simp add: i_def range_len_def word_less_nat_alt)
    have "unat (range_start (rp_slots p)) + i = unat x" using lo by (simp add: i_def)
    then have "unat x = unat (pool_slot p i)" by (metis unat_pool_slot [OF i])
    then have "x = pool_slot p i" by (rule word_unat_eq_iff [THEN iffD2])
    with i show "x \<in> pool_slot p ` {..< range_len (rp_slots p)}" by blast
  next
    assume "x \<in> pool_slot p ` {..< range_len (rp_slots p)}"
    then obtain i where "i < range_len (rp_slots p)" "x = pool_slot p i" by blast
    then show "x \<in> pool_slots p"
      using unat_pool_slot [of i p]
      by (auto simp: pool_slots_def set_range_list word_le_nat_alt word_less_nat_alt range_len_def
          split: if_splits)
  qed
  then show ?thesis by blast
qed

lemma card_pool_slots: "card (pool_slots p) = range_len (rp_slots p)"
  unfolding pool_slots_eq by (subst card_image) (auto intro: inj_onI pool_slot_inj)

lemma pool_used_subset: "pool_wf p w \<Longrightarrow> pool_used p w \<subseteq> pool_slots p"
  by (auto simp: pool_wf_def pool_used_def pool_slots_eq)

lemma pool_slot_fresh:
  assumes "pool_wf p w" and "k < range_len (rp_slots p)" and "\<not> bit (mask_cells w (rp_occupied p)) k"
  shows "pool_slot p k \<in> pool_slot p ` {..< range_len (rp_slots p)} - pool_used p w"
proof -
  have "pool_slot p k \<notin> pool_used p w"
  proof
    assume "pool_slot p k \<in> pool_used p w"
    then obtain i where i: "bit (mask_cells w (rp_occupied p)) i" "pool_slot p k = pool_slot p i"
      by (auto simp: pool_used_def)
    then have "i < range_len (rp_slots p)" using assms(1) by (simp add: pool_wf_def)
    from pool_slot_inj [OF assms(2) this i(2)] i(1) assms(3) show False by simp
  qed
  with assms(2) show ?thesis by blast
qed

lemma pool_used_remove:
  assumes "pool_wf p w" and "k < range_len (rp_slots p)"
    and "\<And>i. bit m i \<longleftrightarrow> bit (mask_cells w (rp_occupied p)) i \<and> i \<noteq> k"
  shows "pool_slot p ` {i. bit m i} = pool_used p w - {pool_slot p k}"
proof -
  have "inj_on (pool_slot p) {..< range_len (rp_slots p)}"
    by (auto intro: inj_onI pool_slot_inj)
  moreover have "{i. bit (mask_cells w (rp_occupied p)) i} \<subseteq> {..< range_len (rp_slots p)}"
    using assms(1) by (auto simp: pool_wf_def)
  moreover have "{i. bit m i} = {i. bit (mask_cells w (rp_occupied p)) i} - {k}"
    using assms(3) by auto
  ultimately show ?thesis
    using assms(2) inj_on_image_set_diff [of "pool_slot p" "{..< range_len (rp_slots p)}"
        "{i. bit (mask_cells w (rp_occupied p)) i}" "{k}"]
    by (simp add: pool_used_def) blast
qed

lemma pool_cong: "mask_cells v = mask_cells w \<Longrightarrow> pool_wf p v = pool_wf p w"
  "mask_cells v = mask_cells w \<Longrightarrow> pool_used p v = pool_used p w"
  by (simp_all add: pool_wf_def pool_used_def)

text \<open>
  Reserving never panics and never leaves the range: it takes the lowest free slot, or reports
  that there is none.
\<close>

lemma reply_pool_reserve_cases:
  assumes "pool_wf p w"
  defines "occ \<equiv> mask_cells w (rp_occupied p)"
  obtains "reply_pool_reserve p w = ((Ok None, w) :: (usize option, 'e) res \<times> 'k world)" "{i. bit occ i} = {..< range_len (rp_slots p)}"
  | k where "k < range_len (rp_slots p)" "k < 64" "\<not> bit occ k" "\<And>j. j < k \<Longrightarrow> bit occ j"
    "reply_pool_reserve p w = ((Ok (Some (pool_slot p k)), set_mask (rp_occupied p) (occ OR push_bit k 1) w)
      :: (usize option, 'e) res \<times> 'k world)"
proof -
  let ?n = "range_len (rp_slots p)"
  from assms(1) have n: "?n \<le> 64" and occ: "\<And>i. bit occ i \<Longrightarrow> i < ?n" by (auto simp: pool_wf_def occ_def)
  from low_bits_Some [OF n] obtain low where low: "low_bits ?n = Some low"
    and bits: "\<And>i. bit low i \<longleftrightarrow> i < ?n" by blast
  let ?av = "(NOT occ) AND low"
  have av: "bit ?av i \<longleftrightarrow> i < ?n \<and> \<not> bit occ i" for i
    using n by (auto simp: bit_and_iff bit_not_iff bits possible_bit_def)
  show thesis
  proof (cases "?av = 0")
    case True
    then have "\<forall>i < ?n. bit occ i" using av by (metis bit_0_eq bot_apply bot_bool_def)
    with occ have "{i. bit occ i} = {..< ?n}" by auto
    moreover have "reply_pool_reserve p w = ((Ok None, w) :: (usize option, 'e) res \<times> 'k world)"
      using True low by (simp add: reply_pool_reserve_def Let_def occ_def)
    ultimately show thesis by (rule that(1) [rotated])
  next
    case False
    let ?k = "trailing_zeros ?av"
    from trailing_zeros_spec(1,2) [OF False] av [of ?k]
    have k: "?k < 64" "?k < ?n" "\<not> bit occ ?k" by auto
    have below: "bit occ j" if "j < ?k" for j using trailing_zeros_spec(3) [OF False that] that k(2) av [of j] by auto
    have sum: "checked_add (range_start (rp_slots p)) (of_nat ?k) = Some (pool_slot p ?k)"
      using unat_pool_slot [OF k(2)] k(1) by (simp add: checked_add_Some unat_of_nat_lt)
    have "reply_pool_reserve p w = ((Ok (Some (pool_slot p ?k)), set_mask (rp_occupied p) (occ OR push_bit ?k 1) w)
      :: (usize option, 'e) res \<times> 'k world)"
      using False low sum by (simp add: reply_pool_reserve_def Let_def occ_def)
    with k below show thesis by (intro that(2) [of ?k])
  qed
qed

lemma reply_pool_reserve_run:
  assumes "pool_wf p w"
  shows "\<exists>x v. reply_pool_reserve p w = ((Ok x, v) :: (usize option, 'e) res \<times> 'k world) \<and> pool_wf p v \<and>
    flag_cells v = flag_cells w \<and> mach v = mach w \<and> tracker_cells v = tracker_cells w \<and>
    (case x of
       None \<Rightarrow> v = w \<and> pool_used p w = pool_slots p
     | Some s \<Rightarrow> s \<in> pool_slots p - pool_used p w \<and> pool_used p v = insert s (pool_used p w))"
proof (cases rule: reply_pool_reserve_cases [where 'e = 'e, OF assms])
  case 1
  then have "pool_used p w = pool_slots p" by (simp add: pool_used_def pool_slots_eq)
  with 1 assms show ?thesis by simp
next
  case (2 k)
  let ?occ = "mask_cells w (rp_occupied p)"
  let ?v = "set_mask (rp_occupied p) (?occ OR push_bit k 1) w"
  have bits: "bit (?occ OR push_bit k 1) i \<longleftrightarrow> bit ?occ i \<or> i = k" for i by (rule bit_set_single [OF 2(2)])
  have "pool_wf p ?v" using assms 2(1) bits by (auto simp: pool_wf_def)
  moreover have "pool_used p ?v = insert (pool_slot p k) (pool_used p w)"
    using bits by (auto simp: pool_used_def)
  moreover have "pool_slot p k \<in> pool_slots p - pool_used p w"
    unfolding pool_slots_eq by (rule pool_slot_fresh [OF assms 2(1,3)])
  ultimately show ?thesis using 2(5) by (intro exI [of _ "Some (pool_slot p k)"] exI [of _ ?v]) simp
qed

definition lowest_free :: "reply_pool \<Rightarrow> 'k world \<Rightarrow> usize \<Rightarrow> bool" where
  "lowest_free p w s \<longleftrightarrow> s \<in> pool_slots p - pool_used p w \<and> (\<forall>t \<in> pool_slots p - pool_used p w. s \<le> t)"

lemma reserve_lowest:
  assumes wf: "pool_wf p w" and run: "reply_pool_reserve p w = ((Ok (Some s), v) :: (usize option, 'e) res \<times> 'k world)"
  shows "lowest_free p w s"
proof (cases rule: reply_pool_reserve_cases [where 'e = 'e, OF wf])
  case 1
  with run show ?thesis by simp
next
  case (2 k)
  with run have s: "s = pool_slot p k" by simp
  have "s \<le> t" if "t \<in> pool_slots p - pool_used p w" for t
  proof -
    from that obtain j where j: "t = pool_slot p j" "j < range_len (rp_slots p)"
      "\<not> bit (mask_cells w (rp_occupied p)) j" by (auto simp: pool_slots_eq pool_used_def)
    with 2(4) [of j] have "k \<le> j" by (meson not_less)
    with unat_pool_slot [OF 2(1)] unat_pool_slot [OF j(2)] show ?thesis by (simp add: s j(1) word_le_nat_alt)
  qed
  moreover have "s \<in> pool_slots p - pool_used p w"
    unfolding s pool_slots_eq by (rule pool_slot_fresh [OF wf 2(1,3)])
  ultimately show ?thesis by (simp add: lowest_free_def)
qed

lemma reply_pool_release_run:
  assumes "pool_wf p w" and "s \<in> pool_slots p"
  shows "\<exists>v. reply_pool_release p s w = (Ok (), v) \<and> pool_wf p v \<and>
    pool_used p v = pool_used p w - {s} \<and>
    flag_cells v = flag_cells w \<and> mach v = mach w \<and> tracker_cells v = tracker_cells w"
proof -
  let ?occ = "mask_cells w (rp_occupied p)"
  from assms(2) obtain k where k: "k < range_len (rp_slots p)" and s: "s = pool_slot p k"
    by (auto simp: pool_slots_eq)
  have k64: "k < 64" using k assms(1) by (simp add: pool_wf_def)
  have le: "range_start (rp_slots p) \<le> s" and off: "unat (s - range_start (rp_slots p)) = k"
    using unat_pool_slot [OF k] by (simp_all add: s word_le_nat_alt unat_sub_le)
  let ?v = "set_mask (rp_occupied p) (?occ AND NOT (push_bit k 1)) w"
  have bits: "bit (?occ AND NOT (push_bit k 1)) i \<longleftrightarrow> bit ?occ i \<and> i \<noteq> k" for i
    by (rule bit_clear_single [OF k64])
  have "reply_pool_release p s w = (Ok (), ?v)"
    using le off k k64 by (simp add: reply_pool_release_def checked_sub_def)
  moreover have "pool_wf p ?v" using assms(1) bits by (auto simp: pool_wf_def)
  moreover have "pool_used p ?v = pool_used p w - {s}"
    using pool_used_remove [OF assms(1) k bits] by (simp add: pool_used_def s)
  ultimately show ?thesis by (intro exI [of _ ?v]) simp
qed

lemma reply_pool_release_outcome:
  assumes "pool_wf p w" and "s \<in> pool_slots p"
    and "reply_pool_release p s w = ((r, v) :: (unit, 'b) res \<times> _)"
  shows "r = Ok () \<and> pool_wf p v \<and> pool_used p v = pool_used p w - {s} \<and> flag_cells v = flag_cells w"
proof -
  from reply_pool_release_run [OF assms(1,2)] obtain u where
    "reply_pool_release p s w = ((Ok (), u) :: (unit, 'b) res \<times> _)" and "pool_wf p u"
    and "pool_used p u = pool_used p w - {s}" and "flag_cells u = flag_cells w" by blast
  with assms(3) show ?thesis by simp
qed

lemma pool_replied [simp]:
  "pool_wf p (replied K ep w) = pool_wf p w" "pool_used p (replied K ep w) = pool_used p w"
  "pool_wf p (set_flag c b w) = pool_wf p w" "pool_used p (set_flag c b w) = pool_used p w"
  by (simp_all add: pool_wf_def pool_used_def)

section \<open>The interface deferral relies on\<close>

text \<open>
  A bounded pool of interchangeable resources. Its clients rely on two laws: taking gives a free
  resource unless all are in use, giving back frees exactly the one returned; neither fails.
\<close>

fun grab :: "('w, 's option, 'e) prog \<Rightarrow> nat \<Rightarrow> 'w \<Rightarrow> 's list \<times> 'w" where
  "grab take_one 0 w = ([], w)"
| "grab take_one (Suc n) w = (case take_one w of
       (Ok (Some s), v) \<Rightarrow> (case grab take_one n v of (xs, u) \<Rightarrow> (s # xs, u))
     | (_, v) \<Rightarrow> grab take_one n v)"

locale slot_pool =
  fixes good :: "'w \<Rightarrow> bool"
    and used :: "'w \<Rightarrow> 's set"
    and slots :: "'s set"
    and reserve :: "'w \<Rightarrow> ('s option, 'e) res \<times> 'w"
    and release :: "'s \<Rightarrow> 'w \<Rightarrow> (unit, 'e) res \<times> 'w"
  assumes slots_finite: "finite slots"
    and used_bound: "good w \<Longrightarrow> used w \<subseteq> slots"
    and reserve_law: "good w \<Longrightarrow> \<exists>x v. reserve w = (Ok x, v) \<and> good v \<and>
      (case x of None \<Rightarrow> v = w \<and> used w = slots
         | Some s \<Rightarrow> s \<in> slots - used w \<and> used v = insert s (used w))"
    and release_law: "good w \<Longrightarrow> s \<in> slots \<Longrightarrow> \<exists>v. release s w = (Ok (), v) \<and> good v \<and>
      used v = used w - {s}"
begin

lemma reserve_None_iff:
  "good w \<Longrightarrow> (\<exists>v. reserve w = (Ok None, v)) \<longleftrightarrow> used w = slots"
proof -
  assume "good w"
  from reserve_law [OF this] obtain x v where "reserve w = (Ok x, v)"
    and "case x of None \<Rightarrow> v = w \<and> used w = slots
      | Some s \<Rightarrow> s \<in> slots - used w \<and> used v = insert s (used w)" by blast
  then show ?thesis by (cases x) auto
qed

lemma reserve_release:
  assumes "good w" and "reserve w = (Ok (Some s), v)" and "release s v = (r, u)"
  shows "r = Ok () \<and> good u \<and> used u = used w"
  using reserve_law [OF assms(1)] assms(2,3) release_law [of v s] by auto

text \<open>Taking repeatedly gives distinct fresh resources, as many as were free.\<close>

lemma grab_distinct:
  "good w \<Longrightarrow> grab reserve n w = (xs, v) \<Longrightarrow> good v \<and> distinct xs \<and> set xs \<inter> used w = {} \<and>
     used v = used w \<union> set xs \<and> length xs = min n (card (slots - used w))"
proof (induction n arbitrary: w xs v)
  case (Suc n)
  from reserve_law [OF Suc.prems(1)] obtain x u where step: "reserve w = (Ok x, u)" "good u"
    and x: "case x of None \<Rightarrow> u = w \<and> used w = slots
      | Some s \<Rightarrow> s \<in> slots - used w \<and> used u = insert s (used w)" by blast
  show ?case
  proof (cases x)
    case None
    with Suc.prems(2) step x have "grab reserve n w = (xs, v)" "used w = slots" by auto
    with Suc.IH [OF Suc.prems(1)] show ?thesis by auto
  next
    case (Some s)
    obtain ys t where rest: "grab reserve n u = (ys, t)" by fastforce
    with Suc.prems(2) step Some have xs: "xs = s # ys" "v = t" by auto
    from x Some have s: "s \<in> slots - used w" "used u = insert s (used w)" by auto
    have "card (slots - used w) = Suc (card (slots - used u))"
      using s slots_finite by (metis Diff_insert card_Suc_Diff1 finite_Diff)
    with Suc.IH [OF step(2) rest] xs s show ?thesis by auto
  qed
qed simp

end

interpretation pool: slot_pool "pool_wf p" "pool_used p" "pool_slots p" "reply_pool_reserve p"
  "reply_pool_release p" for p
proof
  show "finite (pool_slots p)" by (simp add: pool_slots_def)
  show "pool_used p w \<subseteq> pool_slots p" if "pool_wf p w" for w :: "'a world"
    using that by (rule pool_used_subset)
  show "\<exists>x v. reply_pool_reserve p w = (Ok x, v) \<and> pool_wf p v \<and>
      (case x of None \<Rightarrow> v = w \<and> pool_used p w = pool_slots p
         | Some s \<Rightarrow> s \<in> pool_slots p - pool_used p w \<and> pool_used p v = insert s (pool_used p w))"
    if "pool_wf p w" for w :: "'a world"
    using reply_pool_reserve_run [OF that] by blast
  show "\<exists>v. reply_pool_release p s w = (Ok (), v) \<and> pool_wf p v \<and> pool_used p v = pool_used p w - {s}"
    if "pool_wf p w" "s \<in> pool_slots p" for w :: "'a world" and s
    using reply_pool_release_run [OF that] by blast
qed

text \<open>From an empty pool the slots are handed out one after the other.\<close>

lemma slots_in_sequence: "range_list (rp_slots p) = map (pool_slot p) [0..< range_len (rp_slots p)]"
proof (rule nth_equalityI)
  show "length (range_list (rp_slots p)) = length (map (pool_slot p) [0..< range_len (rp_slots p)])"
    by (simp add: length_range_list)
  show "range_list (rp_slots p) ! i = map (pool_slot p) [0..< range_len (rp_slots p)] ! i"
    if "i < length (range_list (rp_slots p))" for i
    using that by (simp add: length_range_list) (simp add: range_list_def pool_slot_def range_len_def split: if_splits)
qed

lemma grab_in_sequence:
  assumes "pool_wf p w" and "\<And>j. bit (mask_cells w (rp_occupied p)) j \<longleftrightarrow> j < i"
  shows "fst (grab (reply_pool_reserve p :: ('k world, usize option, 'e) prog) n w) =
    map (pool_slot p) [i ..< min (i + n) (range_len (rp_slots p))]"
  using assms
proof (induction n arbitrary: w i)
  case (Suc n)
  let ?len = "range_len (rp_slots p)"
  show ?case
  proof (cases rule: reply_pool_reserve_cases [where 'e = 'e, OF Suc.prems(1)])
    case 1
    then have "{..< i} = {..< ?len}" unfolding Suc.prems(2) by (simp add: lessThan_def)
    then have "i = ?len" by (simp only: lessThan_eq_iff)
    with 1(1) Suc.IH [OF Suc.prems] show ?thesis by simp
  next
    case (2 k)
    from 2(3) have "i \<le> k" unfolding Suc.prems(2) by simp
    moreover have "\<not> i < k" using 2(4) [of i] unfolding Suc.prems(2) by blast
    ultimately have k: "k = i" by simp
    let ?v = "set_mask (rp_occupied p) (mask_cells w (rp_occupied p) OR push_bit k 1) w"
    have bits: "bit (mask_cells ?v (rp_occupied p)) j \<longleftrightarrow> j < Suc i" for j
      using Suc.prems(2) [of j] bit_set_single [OF 2(2), of "mask_cells w (rp_occupied p)" j] k by auto
    moreover have "pool_wf p ?v" using Suc.prems(1) bits 2(1) k by (simp add: pool_wf_def)
    ultimately have "fst (grab (reply_pool_reserve p :: ('k world, usize option, 'e) prog) n ?v) =
        map (pool_slot p) [Suc i ..< min (Suc i + n) ?len]" using Suc.IH by blast
    with 2(1,5) k show ?thesis by (simp add: upt_conv_Cons case_prod_beta)
  qed
qed simp

section \<open>Saving, answering and discarding\<close>

lemma defer_outcome:
  assumes wf: "pool_wf p w" and run: "received_message_defer K rm p w = (r, v)"
  shows "pool_wf p v \<and>
    (\<forall>c. c \<noteq> ep_pending (rm_endpoint rm) \<longrightarrow> flag_cells v c = flag_cells w c) \<and>
    (case r of
       Ok d \<Rightarrow> \<not> flag_cells v (ep_pending (rm_endpoint rm)) \<and> dr_pool d = p \<and>
         dr_slot d \<in> pool_slots p - pool_used p w \<and> pool_used p v = insert (dr_slot d) (pool_used p w)
     | Err e \<Rightarrow> \<not> flag_cells v (ep_pending (rm_endpoint rm)) \<and> pool_used p v = pool_used p w \<and>
         e = (if pool_used p w = pool_slots p then NoReplySlots else NoReplyAuthority)
     | Panic \<Rightarrow> True)"
proof -
  from reply_pool_reserve_run [OF wf] obtain x u where
    res: "reply_pool_reserve p w = ((Ok x, u) :: (usize option, ipc_error) res \<times> _)"
    and u: "pool_wf p u" "flag_cells u = flag_cells w"
    and x: "case x of None \<Rightarrow> u = w \<and> pool_used p w = pool_slots p
      | Some s \<Rightarrow> s \<in> pool_slots p - pool_used p w \<and> pool_used p u = insert s (pool_used p w)"
    by blast
  note run' = run [unfolded received_message_defer_def pbind_run(1) [of "reply_pool_reserve p", OF res]]
  show ?thesis
  proof (cases x)
    case None
    with run' x have "r = Err NoReplySlots" "v = replied K (rm_endpoint rm) w"
      by (simp_all add: pbind_def
          clear_implicit_reply_run pfail_def)
    with None x wf show ?thesis by simp
  next
    case (Some s)
    obtain y t where save: "save_caller K s u = (y, t)" by fastforce
    then have t: "flag_cells t = flag_cells w" "mask_cells t = mask_cells u"
      using u(2) by (auto simp: save_caller_def dest: syscall_cells)
    from x Some have s: "s \<in> pool_slots p - pool_used p w" "pool_used p u = insert s (pool_used p w)"
      by auto
    have wt: "pool_wf p t" "pool_used p t = insert s (pool_used p w)"
      using u(1) s t(2) by (simp_all add: pool_cong [of t u])
    show ?thesis
    proof (cases y)
      case (Ok a)
      with run' Some save have "r = Ok \<lparr>dr_pool = p, dr_slot = s\<rparr>"
        "v = set_flag (ep_pending (rm_endpoint rm)) False t"
        by (simp_all add: received_message_defer_def pbind_run(1) [of "reply_pool_reserve p", OF res] pbind_def pmodify_def
            pret_def)
      with s wt t show ?thesis by simp
    next
      case (Err e)
      from s reply_pool_release_run [OF wt(1)] obtain q where
        rel: "reply_pool_release p s t = ((Ok (), q) :: (unit, ipc_error) res \<times> _)"
        and q: "pool_wf p q" "pool_used p q = pool_used p t - {s}" "flag_cells q = flag_cells t"
        by blast
      from run' Some save Err have "r = Err NoReplyAuthority" "v = replied K (rm_endpoint rm) q"
        by (simp_all add: pbind_run(1) [of "reply_pool_release p s", OF rel]
            pbind_run(1) [of "clear_implicit_reply K (rm_endpoint rm)", OF clear_implicit_reply_run] clear_implicit_reply_run pfail_def)
      with s wt t q show ?thesis by auto
    next
      case Panic
      with run' Some save have "r = Panic" "v = t"
        by simp_all
      with wt t show ?thesis by simp
    qed
  qed
qed

text \<open>What a deferral asks of the kernel, step by step.\<close>

lemma defer_machine:
  assumes wf: "pool_wf p w" and run: "received_message_defer K rm p w = (r, v)"
  shows "if pool_used p w = pool_slots p
    then r = Err NoReplySlots \<and> mach v = snd (sys_reply K (default_info K) (mach w))
    else \<exists>s. lowest_free p w s \<and>
      (case cnode_save_caller K (AbsCPtr (init_cnode K) (slot_cptr K s)) (mach w) of
         (Ok _, n) \<Rightarrow> r = Ok \<lparr>dr_pool = p, dr_slot = s\<rparr> \<and> mach v = n
       | (Err _, n) \<Rightarrow> r = Err NoReplyAuthority \<and> mach v = snd (sys_reply K (default_info K) n)
       | (Panic, n) \<Rightarrow> r = Panic)"
proof -
  from reply_pool_reserve_run [OF wf] obtain x u where
    res: "reply_pool_reserve p w = ((Ok x, u) :: (usize option, ipc_error) res \<times> _)"
    and u: "pool_wf p u" "mach u = mach w"
    and x: "case x of None \<Rightarrow> u = w \<and> pool_used p w = pool_slots p
      | Some s \<Rightarrow> s \<in> pool_slots p - pool_used p w \<and> pool_used p u = insert s (pool_used p w)"
    by blast
  note run' = run [unfolded received_message_defer_def pbind_run(1) [of "reply_pool_reserve p", OF res]]
  show ?thesis
  proof (cases x)
    case None
    with run' x show ?thesis
      by (auto simp: pbind_def clear_implicit_reply_run pfail_def replied_def)
  next
    case (Some s)
    have s: "lowest_free p w s" using reserve_lowest [OF wf, of s u] res Some by simp
    obtain y n where save: "cnode_save_caller K (AbsCPtr (init_cnode K) (slot_cptr K s)) (mach w) = (y, n)" by fastforce
    then have run_save: "save_caller K s u = (y, u\<lparr>mach := n\<rparr>)" by (simp add: save_caller_def syscall_def u(2))
    have "case y of Ok _ \<Rightarrow> r = Ok \<lparr>dr_pool = p, dr_slot = s\<rparr> \<and> mach v = n
      | Err _ \<Rightarrow> r = Err NoReplyAuthority \<and> mach v = snd (sys_reply K (default_info K) n) | Panic \<Rightarrow> r = Panic"
    proof (cases y)
      case (Err e)
      have "pool_wf p (u\<lparr>mach := n\<rparr>)" using u(1) by (simp add: pool_wf_def)
      then obtain q where
        rel: "reply_pool_release p s (u\<lparr>mach := n\<rparr>) = ((Ok (), q) :: (unit, ipc_error) res \<times> _)" and q: "mach q = n"
        using reply_pool_release_run [of p "u\<lparr>mach := n\<rparr>" s] s by (auto simp: lowest_free_def)
      from run' Some run_save Err q show ?thesis
        by (auto simp: pbind_run(1) [of "reply_pool_release p s", OF rel] clear_implicit_reply_run replied_def
            pbind_run(1) [of "clear_implicit_reply K (rm_endpoint rm)", OF clear_implicit_reply_run] pfail_def)
    qed (use run' Some run_save in \<open>auto simp: pbind_def pmodify_def pret_def\<close>)
    then have "\<exists>s. lowest_free p w s \<and>
      (case cnode_save_caller K (AbsCPtr (init_cnode K) (slot_cptr K s)) (mach w) of
         (Ok _, n) \<Rightarrow> r = Ok \<lparr>dr_pool = p, dr_slot = s\<rparr> \<and> mach v = n
       | (Err _, n) \<Rightarrow> r = Err NoReplyAuthority \<and> mach v = snd (sys_reply K (default_info K) n)
       | (Panic, n) \<Rightarrow> r = Panic)" using s save by (intro exI [of _ s]) (auto split: res.splits)
    moreover have "pool_used p w \<noteq> pool_slots p" using s by (auto simp: lowest_free_def)
    ultimately show ?thesis by simp
  qed
qed

lemma deferred_reply_outcome:
  assumes wf: "pool_wf p w" and d: "dr_pool d = p" "dr_slot d \<in> pool_slots p"
    and run: "deferred_reply_reply K d m w = ((r, v) :: (unit, 'b) res \<times> _)"
  shows "pool_wf p v \<and> flag_cells v = flag_cells w \<and>
    (case r of Ok _ \<Rightarrow> pool_used p v = pool_used p w - {dr_slot d} | Err e \<Rightarrow> False
      | Panic \<Rightarrow> pool_used p v = pool_used p w)"
proof -
  obtain x u where prep: "message_prepare K m w = ((x, u) :: (msg_info, 'b) res \<times> _)" by fastforce
  from message_prepare_cells [OF prep] have u: "flag_cells u = flag_cells w" "mask_cells u = mask_cells w"
    by simp_all
  have noErr: "x \<noteq> Err e" for e using prep by (auto simp: message_prepare_def split: option.splits)
  show ?thesis
  proof (cases x)
    case (Ok info)
    let ?t = "u\<lparr>mach := snd (cap_send K (slot_cptr K (dr_slot d)) info (mach u))\<rparr>"
    have t: "pool_wf p ?t" "pool_used p ?t = pool_used p w"
      using wf u by (simp_all add: pool_cong [of ?t w])
    have "reply_pool_release p (dr_slot d) ?t = (r, v)"
      using run prep Ok d(1)
      by (auto simp: deferred_reply_reply_def pbind_def invoke_def split: prod.splits)
    from reply_pool_release_outcome [OF t(1) d(2) this] t u show ?thesis by simp
  next
    case Panic
    with run prep have "r = Panic" "v = u"
      by (simp_all add: deferred_reply_reply_def pbind_def)
    with wf u show ?thesis by (simp add: pool_cong [of u w])
  qed (use noErr in blast)
qed

lemma discard_outcome:
  assumes wf: "pool_wf p w" and d: "dr_pool d = p" "dr_slot d \<in> pool_slots p"
    and run: "deferred_reply_discard K d w = (r, v)"
  shows "pool_wf p v \<and> flag_cells v = flag_cells w \<and>
    (case r of Ok _ \<Rightarrow> pool_used p v = pool_used p w - {dr_slot d}
      | Err e \<Rightarrow> e = ReplyCapabilityOperationFailed \<and> pool_used p v = pool_used p w
      | Panic \<Rightarrow> pool_used p v = pool_used p w)"
proof -
  obtain x u where del: "delete_root_slot K (dr_slot d) w = (x, u)" by fastforce
  then have u: "flag_cells u = flag_cells w" "mask_cells u = mask_cells w"
    by (auto simp: delete_root_slot_def dest: syscall_cells)
  then have wu: "pool_wf p u" "pool_used p u = pool_used p w"
    using wf by (simp_all add: pool_cong [of u w])
  show ?thesis
  proof (cases x)
    case (Ok a)
    with run del have "reply_pool_release p (dr_slot d) u = (r, v)"
      by (simp add: deferred_reply_discard_def pbind_def d pmap_err_run [of "delete_root_slot K (dr_slot d)"])
    from reply_pool_release_outcome [OF wu(1) d(2) this] wu u show ?thesis by simp
  qed (use run del wu u in \<open>auto simp: deferred_reply_discard_def pbind_def
      pmap_err_run [of "delete_root_slot K (dr_slot d)"]\<close>)
qed

section \<open>Properties\<close>

text \<open>
  C31. A reply pool is exactly its reserved slots: an allocated pool is well formed with nothing in
  use; its slots are the block of \<open>capacity\<close> consecutive root slots at the allocator's position,
  which the allocator has passed and will not hand out again; and reserving repeatedly gives
  the slots of that block in order, each once, and then none.
\<close>

theorem reply_pool_is_exact:
  assumes "bootstrap_allocate_reply_pool capacity (b, w) = (Ok p, (c, v))"
  shows "pool_wf p v \<and> pool_used p v = {} \<and> card (pool_slots p) = unat capacity \<and>
    unat capacity \<in> {1..64} \<and>
    pool_slots p = {bootstrap_checkpoint b ..< bootstrap_checkpoint c} \<and>
    (let taken = fst (grab (reply_pool_reserve p :: ('k world, usize option, unit) prog) n v) in
      taken = take n (range_list (rp_slots p)) \<and>
      distinct taken \<and> set taken \<subseteq> pool_slots p \<and> length taken = min n (unat capacity))"
proof -
  from assms obtain slots f where cap: "capacity \<noteq> 0" "unat capacity \<le> 64"
    and res: "free_slots_reserve capacity (bt_slots b) = (Some slots, f)"
    and p: "p = \<lparr>rp_slots = slots, rp_occupied = next_cell w\<rparr>" "c = b\<lparr>bt_slots := f\<rparr>"
      "v = set_mask (next_cell w) 0 (w\<lparr>next_cell := Suc (next_cell w)\<rparr>)"
    by (auto simp: bootstrap_allocate_reply_pool_def bootstrap_reserve_empty_slots_def pbind_def
        pfail_def pret_def on_world_def fresh_cell_def pmodify_def MAX_DEFERRED_REPLIES_def
        split: if_splits prod.splits res.splits)
  from res have slots: "unat (fs_start (bt_slots b)) + unat capacity \<le> unat (fs_end (bt_slots b))"
    "slots = \<lparr>range_start = fs_start (bt_slots b), range_end = fs_start (bt_slots b) + capacity\<rparr>"
    "f = set_start (fs_start (bt_slots b) + capacity) (bt_slots b)"
    by (auto simp: free_slots_reserve_Some)
  have pos: "0 < unat capacity" using cap(1) by (simp add: unat_gt_0)
  have len: "range_len (rp_slots p) = unat capacity"
    using pos unat_add_below [OF slots(1)] by (simp add: p slots range_len_def word_less_nat_alt)
  have wf: "pool_wf p v" and used: "pool_used p v = {}"
    using cap by (simp_all add: pool_wf_def pool_used_def len) (simp_all add: p)
  have empty: "bit (mask_cells v (rp_occupied p)) j \<longleftrightarrow> j < 0" for j by (simp add: p)
  obtain xs u where run: "grab (reply_pool_reserve p :: ('k world, usize option, unit) prog) n v = (xs, u)"
    by fastforce
  have "take n [0 ..< range_len (rp_slots p)] = [0 ..< min n (range_len (rp_slots p))]"
    by (cases "n \<le> range_len (rp_slots p)") simp_all
  then have order: "xs = take n (range_list (rp_slots p))"
    using grab_in_sequence [where 'e = unit, OF wf, of 0 n] run empty
    by (simp add: slots_in_sequence take_map min.commute)
  from pool.grab_distinct [OF wf run] used card_pool_slots [of p] len pool.used_bound [of p u]
  have "distinct xs \<and> set xs \<subseteq> pool_slots p \<and> length xs = min n (unat capacity)" by auto
  moreover have "pool_slots p = {bootstrap_checkpoint b ..< bootstrap_checkpoint c}"
    by (simp add: pool_slots_def set_range_list p slots bootstrap_checkpoint_def free_slots_checkpoint_def)
  ultimately show ?thesis using wf used card_pool_slots [of p] len pos cap(2) run order by simp
qed

theorem reply_pool_is_exact_witness:
  "let bi = \<lparr>bi_empty_len = 8, bi_empty_range = \<lparr>range_start = 100, range_end = 108\<rparr>,
        bi_untyped_len = 0, bi_untyped_cap = (\<lambda>_. 50), bi_untyped_list = [], bi_image_len = 0,
        bi_image_cap = (\<lambda>_. 0)\<rparr>;
       b = \<lparr>bt_bootinfo = bi, bt_slots = free_slots_new (bi_empty_range bi)\<rparr>
   in \<exists>p c v. bootstrap_allocate_reply_pool 3 (b, ref_world [] (\<lambda>_. [])) = (Ok p, (c, v)) \<and>
        card (pool_slots p) = 3"
proof -
  let ?bi = "\<lparr>bi_empty_len = 8, bi_empty_range = \<lparr>range_start = 100, range_end = 108\<rparr>,
        bi_untyped_len = 0, bi_untyped_cap = (\<lambda>_. 50), bi_untyped_list = [], bi_image_len = 0,
        bi_image_cap = (\<lambda>_. 0)\<rparr>"
  let ?b = "\<lparr>bt_bootinfo = ?bi, bt_slots = free_slots_new (bi_empty_range ?bi)\<rparr>"
  have "\<exists>p c v. bootstrap_allocate_reply_pool 3 (?b, ref_world [] (\<lambda>_. [])) = (Ok p, (c, v))"
    by (simp add: bootstrap_allocate_reply_pool_def bootstrap_reserve_empty_slots_def
        free_slots_reserve_def checked_add_def pbind_def pret_def on_world_def fresh_cell_def
        pmodify_def MAX_DEFERRED_REPLIES_def)
  then obtain p c v where run: "bootstrap_allocate_reply_pool 3 (?b, ref_world [] (\<lambda>_. [])) = (Ok p, (c, v))"
    by blast
  from reply_pool_is_exact [OF run, of 0] have "card (pool_slots p) = unat (3 :: usize)" by blast
  then have "card (pool_slots p) = 3" by simp
  with run show ?thesis unfolding Let_def by blast
qed

text \<open>
  C24. Deferring is all or nothing. With a free slot, the kernel is asked to save the caller in the
  lowest one: if it does, that slot alone is added to those in use and the handle names it; if it
  refuses, the pool is as before, the caller is answered with an empty message and the error says
  that there was no reply authority. With no free slot the caller is answered at once. Whatever
  happens, short of a panic, the endpoint is no longer waiting for a reply, and the flags of other
  endpoints are untouched.
\<close>

theorem deferral_is_atomic:
  assumes "pool_wf p w" and "received_message_defer K rm p w = (r, v)"
  shows "(if pool_used p w = pool_slots p
      then r = Err NoReplySlots \<and> mach v = snd (sys_reply K (default_info K) (mach w)) \<and> pool_used p v = pool_used p w
      else \<exists>s. lowest_free p w s \<and>
        (case cnode_save_caller K (AbsCPtr (init_cnode K) (slot_cptr K s)) (mach w) of
           (Ok _, n) \<Rightarrow> r = Ok \<lparr>dr_pool = p, dr_slot = s\<rparr> \<and> mach v = n \<and>
             pool_used p v = insert s (pool_used p w)
         | (Err _, n) \<Rightarrow> r = Err NoReplyAuthority \<and> mach v = snd (sys_reply K (default_info K) n) \<and>
             pool_used p v = pool_used p w
         | (Panic, n) \<Rightarrow> r = Panic)) \<and>
    (r \<noteq> Panic \<longrightarrow> \<not> flag_cells v (ep_pending (rm_endpoint rm)) \<and> pool_wf p v) \<and>
    (\<forall>c. c \<noteq> ep_pending (rm_endpoint rm) \<longrightarrow> flag_cells v c = flag_cells w c)"
proof -
  note out = defer_outcome [OF assms] and steps = defer_machine [OF assms]
  show ?thesis
  proof (cases "pool_used p w = pool_slots p")
    case True
    with out steps show ?thesis by simp
  next
    case False
    from steps [unfolded if_not_P [OF False]] obtain s where s: "lowest_free p w s"
      "case cnode_save_caller K (AbsCPtr (init_cnode K) (slot_cptr K s)) (mach w) of
           (Ok _, n) \<Rightarrow> r = Ok \<lparr>dr_pool = p, dr_slot = s\<rparr> \<and> mach v = n
         | (Err _, n) \<Rightarrow> r = Err NoReplyAuthority \<and> mach v = snd (sys_reply K (default_info K) n)
         | (Panic, n) \<Rightarrow> r = Panic" by (elim exE conjE) (rule that; assumption)
    obtain y n where "cnode_save_caller K (AbsCPtr (init_cnode K) (slot_cptr K s)) (mach w) = (y, n)" by fastforce
    with out s False show ?thesis by (cases y) auto
  qed
qed

theorem deferral_is_atomic_witness:
  "let p = \<lparr>rp_slots = \<lparr>range_start = 100, range_end = 102\<rparr>, rp_occupied = 0\<rparr>;
       rm = \<lparr>rm_endpoint = \<lparr>ep_cap = 10, ep_pending = 0\<rparr>, rm_badge = None, rm_message = message_empty ref_sel4 0\<rparr>;
       w = ref_called 5 (ref_world [] (\<lambda>_. []))
   in \<exists>v. received_message_defer ref_sel4 rm p w = (Ok \<lparr>dr_pool = p, dr_slot = 100\<rparr>, v) \<and>
        pool_used p v = {100} \<and> rk_saved (kstate (mach v)) 100 = Some 5"
proof -
  let ?p = "\<lparr>rp_slots = \<lparr>range_start = 100, range_end = 102\<rparr>, rp_occupied = 0\<rparr>"
  let ?rm = "\<lparr>rm_endpoint = \<lparr>ep_cap = 10, ep_pending = 0\<rparr>, rm_badge = None,
      rm_message = message_empty ref_sel4 0\<rparr>"
  let ?w = "ref_called 5 (ref_world [] (\<lambda>_. []))"
  have wf: "pool_wf ?p ?w" and used: "pool_used ?p ?w = {}"
    by (simp_all add: pool_wf_def pool_used_def range_len_def ref_world_def ref_called_def)
  have slots: "pool_slots ?p = {100 ..< 102}" by (simp add: pool_slots_def set_range_list)
  from reply_pool_reserve_run [OF wf] obtain x u where
    res: "reply_pool_reserve ?p ?w = ((Ok x, u) :: (usize option, ipc_error) res \<times> _)"
    and mach: "mach u = mach ?w"
    and x: "case x of None \<Rightarrow> u = ?w \<and> pool_used ?p ?w = pool_slots ?p
      | Some s \<Rightarrow> s \<in> pool_slots ?p - pool_used ?p ?w \<and> pool_used ?p u = insert s (pool_used ?p ?w)"
    by blast
  have "x \<noteq> None"
  proof
    assume "x = None"
    with x slots used have "{100 ..< 102 :: usize} = {}" by simp
    then show False by simp
  qed
  then obtain s where "x = Some s" by blast
  with mach have "\<exists>d v. received_message_defer ref_sel4 ?rm ?p ?w = (Ok d, v)"
    unfolding received_message_defer_def pbind_run(1) [of "reply_pool_reserve ?p", OF res]
    by (simp add: save_caller_def syscall_def ref_called_def ref_world_def pbind_def pmodify_def pret_def)
  then obtain d v where run: "received_message_defer ref_sel4 ?rm ?p ?w = (Ok d, v)" by blast
  have some: "pool_used ?p ?w \<noteq> pool_slots ?p"
  proof
    assume "pool_used ?p ?w = pool_slots ?p"
    with slots used have "{100 ..< 102 :: usize} = {}" by simp
    then show False by simp
  qed
  from deferral_is_atomic [OF wf run] have "\<exists>s. lowest_free ?p ?w s \<and>
      (case cnode_save_caller ref_sel4 (AbsCPtr (init_cnode ref_sel4) (slot_cptr ref_sel4 s)) (mach ?w) of
         (Ok _, n) \<Rightarrow>
           (Ok d :: (deferred_reply, ipc_error) res) = Ok \<lparr>dr_pool = ?p, dr_slot = s\<rparr> \<and> mach v = n \<and>
           pool_used ?p v = insert s (pool_used ?p ?w)
       | (Err _, n) \<Rightarrow> (Ok d :: (deferred_reply, ipc_error) res) = Err NoReplyAuthority \<and>
           mach v = snd (sys_reply ref_sel4 (default_info ref_sel4) n) \<and> pool_used ?p v = pool_used ?p ?w
       | (Panic, n) \<Rightarrow> (Ok d :: (deferred_reply, ipc_error) res) = Panic)"
    unfolding if_not_P [OF some] by (elim conjE)
  then obtain s where low: "lowest_free ?p ?w s"
    and step: "case cnode_save_caller ref_sel4 (AbsCPtr (init_cnode ref_sel4) (slot_cptr ref_sel4 s)) (mach ?w) of
         (Ok _, n) \<Rightarrow>
           (Ok d :: (deferred_reply, ipc_error) res) = Ok \<lparr>dr_pool = ?p, dr_slot = s\<rparr> \<and> mach v = n \<and>
           pool_used ?p v = insert s (pool_used ?p ?w)
       | (Err _, n) \<Rightarrow> (Ok d :: (deferred_reply, ipc_error) res) = Err NoReplyAuthority \<and>
           mach v = snd (sys_reply ref_sel4 (default_info ref_sel4) n) \<and> pool_used ?p v = pool_used ?p ?w
       | (Panic, n) \<Rightarrow> (Ok d :: (deferred_reply, ipc_error) res) = Panic"
    by (elim exE conjE) (rule that)
  from step have rest: "d = \<lparr>dr_pool = ?p, dr_slot = s\<rparr>" "pool_used ?p v = {s}"
      "rk_saved (kstate (mach v)) s = Some 5"
    unfolding used by (simp_all add: ref_called_def)
  from low slots used have "s \<in> {100 ..< 102}" "s \<le> 100" by (auto simp: lowest_free_def)
  then have "s = 100" by simp
  with run rest show ?thesis by (simp add: Let_def)
qed

end
