(* ===== verification/Ipc_Protocol.thy ===== *)
theory Ipc_Protocol
  imports Reply_Pool
begin

text \<open>
  The reply protocol of ipc.rs as a state machine: endpoints, the received messages that still
  hold the implicit reply authority, and the deferred replies of a pool. A step is one call of the
  public interface that returns; the machine is shown to keep every reply authority accounted for.
\<close>

section \<open>The machine\<close>

text \<open>The store, the received messages not yet consumed, the deferred replies not yet consumed.\<close>

type_synonym 'k ipc_state = "'k world \<times> received_message list \<times> deferred_reply list"

abbreviation rm_cell :: "received_message \<Rightarrow> nat" where
  "rm_cell rm \<equiv> ep_pending (rm_endpoint rm)"

text \<open>
  \<open>ipc_drop\<close> is a received message that goes out of scope unanswered, which the source only
  warns about; a failed \<open>discard\<close> consumes its handle as well.
\<close>

inductive ipc_step :: "'k sel4 \<Rightarrow> reply_pool \<Rightarrow> 'k ipc_state \<Rightarrow> 'k ipc_state \<Rightarrow> bool"
  for K :: "'k sel4" and p where
  ipc_receive: "slot_ready slot w \<Longrightarrow> endpoint_receive K ep slot w = (Ok rm, v) \<Longrightarrow>
     ipc_step K p (w, rms, ds) (v, rm # rms, ds)"
| ipc_receive_failed: "slot_ready slot w \<Longrightarrow> endpoint_receive K ep slot w = (Err e, v) \<Longrightarrow>
     ipc_step K p (w, rms, ds) (v, rms, ds)"
| ipc_try_receive: "slot_ready slot w \<Longrightarrow> endpoint_try_receive K ep slot w = (Ok (Some rm), v) \<Longrightarrow>
     ipc_step K p (w, rms, ds) (v, rm # rms, ds)"
| ipc_try_receive_none: "slot_ready slot w \<Longrightarrow> endpoint_try_receive K ep slot w = (Ok None, v) \<Longrightarrow>
     ipc_step K p (w, rms, ds) (v, rms, ds)"
| ipc_try_receive_failed: "slot_ready slot w \<Longrightarrow> endpoint_try_receive K ep slot w = (Err e, v) \<Longrightarrow>
     ipc_step K p (w, rms, ds) (v, rms, ds)"
| ipc_send: "endpoint_send K ep m w = ((Ok (), v) :: (unit, ipc_error) res \<times> 'k world) \<Longrightarrow>
     ipc_step K p (w, rms, ds) (v, rms, ds)"
| ipc_try_send: "endpoint_try_send K ep m w = ((Ok (), v) :: (unit, ipc_error) res \<times> 'k world) \<Longrightarrow>
     ipc_step K p (w, rms, ds) (v, rms, ds)"
| ipc_call: "endpoint_call K ep m w = (r, v) \<Longrightarrow> r \<noteq> Panic \<Longrightarrow> ipc_step K p (w, rms, ds) (v, rms, ds)"
| ipc_reply: "rm \<in> set rms \<Longrightarrow>
     received_message_reply K rm m w = ((Ok (), v) :: (unit, ipc_error) res \<times> 'k world) \<Longrightarrow>
     ipc_step K p (w, rms, ds) (v, remove1 rm rms, ds)"
| ipc_finish: "rm \<in> set rms \<Longrightarrow>
     received_message_finish K rm w = ((Ok (), v) :: (unit, ipc_error) res \<times> 'k world) \<Longrightarrow>
     ipc_step K p (w, rms, ds) (v, remove1 rm rms, ds)"
| ipc_defer: "rm \<in> set rms \<Longrightarrow> received_message_defer K rm p w = (Ok d, v) \<Longrightarrow>
     ipc_step K p (w, rms, ds) (v, remove1 rm rms, d # ds)"
| ipc_defer_failed: "rm \<in> set rms \<Longrightarrow> received_message_defer K rm p w = (Err e, v) \<Longrightarrow>
     ipc_step K p (w, rms, ds) (v, remove1 rm rms, ds)"
| ipc_drop: "rm \<in> set rms \<Longrightarrow> ipc_step K p (w, rms, ds) (w, remove1 rm rms, ds)"
| ipc_deferred_reply: "d \<in> set ds \<Longrightarrow>
     deferred_reply_reply K d m w = ((Ok (), v) :: (unit, ipc_error) res \<times> 'k world) \<Longrightarrow>
     ipc_step K p (w, rms, ds) (v, rms, remove1 d ds)"
| ipc_discard: "d \<in> set ds \<Longrightarrow> deferred_reply_discard K d w = (r, v) \<Longrightarrow> r \<noteq> Panic \<Longrightarrow>
     ipc_step K p (w, rms, ds) (v, rms, remove1 d ds)"

section \<open>The invariant\<close>

text \<open>
  Every received message is the only one of its endpoint and its endpoint knows it is pending;
  every deferred reply has a slot of the pool to itself, and the mask says so.
\<close>

definition ipc_inv :: "reply_pool \<Rightarrow> 'k ipc_state \<Rightarrow> bool" where
  "ipc_inv p = (\<lambda>(w, rms, ds).
     pool_wf p w \<and> distinct (map rm_cell rms) \<and> (\<forall>rm \<in> set rms. flag_cells w (rm_cell rm)) \<and>
     distinct (map dr_slot ds) \<and> (\<forall>d \<in> set ds. dr_pool d = p \<and> dr_slot d \<in> pool_used p w))"

lemma masks_world [simp]:
  "pool_wf p (w\<lparr>mach := m\<rparr>) = pool_wf p w" "pool_used p (w\<lparr>mach := m\<rparr>) = pool_used p w"
  by (simp_all add: pool_wf_def pool_used_def)

lemma distinct_remove1_map:
  "distinct (map f xs) \<Longrightarrow> distinct (map f (remove1 x xs)) \<and>
     (x \<in> set xs \<longrightarrow> (\<forall>y \<in> set (remove1 x xs). f y \<noteq> f x))"
proof (induction xs)
  case (Cons a xs)
  then show ?case using set_remove1_subset [of x xs] by (auto simp: image_iff)
qed simp

lemma inv_same_cells:
  "ipc_inv p (w, rms, ds) \<Longrightarrow> flag_cells v = flag_cells w \<Longrightarrow> mask_cells v = mask_cells w \<Longrightarrow>
     ipc_inv p (v, rms, ds)"
  by (simp add: ipc_inv_def pool_wf_def pool_used_def)

lemma inv_consume:
  assumes "ipc_inv p (w, rms, ds)" and "rm \<in> set rms" and "mask_cells v = mask_cells w"
    and "\<forall>c. c \<noteq> rm_cell rm \<longrightarrow> flag_cells v c = flag_cells w c"
  shows "ipc_inv p (v, remove1 rm rms, ds)"
proof -
  have "pool_wf p v = pool_wf p w" "pool_used p v = pool_used p w"
    using assms(3) by (rule pool_cong)+
  moreover have "set (remove1 rm rms) \<subseteq> set rms" by (rule set_remove1_subset)
  ultimately show ?thesis
    using assms distinct_remove1_map [of rm_cell rms rm] by (auto simp: ipc_inv_def)
qed

text \<open>Receiving never touches the masks of reply pools.\<close>

lemma finish_slot_masks: "finish_slot slot b u = (y, t) \<Longrightarrow> mask_cells t = mask_cells u"
  by (auto simp: finish_slot_def receive_slot_finish_def pret_def split: option.splits prod.splits)

lemma receive_masks:
  "endpoint_receive K ep slot w = (r, v) \<Longrightarrow> slot_ready slot w \<Longrightarrow> mask_cells v = mask_cells w"
  "endpoint_try_receive K ep slot w = (x, v) \<Longrightarrow> slot_ready slot w \<Longrightarrow> mask_cells v = mask_cells w"
proof -
  have deliver: "mask_cells v = mask_cells u"
    if "slot_ready slot u" "endpoint_deliver K ep slot info raw u = (y, v)" for u info raw y
    using that(2) unfolding deliver_run [OF that(1)] by (auto split: if_splits prod.splits res.splits)
  have ready: "slot_ready slot (set_flag c b (u\<lparr>mach := m\<rparr>)) = slot_ready slot u"
    "slot_ready slot (set_flag c b u\<lparr>mach := m\<rparr>) = slot_ready slot u"
    "slot_ready slot (set_flag c b (set_flag c b' u\<lparr>mach := m\<rparr>)) = slot_ready slot u"
    for c b b' m and u :: "'a world"
    by (rule slot_ready_cong, simp)+
  show "endpoint_receive K ep slot w = (r, v) \<Longrightarrow> slot_ready slot w \<Longrightarrow> mask_cells v = mask_cells w"
    by (auto simp: receive_run ready split: if_splits prod.splits dest!: deliver [rotated])
  show "endpoint_try_receive K ep slot w = (x, v) \<Longrightarrow> slot_ready slot w \<Longrightarrow> mask_cells v = mask_cells w"
    by (auto simp: try_receive_run ready pmap_def pbind_def pret_def
        split: if_splits prod.splits res.splits dest!: deliver [rotated] finish_slot_masks)
qed

lemma inv_receive:
  assumes "ipc_inv p (w, rms, ds)" and "receive_contract K ep slot w r v"
    and "mask_cells v = mask_cells w" and "r \<noteq> Panic"
  shows "ipc_inv p (v, (case r of Ok (Some rm) \<Rightarrow> rm # rms | _ \<Rightarrow> rms), ds)"
proof (cases "flag_cells w (ep_pending ep)")
  case True
  with assms(2,4) have "v = w" "\<exists>e. r = Err e"
    by (auto simp: receive_contract_def split: res.splits option.splits)
  with assms(1) show ?thesis by auto
next
  case False
  then have fresh: "\<forall>rm \<in> set rms. rm_cell rm \<noteq> ep_pending ep"
    using assms(1) by (auto simp: ipc_inv_def)
  have pool: "pool_wf p v = pool_wf p w" "pool_used p v = pool_used p w"
    using assms(3) by (rule pool_cong)+
  have others: "\<forall>c. c \<noteq> ep_pending ep \<longrightarrow> flag_cells v c = flag_cells w c"
    using assms(2) by (simp add: receive_contract_def)
  have new: "rm_endpoint rm = ep \<and> flag_cells v (ep_pending ep)" if "r = Ok (Some rm)" for rm
    using assms(2) that by (simp add: receive_contract_def)
  have same: "ipc_inv p (v, rms, ds)"
    using assms(1) fresh others by (simp add: ipc_inv_def pool)
  show ?thesis
  proof (cases "\<exists>rm. r = Ok (Some rm)")
    case True
    then obtain rm where rm: "r = Ok (Some rm)" by blast
    from new [OF rm] fresh have "rm_cell rm \<notin> rm_cell ` set rms" by auto
    with same new [OF rm] rm show ?thesis by (simp add: ipc_inv_def)
  next
    case no: False
    then have "(case r of Ok (Some rm) \<Rightarrow> rm # rms | _ \<Rightarrow> rms) = rms"
      by (auto split: res.splits option.splits)
    with same show ?thesis by simp
  qed
qed

lemma send_cells:
  "endpoint_send K ep m w = (r, v) \<Longrightarrow> flag_cells v = flag_cells w \<and> mask_cells v = mask_cells w"
  "endpoint_try_send K ep m w = (r, v) \<Longrightarrow> flag_cells v = flag_cells w \<and> mask_cells v = mask_cells w"
  by (auto simp: endpoint_send_def endpoint_try_send_def pbind_def
      split: prod.splits res.splits dest!: message_prepare_cells invoke_cells)

lemma call_cells:
  "endpoint_call K ep m w = (r, v) \<Longrightarrow> flag_cells v = flag_cells w \<and> mask_cells v = mask_cells w"
  by (auto simp: endpoint_call_def pbind_def split: prod.splits res.splits
      dest!: message_prepare_cells invoke_cells message_received_world)

lemma reply_cells:
  "received_message_reply K rm m w = (Ok (), v) \<Longrightarrow>
     flag_cells v = (flag_cells w)(rm_cell rm := False) \<and> mask_cells v = mask_cells w"
  by (auto simp: received_message_reply_def pbind_def pmodify_def split: prod.splits res.splits
      dest!: message_prepare_cells invoke_cells)

lemma ipc_step_inv: "ipc_step K p s t \<Longrightarrow> ipc_inv p s \<Longrightarrow> ipc_inv p t"
proof (induction rule: ipc_step.induct)
  case (ipc_receive slot w ep rm v rms ds)
  from inv_receive [OF ipc_receive(3) receive_outcome [OF ipc_receive(1,2)] receive_masks(1) [OF ipc_receive(2,1)]]
  show ?case by simp
next
  case (ipc_receive_failed slot w ep e v rms ds)
  from inv_receive [OF ipc_receive_failed(3) receive_outcome [OF ipc_receive_failed(1,2)]
      receive_masks(1) [OF ipc_receive_failed(2,1)]]
  show ?case by simp
next
  case (ipc_try_receive slot w ep rm v rms ds)
  from inv_receive [OF ipc_try_receive(3) try_receive_outcome [OF ipc_try_receive(1,2)]
      receive_masks(2) [OF ipc_try_receive(2,1)]]
  show ?case by simp
next
  case (ipc_try_receive_none slot w ep v rms ds)
  from inv_receive [OF ipc_try_receive_none(3) try_receive_outcome [OF ipc_try_receive_none(1,2)]
      receive_masks(2) [OF ipc_try_receive_none(2,1)]]
  show ?case by simp
next
  case (ipc_try_receive_failed slot w ep e v rms ds)
  from inv_receive [OF ipc_try_receive_failed(3) try_receive_outcome [OF ipc_try_receive_failed(1,2)]
      receive_masks(2) [OF ipc_try_receive_failed(2,1)]]
  show ?case by simp
next
  case (ipc_reply rm rms m w v ds)
  with reply_cells [OF ipc_reply(2)] show ?case by (intro inv_consume [OF ipc_reply(3,1)]) simp_all
next
  case (ipc_finish rm rms w v ds)
  then have "v = replied K (rm_endpoint rm) w"
    by (simp add: received_message_finish_def clear_implicit_reply_run)
  then show ?case by (intro inv_consume [OF ipc_finish(3,1)]) simp_all
next
  case (ipc_defer rm rms w d v ds)
  then have wf: "pool_wf p w" by (simp add: ipc_inv_def)
  from defer_outcome [OF wf ipc_defer(2)] ipc_defer(1,3) distinct_remove1_map [of rm_cell rms rm]
    set_remove1_subset [of rm rms] show ?case by (auto simp: ipc_inv_def)
next
  case (ipc_defer_failed rm rms w e v ds)
  then have wf: "pool_wf p w" by (simp add: ipc_inv_def)
  from defer_outcome [OF wf ipc_defer_failed(2)] ipc_defer_failed(1,3)
    distinct_remove1_map [of rm_cell rms rm] set_remove1_subset [of rm rms]
  show ?case by (auto simp: ipc_inv_def)
next
  case (ipc_drop rm rms w ds)
  then show ?case by (intro inv_consume [OF ipc_drop(2,1)]) simp_all
next
  case (ipc_deferred_reply d ds m w v rms)
  then have wf: "pool_wf p w" and d: "dr_pool d = p" "dr_slot d \<in> pool_slots p"
    using pool_used_subset [of p w] by (auto simp: ipc_inv_def)
  from deferred_reply_outcome [OF wf d ipc_deferred_reply(2)] ipc_deferred_reply(1,3)
    distinct_remove1_map [of dr_slot ds d] set_remove1_subset [of d ds] show ?case
    by (auto simp: ipc_inv_def)
next
  case (ipc_discard d ds w r v rms)
  then have wf: "pool_wf p w" and d: "dr_pool d = p" "dr_slot d \<in> pool_slots p"
    using pool_used_subset [of p w] by (auto simp: ipc_inv_def)
  from discard_outcome [OF wf d ipc_discard(2)] ipc_discard(1,3,4)
    distinct_remove1_map [of dr_slot ds d] set_remove1_subset [of d ds] show ?case
    by (cases r) (auto simp: ipc_inv_def)
qed (auto intro: inv_same_cells dest: send_cells call_cells)

lemma ipc_reach_inv: "(ipc_step K p)\<^sup>*\<^sup>* s t \<Longrightarrow> ipc_inv p s \<Longrightarrow> ipc_inv p t"
  by (induction rule: rtranclp_induct) (auto intro: ipc_step_inv)

section \<open>Receiving without a panic\<close>

text \<open>
  The IPC buffer is an array of fixed size: the kernel writes into it and never resizes it.
\<close>

definition recv_keeps_buffer :: "'k sel4 \<Rightarrow> bool" where
  "recv_keeps_buffer K \<longleftrightarrow>
     (\<forall>c m. length (msg_regs (ipcbuf (snd (ep_recv K c m)))) = length (msg_regs (ipcbuf m))) \<and>
     (\<forall>c m. length (msg_regs (ipcbuf (snd (ep_nb_recv K c m)))) = length (msg_regs (ipcbuf m)))"

lemma deliver_no_panic:
  assumes "slot_ready slot w" and "buffer_wf K (wbuf w)"
  shows "fst (endpoint_deliver K ep slot info raw w) \<noteq> Panic"
proof -
  have "buffer_wf K (wbuf (slot_done slot (mi_extra_caps info \<noteq> 0) w))" using assms(2) by simp
  then show ?thesis
    by (auto simp: deliver_run [OF assms(1)] message_received_buffer split: prod.splits res.splits)
qed

lemma configure_buffer:
  "buffer_wf K (wbuf w) \<Longrightarrow>
     buffer_wf K (ipcbuf (mach (snd (configure_receive_path slot w :: (unit, unit) res \<times> _))))"
  by (simp add: configure_receive_path_def pmodify_def buffer_wf_def)

lemma receive_no_panic:
  assumes "recv_keeps_buffer K" and "slot_ready slot w" and "buffer_wf K (wbuf w)"
  shows "fst (endpoint_receive K ep slot w) \<noteq> Panic" and "fst (endpoint_try_receive K ep slot w) \<noteq> Panic"
proof -
  let ?c = "mach (snd (configure_receive_path slot (set_flag (ep_pending ep) True w) :: (unit, unit) res \<times> _))"
  have buf: "buffer_wf K (ipcbuf ?c)" using assms(3) by (intro configure_buffer) simp
  have ready: "slot_ready slot (set_flag c b w\<lparr>mach := m\<rparr>)"
    "slot_ready slot (set_flag c b (set_flag c b' w\<lparr>mach := m\<rparr>))" for c b b' m
    using assms(2) by (simp_all add: slot_ready_def split: option.splits)
  have got: "buffer_wf K (ipcbuf (snd (ep_recv K (ep_cap ep) ?c)))"
    "buffer_wf K (ipcbuf (snd (ep_nb_recv K (ep_cap ep) ?c)))"
    using assms(1) buf by (simp_all add: recv_keeps_buffer_def buffer_wf_def)
  obtain info raw m where recv: "ep_recv K (ep_cap ep) ?c = ((info, raw), m)" by (metis prod.exhaust)
  with got(1) ready(1) show "fst (endpoint_receive K ep slot w) \<noteq> Panic"
    by (auto simp: receive_run deliver_no_panic)
  obtain info' raw' n where recv': "ep_nb_recv K (ep_cap ep) ?c = ((info', raw'), n)"
    by (metis prod.exhaust)
  let ?w = "set_flag (ep_pending ep) True w\<lparr>mach := n\<rparr>"
  have "fst (endpoint_deliver K ep slot info' raw' ?w) \<noteq> Panic"
    using got(2) recv' ready(1) by (intro deliver_no_panic) auto
  moreover have "fst (pmap Some m s) \<noteq> Panic \<longleftrightarrow> fst (m s) \<noteq> Panic" for m :: "('k world, received_message, ipc_error) prog" and s
    by (cases "m s"; cases "fst (m s)") (auto simp: pmap_def)
  ultimately show "fst (endpoint_try_receive K ep slot w) \<noteq> Panic"
    using recv' ready(2)
    by (auto simp: try_receive_run pbind_def finish_slot_run pret_def)
qed

section \<open>Properties\<close>

text \<open>
  C5. Both receives keep the receive contract: a message is delivered only when no reply was
  pending on the endpoint, and then the endpoint records the reply authority, the message is
  within the buffer, carries at most the capability the destination can take, and the destination
  slot is owned if a capability came and free again if none did; a receive while a reply is
  pending is refused and changes nothing; every other error has released the authority and the
  destination; and the flags of other endpoints are never touched.
\<close>

theorem receive_upholds_contract:
  assumes "slot_ready slot w"
  shows "(case endpoint_receive K ep slot w of (r, v) \<Rightarrow> receive_contract K ep slot w (map_ok Some r) v) \<and>
    (case endpoint_try_receive K ep slot w of (r, v) \<Rightarrow> receive_contract K ep slot w r v)"
  using receive_outcome [OF assms] try_receive_outcome [OF assms] by (auto split: prod.splits)

theorem receive_upholds_contract_witness:
  "let ep = \<lparr>ep_cap = 10, ep_pending = 0\<rparr>;
       msg = \<lparr>wt_thread = 1, wt_call = True, wt_badge = 7,
         wt_info = \<lparr>mi_label = 3, mi_caps_unwrapped = 0, mi_extra_caps = 0, mi_length = 1\<rparr>, wt_words = [9]\<rparr>;
       w = ref_world [] ((\<lambda>_. [])(10 := [msg]))
   in \<exists>rm v. endpoint_receive ref_sel4 ep None w = (Ok rm, v) \<and> badge_raw (the (rm_badge rm)) = 7 \<and>
        message_words (rm_message rm) = Some [9] \<and> flag_cells v 0"
proof -
  let ?ep = "\<lparr>ep_cap = 10, ep_pending = 0\<rparr>"
  let ?msg = "\<lparr>wt_thread = 1, wt_call = True, wt_badge = 7,
    wt_info = \<lparr>mi_label = 3, mi_caps_unwrapped = 0, mi_extra_caps = 0, mi_length = 1\<rparr>, wt_words = [9]\<rparr>"
  let ?w = "ref_world [] ((\<lambda>_. [])(10 := [?msg]))"
  have "slot_ready None ?w" by (simp add: slot_ready_def)
  note contract = receive_upholds_contract [OF this, of ref_sel4 ?ep]
  have "\<exists>rm v. endpoint_receive ref_sel4 ?ep None ?w = (Ok rm, v) \<and> badge_raw (the (rm_badge rm)) = 7 \<and>
      message_words (rm_message rm) = Some [9]"
    by (simp add: receive_run configure_receive_path_def pmodify_def ref_recv_def ref_world_def
        deliver_run slot_ready_def slot_done_def message_received_def MESSAGE_CAPACITY_def
        EXTRA_CAPACITY_def message_empty_def slice_to_def copy_prefix_def message_words_def
        badge_ok_def badge_new_def set_buf_def set_flag_def Let_def)
  with contract show ?thesis by (auto simp: receive_contract_def Let_def)
qed

text \<open>
  C29. Receiving never panics: with a buffer of the size the source assumes, and a kernel that
  does not resize it, both receives return whatever message arrives, over-long and over-full ones
  included.
\<close>

theorem receive_never_panics:
  assumes "recv_keeps_buffer K" and "slot_ready slot w" and "buffer_wf K (wbuf w)"
  shows "fst (endpoint_receive K ep slot w) \<noteq> Panic \<and> fst (endpoint_try_receive K ep slot w) \<noteq> Panic"
  using receive_no_panic [OF assms] by blast

theorem receive_never_panics_witness:
  "recv_keeps_buffer ref_sel4 \<and>
   fst (endpoint_receive ref_sel4 \<lparr>ep_cap = 10, ep_pending = 0\<rparr> None (ref_world [] (\<lambda>_. []))) \<noteq> Panic"
proof -
  have keeps: "recv_keeps_buffer ref_sel4"
    by (auto simp: recv_keeps_buffer_def ref_recv_def split: list.splits)
  have "slot_ready None (ref_world [] (\<lambda>_. []))" by (simp add: slot_ready_def)
  moreover have "buffer_wf ref_sel4 (wbuf (ref_world [] (\<lambda>_. [])))"
    by (simp add: buffer_wf_def ref_world_def MESSAGE_CAPACITY_def)
  ultimately show ?thesis using receive_never_panics [OF keeps] keeps by blast
qed

text \<open>
  C3. No reply authority is held twice: from a well-formed pool and whatever calls follow
  (receives, sends, replies, deferrals, dropped messages, failed discards), each endpoint has at
  most one received message outstanding and refuses every further receive until it is consumed;
  and the deferred replies outstanding hold distinct slots of the pool, each marked in use, so at
  most as many as the pool has slots.
\<close>

theorem ipc_protocol_safe:
  assumes "pool_wf p w" and "(ipc_step K p)\<^sup>*\<^sup>* (w, [], []) (v, rms, ds)"
  shows "distinct (map rm_cell rms) \<and>
    (\<forall>rm \<in> set rms. endpoint_receive K (rm_endpoint rm) slot v = (Err ReplyPending, v) \<and>
      endpoint_try_receive K (rm_endpoint rm) slot v = (Err ReplyPending, v)) \<and>
    distinct (map dr_slot ds) \<and> dr_slot ` set ds \<subseteq> pool_used p v \<and> pool_used p v \<subseteq> pool_slots p \<and>
    length ds \<le> range_len (rp_slots p)"
proof -
  from assms(1) have "ipc_inv p (w, [], [])" by (simp add: ipc_inv_def)
  with assms(2) have inv: "ipc_inv p (v, rms, ds)" by (rule ipc_reach_inv)
  then have used: "dr_slot ` set ds \<subseteq> pool_used p v" "pool_used p v \<subseteq> pool_slots p"
    using pool_used_subset [of p v] by (auto simp: ipc_inv_def)
  have "length ds = card (dr_slot ` set ds)"
    using inv by (auto simp: ipc_inv_def dest: distinct_card [of "map dr_slot ds"])
  also have "\<dots> \<le> card (pool_slots p)"
    using used by (intro card_mono) (auto simp: pool_slots_def)
  finally have "length ds \<le> range_len (rp_slots p)" by (simp add: card_pool_slots)
  with inv used show ?thesis by (auto simp: ipc_inv_def receive_run try_receive_run)
qed

theorem ipc_protocol_safe_witness:
  "let p = \<lparr>rp_slots = \<lparr>range_start = 100, range_end = 102\<rparr>, rp_occupied = 0\<rparr>;
       ep = \<lparr>ep_cap = 10, ep_pending = 0\<rparr>;
       msg = \<lparr>wt_thread = 1, wt_call = True, wt_badge = 7,
         wt_info = \<lparr>mi_label = 3, mi_caps_unwrapped = 0, mi_extra_caps = 0, mi_length = 1\<rparr>, wt_words = [9]\<rparr>;
       w = ref_world [] ((\<lambda>_. [])(10 := [msg, msg]))
   in \<exists>rm v. (ipc_step ref_sel4 p)\<^sup>*\<^sup>* (w, [], []) (v, [rm], []) \<and>
        endpoint_receive ref_sel4 (rm_endpoint rm) None v = (Err ReplyPending, v)"
proof -
  let ?p = "\<lparr>rp_slots = \<lparr>range_start = 100, range_end = 102\<rparr>, rp_occupied = 0\<rparr>"
  let ?ep = "\<lparr>ep_cap = 10, ep_pending = 0\<rparr>"
  let ?msg = "\<lparr>wt_thread = 1, wt_call = True, wt_badge = 7,
    wt_info = \<lparr>mi_label = 3, mi_caps_unwrapped = 0, mi_extra_caps = 0, mi_length = 1\<rparr>, wt_words = [9]\<rparr>"
  let ?w = "ref_world [] ((\<lambda>_. [])(10 := [?msg, ?msg]))"
  have ready: "slot_ready None ?w" by (simp add: slot_ready_def)
  have "\<exists>rm v. endpoint_receive ref_sel4 ?ep None ?w = (Ok rm, v)"
    by (simp add: receive_run configure_receive_path_def pmodify_def ref_recv_def ref_world_def
        deliver_run slot_ready_def slot_done_def message_received_def MESSAGE_CAPACITY_def
        EXTRA_CAPACITY_def message_empty_def slice_to_def copy_prefix_def set_buf_def set_flag_def Let_def)
  then obtain rm v where "endpoint_receive ref_sel4 ?ep None ?w = (Ok rm, v)" by blast
  from ipc_receive [OF ready this] have reach: "(ipc_step ref_sel4 ?p)\<^sup>*\<^sup>* (?w, [], []) (v, [rm], [])"
    by blast
  moreover have "pool_wf ?p ?w" by (simp add: pool_wf_def range_len_def ref_world_def)
  ultimately have "endpoint_receive ref_sel4 (rm_endpoint rm) None v = (Err ReplyPending, v)"
    using ipc_protocol_safe [of ?p ?w ref_sel4 v "[rm]" "[]" None] by simp
  with reach show ?thesis unfolding Let_def by blast
qed

text \<open>
  Consuming a received message reopens its endpoint: after a reply, a finish or a deferral
  that returned (failed ones included), the next receive on that endpoint is not refused for a
  pending reply.
\<close>

lemma consuming_reopens_endpoint:
  assumes "pool_wf p w"
    and "received_message_reply K rm m w = ((Ok (), v) :: (unit, ipc_error) res \<times> 'k world) \<or>
      received_message_finish K rm w = ((Ok (), v) :: (unit, ipc_error) res \<times> 'k world) \<or>
      (\<exists>r. received_message_defer K rm p w = (r, v) \<and> r \<noteq> Panic)"
  shows "fst (endpoint_receive K (rm_endpoint rm) None v) \<noteq> Err ReplyPending"
proof -
  have clear: "\<not> flag_cells v (rm_cell rm)"
    using assms(2)
  proof (elim disjE exE conjE)
    assume "received_message_reply K rm m w = ((Ok (), v) :: (unit, ipc_error) res \<times> 'k world)"
    from reply_cells [OF this] show ?thesis by simp
  next
    assume "received_message_finish K rm w = ((Ok (), v) :: (unit, ipc_error) res \<times> 'k world)"
    then show ?thesis by (auto simp: received_message_finish_def clear_implicit_reply_run)
  next
    fix r
    assume run: "received_message_defer K rm p w = (r, v)" and "r \<noteq> Panic"
    with defer_outcome [OF assms(1) run] show ?thesis by (cases r) auto
  qed
  have ready: "slot_ready None v" by (simp add: slot_ready_def)
  obtain r u where run: "endpoint_receive K (rm_endpoint rm) None v = (r, u)" by fastforce
  from receive_outcome [OF ready run] clear run show ?thesis
    by (auto simp: receive_contract_def)
qed

lemma consuming_reopens_endpoint_example:
  "let rm = \<lparr>rm_endpoint = \<lparr>ep_cap = 10, ep_pending = 0\<rparr>, rm_badge = None, rm_message = message_empty ref_sel4 0\<rparr>;
       w = set_flag 0 True (ref_world [] (\<lambda>_. []))
   in fst (endpoint_receive ref_sel4 (rm_endpoint rm) None w) = Err ReplyPending \<and>
      (\<exists>v. received_message_finish ref_sel4 rm w = ((Ok (), v) :: (unit, ipc_error) res \<times> _) \<and>
        fst (endpoint_receive ref_sel4 (rm_endpoint rm) None v) \<noteq> Err ReplyPending)"
proof -
  let ?rm = "\<lparr>rm_endpoint = \<lparr>ep_cap = 10, ep_pending = 0\<rparr>, rm_badge = None,
      rm_message = message_empty ref_sel4 0\<rparr>"
  let ?w = "set_flag 0 True (ref_world [] (\<lambda>_. []))"
  let ?p = "\<lparr>rp_slots = \<lparr>range_start = 100, range_end = 102\<rparr>, rp_occupied = 0\<rparr>"
  have wf: "pool_wf ?p ?w" by (simp add: pool_wf_def range_len_def ref_world_def)
  have run: "received_message_finish ref_sel4 ?rm ?w =
      ((Ok (), replied ref_sel4 (rm_endpoint ?rm) ?w) :: (unit, ipc_error) res \<times> _)"
    by (simp add: received_message_finish_def clear_implicit_reply_run)
  have "fst (endpoint_receive ref_sel4 (rm_endpoint ?rm) None ?w) = Err ReplyPending"
    by (simp add: receive_run)
  with consuming_reopens_endpoint [OF wf disjI2 [OF disjI1 [OF run]]] run show ?thesis by auto
qed

text \<open>
  C37. A refused receive loses its destination slot: when a reply is pending, a receive with a
  capability destination consumes the one-shot destination without finishing its reservation; the
  slot stays reserved, no operation of the tracker ever frees it, and every later attempt to use
  it as a destination is refused as occupied.
\<close>

theorem refused_receive_loses_slot:
  assumes "slot_ready (Some s) w" and "flag_cells w (ep_pending ep)"
  shows "endpoint_receive K ep (Some s) w = (Err ReplyPending, w) \<and>
    endpoint_try_receive K ep (Some s) w = (Err ReplyPending, w) \<and> slot_state s w = SReceiving \<and>
    fst (slot_tracker_reserve (sr_slot (rs_reservation s))
      (fold tracker_exec ops (tracker_cells w (rs_tracker s)))) = Err Occupied"
proof -
  let ?t = "tracker_cells w (rs_tracker s)"
  let ?i = "sr_slot (rs_reservation s)"
  from assms(1) have wf: "tracker_wf ?t" and live: "live_reservation (rs_reservation s) ?t"
    by (simp_all add: slot_ready_def)
  then have view: "tracker_view ?t ?i = SReceiving" "?i \<noteq> 0" "?i < st_capacity ?t"
    by (simp_all add: live_reservation_def)
  from tracker_run_view [OF wf, of ops ?i] view
    tracker.taken_refused [of "fold tracker_exec ops ?t" ?i]
  have "fst (slot_tracker_reserve ?i (fold tracker_exec ops ?t)) = Err Occupied" by simp
  with assms(2) view(1) show ?thesis by (simp add: receive_run try_receive_run slot_state_def)
qed

text \<open>A world with an 8-slot tracker whose slot 3 was reserved for a receive.\<close>

definition reserved_world :: "ref_kernel world" where
  "reserved_world = set_tracker 0
     (set_state 3 RESERVED \<lparr>st_capacity = 8, st_states = replicate 256 FREE\<rparr>) (ref_world [] (\<lambda>_. []))"

abbreviation reserved_slot :: receive_slot where
  "reserved_slot \<equiv> \<lparr>rs_root = 20, rs_size_bits = 3, rs_reservation = \<lparr>sr_slot = 3, sr_state = 3\<rparr>, rs_tracker = 0\<rparr>"

lemma reserved_slot_ready: "slot_ready (Some reserved_slot) (set_flag c b reserved_world)"
proof -
  have t: "slot_tracker_try_new 8 = Ok \<lparr>st_capacity = 8, st_states = replicate 256 FREE\<rparr>"
    by (simp add: slot_tracker_try_new_def MAX_SLOTS_def)
  let ?t = "\<lparr>st_capacity = 8, st_states = replicate 256 FREE\<rparr>"
  from try_new_wf [OF t] have wf: "tracker_wf ?t" and free: "tracker_view ?t = (\<lambda>_. SFree)" by simp_all
  have "slot_tracker_reserve 3 ?t = (Ok \<lparr>sr_slot = 3, sr_state = unat (3 :: usize)\<rparr>, set_state (unat (3 :: usize)) RESERVED ?t)"
    unfolding reserve_wf [OF wf] by (simp add: free)
  from tracker.reserve_Ok [OF wf this] show ?thesis
    by (simp add: slot_ready_def reserved_world_def)
qed

theorem refused_receive_loses_slot_witness:
  "let w = set_flag 0 True reserved_world
   in endpoint_receive ref_sel4 \<lparr>ep_cap = 10, ep_pending = 0\<rparr> (Some reserved_slot) w = (Err ReplyPending, w) \<and>
      fst (slot_tracker_reserve 3 (tracker_cells w 0)) = Err Occupied"
  using refused_receive_loses_slot [OF reserved_slot_ready, of 0 True "\<lparr>ep_cap = 10, ep_pending = 0\<rparr>" ref_sel4 "[]"]
  by (simp add: Let_def)

end
