(* ===== verification/CSpace.thy ===== *)
theory CSpace
  imports Ipc_Protocol
begin

text \<open>
  The model of cspace.rs: capabilities delegated to a task, the validation of their destinations,
  the creation of a child CNode holding exactly them, and the tracker of its slots that the
  receive path uses. The operations on the root CSpace are in the theory of root slots.
\<close>

section \<open>Delegated capabilities\<close>

record delegated_capability =
  dc_source :: cptr
  dc_destination :: usize
  dc_rights :: cap_rights
  dc_badge :: u64

definition delegated_new :: "cptr \<Rightarrow> usize \<Rightarrow> cap_rights \<Rightarrow> u64 \<Rightarrow> delegated_capability" where
  "delegated_new source destination rights badge = \<lparr>dc_source = source,
     dc_destination = destination, dc_rights = rights, dc_badge = badge\<rparr>"

definition delegated_notification :: "notification \<Rightarrow> usize \<Rightarrow> delegated_capability" where
  "delegated_notification source destination =
     delegated_new (ntfn_cap source) destination RightsWriteOnly 0"

definition delegated_badged_notification :: "notification \<Rightarrow> usize \<Rightarrow> badge \<Rightarrow> delegated_capability" where
  "delegated_badged_notification source destination badge =
     delegated_new (ntfn_cap source) destination RightsWriteOnly (badge_raw badge)"

definition delegated_badged_endpoint :: "endpoint \<Rightarrow> usize \<Rightarrow> badge \<Rightarrow> delegated_capability" where
  "delegated_badged_endpoint source destination badge =
     delegated_new (ep_cap source) destination (RightsSetGrant True (RightsSetWrite True RightsNone))
       (badge_raw badge)"

text \<open>A task's badged route to a fault endpoint (fault.rs) is such a capability.\<close>

datatype fault_route = FaultRoute (fault_route_delegation: delegated_capability)

definition fault_route_child_slot :: "fault_route \<Rightarrow> usize" where
  "fault_route_child_slot route = dc_destination (fault_route_delegation route)"

section \<open>Validation\<close>

definition cspace_capacity :: "'k sel4 \<Rightarrow> usize \<Rightarrow> (usize, bootstrap_error) res" where
  "cspace_capacity K size_bits =
     (if size_bits = 0 \<or> size_bits \<ge> WORD_SIZE K then Err InvalidTaskConfiguration
      else if unat size_bits \<ge> 2 ^ 32 then Err InvalidTaskConfiguration
      else ok_or InvalidTaskConfiguration (checked_shl 1 (unat size_bits)))"

definition bad_destination ::
  "usize \<Rightarrow> delegated_capability list \<Rightarrow> delegated_capability \<Rightarrow> bool" where
  "bad_destination capacity others c \<longleftrightarrow> dc_destination c = 0 \<or> dc_destination c \<ge> capacity \<or>
     dc_source c = 0 \<or> list_ex (\<lambda>prior. dc_destination prior = dc_destination c) others"

text \<open>The loop over the capabilities, with the ones already seen.\<close>

fun validate_capabilities :: "usize \<Rightarrow> delegated_capability list \<Rightarrow> delegated_capability list \<Rightarrow>
    (unit, bootstrap_error) res" where
  "validate_capabilities capacity prior [] = Ok ()"
| "validate_capabilities capacity prior (c # rest) =
     (if bad_destination capacity prior c then Err InvalidTaskConfiguration
      else validate_capabilities capacity (prior @ [c]) rest)"

definition cspace_validate :: "'k sel4 \<Rightarrow> usize \<Rightarrow> delegated_capability list \<Rightarrow> fault_route option \<Rightarrow>
    (unit, bootstrap_error) res" where
  "cspace_validate K size_bits capabilities fault_route =
     res_bind (cspace_capacity K size_bits) (\<lambda>capacity.
       if size_bits = 0 \<or> size_bits \<ge> WORD_SIZE K then Err InvalidTaskConfiguration
       else res_bind (validate_capabilities capacity [] capabilities) (\<lambda>_.
         case fault_route of
           None \<Rightarrow> Ok ()
         | Some route \<Rightarrow>
             if bad_destination capacity capabilities (fault_route_delegation route)
             then Err InvalidTaskConfiguration else Ok ()))"

section \<open>Creation\<close>

record cspace =
  cs_root :: cptr
  cs_size_bits :: usize
  cs_slots :: nat

definition cspace_install :: "'k sel4 \<Rightarrow> cspace \<Rightarrow> delegated_capability \<Rightarrow>
    ('k world, unit, bootstrap_error) prog" where
  "cspace_install K cs c =
     pbind (pres (map_err (\<lambda>_. InvalidTaskConfiguration) (try_into_word (dc_destination c))))
       (\<lambda>destination_bits.
     pbind (pmap_err (\<lambda>_. CSpaceCreationFailed)
         (syscall (cnode_mint K (AbsBits (cs_root cs) destination_bits (cs_size_bits cs))
           (AbsCPtr (init_cnode K) (dc_source c)) (dc_rights c) (dc_badge c)))) (\<lambda>_.
     (\<lambda>w. case slot_tracker_mark_occupied (dc_destination c) (tracker_cells w (cs_slots cs)) of
        (r, t) \<Rightarrow> (map_err (\<lambda>_. InvalidTaskConfiguration) r, set_tracker (cs_slots cs) t w))))"

definition cspace_create :: "'k sel4 \<Rightarrow> usize \<Rightarrow> delegated_capability list \<Rightarrow> fault_route option \<Rightarrow>
    ('k boot_state, cspace, bootstrap_error) prog" where
  "cspace_create K size_bits capabilities fault_route =
     pbind (pres (cspace_validate K size_bits capabilities fault_route)) (\<lambda>_.
     pbind (bootstrap_allocate_variable_object K CNodeBp size_bits) (\<lambda>root.
     pbind (pres (cspace_capacity K size_bits)) (\<lambda>capacity.
     pbind (pres (map_err (\<lambda>_. InvalidTaskConfiguration) (slot_tracker_try_new capacity))) (\<lambda>slots.
     pbind (on_world fresh_cell) (\<lambda>cell.
     pbind (on_world (pmodify (set_tracker cell slots))) (\<lambda>_.
     let cspace = \<lparr>cs_root = root, cs_size_bits = size_bits, cs_slots = cell\<rparr> in
     pbind (on_world (pfor capabilities (cspace_install K cspace))) (\<lambda>_.
     pbind (case fault_route of
         Some route \<Rightarrow> on_world (cspace_install K cspace (fault_route_delegation route))
       | None \<Rightarrow> pret ()) (\<lambda>_.
     pret cspace))))))))"

text \<open>The subtraction panics when it is below zero.\<close>

definition cspace_root_data :: "'k sel4 \<Rightarrow> cspace \<Rightarrow> (cnode_cap_data, 'e) res" where
  "cspace_root_data K cs =
     map_ok (CNodeCapData 0) (or_panic (checked_sub (WORD_SIZE K) (cs_size_bits cs)))"

definition cspace_receive_slot :: "cspace \<Rightarrow> usize \<Rightarrow> ('k world, receive_slot, ipc_error) prog" where
  "cspace_receive_slot cs index = ipc_receive_slot (cs_root cs) (cs_size_bits cs) (cs_slots cs) index"

section \<open>What validation accepts\<close>

abbreviation route_list :: "fault_route option \<Rightarrow> delegated_capability list" where
  "route_list route \<equiv> (case route of None \<Rightarrow> [] | Some r \<Rightarrow> [fault_route_delegation r])"

definition delegations_ok :: "'k sel4 \<Rightarrow> usize \<Rightarrow> delegated_capability list \<Rightarrow> bool" where
  "delegations_ok K size_bits cs \<longleftrightarrow> 0 < size_bits \<and> size_bits < WORD_SIZE K \<and> size_bits < 64 \<and>
     (\<forall>c \<in> set cs. 0 < dc_destination c \<and> unat (dc_destination c) < 2 ^ unat size_bits \<and> dc_source c \<noteq> 0) \<and>
     distinct (map dc_destination cs)"

lemma unat_shl_1: "n < 64 \<Longrightarrow> unat (push_bit n 1 :: usize) = 2 ^ n"
  by (simp add: unsigned_push_bit_eq take_bit_nat_eq_self push_bit_nat_def del: push_bit_of_1)

lemma bad_destination_iff:
  "bad_destination capacity others c \<longleftrightarrow> \<not> (0 < dc_destination c \<and> dc_destination c < capacity \<and>
     dc_source c \<noteq> 0 \<and> dc_destination c \<notin> dc_destination ` set others)"
proof -
  have "list_ex (\<lambda>prior. dc_destination prior = dc_destination c) others \<longleftrightarrow>
      dc_destination c \<in> dc_destination ` set others"
    by (auto simp: list_ex_iff image_iff) metis
  then show ?thesis by (auto simp: bad_destination_def word_gt_0)
qed

lemma cspace_capacity_eq:
  "cspace_capacity K s = (if 0 < s \<and> s < WORD_SIZE K \<and> s < 64 then Ok (push_bit (unat s) 1)
     else Err InvalidTaskConfiguration)"
proof -
  have "s < 64 \<longleftrightarrow> unat s < 64" by (simp add: word_less_nat_alt)
  moreover have "s = 0 \<longleftrightarrow> \<not> 0 < s" by (metis word_gt_0)
  ultimately show ?thesis
    by (auto simp: cspace_capacity_def checked_shl_def not_less not_le)
qed

lemma validate_capabilities_eq:
  "validate_capabilities capacity prior cs =
     (if (\<forall>c \<in> set cs. 0 < dc_destination c \<and> dc_destination c < capacity \<and> dc_source c \<noteq> 0) \<and>
         distinct (map dc_destination cs) \<and>
         dc_destination ` set cs \<inter> dc_destination ` set prior = {}
      then Ok () else Err InvalidTaskConfiguration)"
proof (induction cs arbitrary: prior)
  case (Cons c cs)
  show ?case by (auto simp: Cons.IH bad_destination_iff)
qed simp

lemma cspace_validate_eq:
  "cspace_validate K s caps route =
     (if delegations_ok K s (caps @ route_list route) then Ok () else Err InvalidTaskConfiguration)"
proof (cases "0 < s \<and> s < WORD_SIZE K \<and> s < 64")
  case False
  then show ?thesis by (auto simp: cspace_validate_def cspace_capacity_eq delegations_ok_def)
next
  case True
  then have "unat s < 64" by (simp add: word_less_nat_alt)
  then have cap: "x < push_bit (unat s) 1 \<longleftrightarrow> unat x < 2 ^ unat s" for x :: usize
    by (simp add: word_less_nat_alt unat_shl_1 del: push_bit_of_1)
  have nz: "\<not> (s = 0 \<or> WORD_SIZE K \<le> s)" using True by auto
  have capacity: "cspace_capacity K s = Ok (push_bit (unat s) 1)"
    using True by (simp add: cspace_capacity_eq)
  show ?thesis
  proof (cases route)
    case None
    with True nz show ?thesis
      by (simp add: cspace_validate_def capacity validate_capabilities_eq delegations_ok_def cap
          del: push_bit_of_1)
  next
    case (Some r)
    with True nz show ?thesis
      by (simp add: cspace_validate_def capacity validate_capabilities_eq delegations_ok_def cap
          bad_destination_iff del: push_bit_of_1)
  qed
qed

section \<open>What creation does\<close>

text \<open>The kernel's part of creation: the mints, in order, all of them successful.\<close>

fun run_mints :: "'k sel4 \<Rightarrow> cptr \<Rightarrow> usize \<Rightarrow> delegated_capability list \<Rightarrow> 'k machine \<Rightarrow> 'k machine option" where
  "run_mints K root size_bits [] m = Some m"
| "run_mints K root size_bits (c # rest) m =
     (case cnode_mint K (AbsBits root (dc_destination c) size_bits) (AbsCPtr (init_cnode K) (dc_source c))
         (dc_rights c) (dc_badge c) m of
        (Ok _, n) \<Rightarrow> run_mints K root size_bits rest n
      | _ \<Rightarrow> None)"

definition owned_view :: "usize set \<Rightarrow> usize \<Rightarrow> slot_view" where
  "owned_view S = (\<lambda>i. if i \<in> S then SOwned else SFree)"

lemma install_run:
  fixes cs :: cspace and c :: delegated_capability
  defines "dest \<equiv> dc_destination c"
  assumes wf: "tracker_wf (tracker_cells w (cs_slots cs))"
    and dest: "dest \<noteq> 0" "dest < st_capacity (tracker_cells w (cs_slots cs))"
      "tracker_view (tracker_cells w (cs_slots cs)) dest = SFree"
    and run: "cspace_install K cs c w = (r, v)"
  shows "case cnode_mint K (AbsBits (cs_root cs) dest (cs_size_bits cs))
      (AbsCPtr (init_cnode K) (dc_source c)) (dc_rights c) (dc_badge c) (mach w) of
    (x, m) \<Rightarrow> mach v = m \<and> r = map_err (\<lambda>_. CSpaceCreationFailed) x \<and>
      (r = Ok () \<longrightarrow> tracker_wf (tracker_cells v (cs_slots cs)) \<and>
        st_capacity (tracker_cells v (cs_slots cs)) = st_capacity (tracker_cells w (cs_slots cs)) \<and>
        tracker_view (tracker_cells v (cs_slots cs)) =
          (tracker_view (tracker_cells w (cs_slots cs)))(dest := SOwned))"
proof -
  let ?t = "tracker_cells w (cs_slots cs)"
  obtain x m where mint: "cnode_mint K (AbsBits (cs_root cs) dest (cs_size_bits cs))
      (AbsCPtr (init_cnode K) (dc_source c)) (dc_rights c) (dc_badge c) (mach w) = (x, m)" by fastforce
  have mark: "slot_tracker_mark_occupied dest ?t = (Ok (), set_state (unat dest) OCCUPIED ?t)"
    using dest by (simp add: mark_occupied_wf [OF wf] not_le)
  have "tracker_wf (set_state (unat dest) OCCUPIED ?t)"
    using wf dest by (simp add: tracker_wf_set_state)
  moreover have "tracker_view (set_state (unat dest) OCCUPIED ?t) = (tracker_view ?t)(dest := SOwned)"
    using wf dest by (simp add: view_set_byte)
  ultimately show ?thesis
    using run mint mark
    by (cases x) (auto simp: cspace_install_def try_into_word_def pres_def pbind_def pmap_err_def
        syscall_def dest_def)
qed

lemma install_all_run:
  assumes "tracker_wf (tracker_cells w (cs_slots cs))"
    and "\<forall>c \<in> set caps. dc_destination c \<noteq> 0 \<and>
      dc_destination c < st_capacity (tracker_cells w (cs_slots cs))"
    and "distinct (map dc_destination caps)"
    and "tracker_view (tracker_cells w (cs_slots cs)) = owned_view S"
    and "S \<inter> dc_destination ` set caps = {}"
    and "pfor caps (cspace_install K cs) w = (Ok (), v)"
  shows "run_mints K (cs_root cs) (cs_size_bits cs) caps (mach w) = Some (mach v) \<and>
    tracker_wf (tracker_cells v (cs_slots cs)) \<and>
    st_capacity (tracker_cells v (cs_slots cs)) = st_capacity (tracker_cells w (cs_slots cs)) \<and>
    tracker_view (tracker_cells v (cs_slots cs)) = owned_view (S \<union> dc_destination ` set caps)"
  using assms
proof (induction caps arbitrary: w S)
  case Nil
  then show ?case by (simp add: pret_def)
next
  case (Cons c caps)
  from Cons.prems(6) obtain u where step: "cspace_install K cs c w = (Ok (), u)"
    and rest: "pfor caps (cspace_install K cs) u = (Ok (), v)"
    by (auto simp: pbind_Ok)
  have "tracker_view (tracker_cells w (cs_slots cs)) (dc_destination c) = SFree"
    using Cons.prems(4,5) by (auto simp: owned_view_def)
  from install_run [OF Cons.prems(1) _ _ this step] Cons.prems(2) obtain x m where
    mint: "cnode_mint K (AbsBits (cs_root cs) (dc_destination c) (cs_size_bits cs))
        (AbsCPtr (init_cnode K) (dc_source c)) (dc_rights c) (dc_badge c) (mach w) = (x, m)"
    and u: "mach u = m" "Ok () = map_err (\<lambda>_. CSpaceCreationFailed) x"
      "tracker_wf (tracker_cells u (cs_slots cs))"
      "st_capacity (tracker_cells u (cs_slots cs)) = st_capacity (tracker_cells w (cs_slots cs))"
      "tracker_view (tracker_cells u (cs_slots cs)) =
        (tracker_view (tracker_cells w (cs_slots cs)))(dc_destination c := SOwned)"
    by (auto split: prod.splits)
  from u(2) have x: "x = Ok ()" by (metis map_err_eq_Ok)
  have "tracker_view (tracker_cells u (cs_slots cs)) = owned_view (insert (dc_destination c) S)"
    using u(5) Cons.prems(4) by (auto simp: owned_view_def)
  from Cons.IH [OF u(3) _ _ this _ rest] Cons.prems u(4) mint x u(1) show ?case by auto
qed

text \<open>Under the same conditions a failure of the loop is a failed mint.\<close>

lemma install_all_Err:
  assumes "tracker_wf (tracker_cells w (cs_slots cs))"
    and "\<forall>c \<in> set caps. dc_destination c \<noteq> 0 \<and>
      dc_destination c < st_capacity (tracker_cells w (cs_slots cs))"
    and "distinct (map dc_destination caps)"
    and "tracker_view (tracker_cells w (cs_slots cs)) = owned_view S"
    and "S \<inter> dc_destination ` set caps = {}"
    and "pfor caps (cspace_install K cs) w = (Err e, v)"
  shows "e = CSpaceCreationFailed"
  using assms
proof (induction caps arbitrary: w S)
  case Nil
  then show ?case by (simp add: pret_def)
next
  case (Cons c caps)
  obtain r u where step: "cspace_install K cs c w = (r, u)" by fastforce
  have "tracker_view (tracker_cells w (cs_slots cs)) (dc_destination c) = SFree"
    using Cons.prems(4,5) by (auto simp: owned_view_def)
  note run = install_run [OF Cons.prems(1) _ _ this step]
  show ?case
  proof (cases r)
    case (Ok a)
    with run Cons.prems(2) have u: "tracker_wf (tracker_cells u (cs_slots cs))"
      "st_capacity (tracker_cells u (cs_slots cs)) = st_capacity (tracker_cells w (cs_slots cs))"
      "tracker_view (tracker_cells u (cs_slots cs)) =
        (tracker_view (tracker_cells w (cs_slots cs)))(dc_destination c := SOwned)"
      by (auto split: prod.splits)
    have "tracker_view (tracker_cells u (cs_slots cs)) = owned_view (insert (dc_destination c) S)"
      using u(3) Cons.prems(4) by (auto simp: owned_view_def)
    moreover have "pfor caps (cspace_install K cs) u = (Err e, v)"
      using Cons.prems(6) step Ok by (simp add: pbind_def)
    ultimately show ?thesis using Cons.IH [OF u(1)] Cons.prems(2,3,5) u(2) by auto
  next
    case (Err x)
    have "r = map_err (\<lambda>_. CSpaceCreationFailed) (fst (cnode_mint K
        (AbsBits (cs_root cs) (dc_destination c) (cs_size_bits cs)) (AbsCPtr (init_cnode K) (dc_source c))
        (dc_rights c) (dc_badge c) (mach w)))"
      using run Cons.prems(2) by (auto split: prod.splits)
    with Err have "x = CSpaceCreationFailed"
      by (cases "fst (cnode_mint K (AbsBits (cs_root cs) (dc_destination c) (cs_size_bits cs))
        (AbsCPtr (init_cnode K) (dc_source c)) (dc_rights c) (dc_badge c) (mach w))") auto
    with Err Cons.prems(6) step show ?thesis by (simp add: pbind_def)
  next
    case Panic
    with Cons.prems(6) step show ?thesis by (simp add: pbind_def)
  qed
qed

lemma try_new_eq:
  "slot_tracker_try_new c = (if c \<le> 256 then Ok \<lparr>st_capacity = c, st_states = replicate 256 FREE\<rparr>
     else Err CapacityTooLarge)"
  by (auto simp: slot_tracker_try_new_def MAX_SLOTS_def not_less)

text \<open>The route is installed like one more capability.\<close>

lemma install_route:
  "pbind (on_world (pfor caps f)) (\<lambda>_. pbind (case route of
       Some r \<Rightarrow> on_world (f (fault_route_delegation r)) | None \<Rightarrow> pret ()) k) =
   pbind (on_world (pfor (caps @ route_list route) f)) k"
  by (rule ext) (cases route; auto simp: pfor_append on_world_def pbind_def pret_def
      split: prod.splits res.splits)

lemma on_world_Ok: "on_world m (b, w) = (Ok a, (c, v)) \<longleftrightarrow> m w = (Ok a, v) \<and> c = b"
  by (auto simp: on_world_def split: prod.splits)

lemma create_Ok:
  assumes "cspace_create K s caps route (b, w) = (Ok cs, (c, v))"
  shows "delegations_ok K s (caps @ route_list route) \<and> cs_size_bits cs = s \<and>
    (\<exists>u. bootstrap_allocate_variable_object K CNodeBp s (b, w) = (Ok (cs_root cs), (c, u)) \<and>
      run_mints K (cs_root cs) s (caps @ route_list route) (mach u) = Some (mach v)) \<and>
    (let t = tracker_cells v (cs_slots cs) in tracker_wf t \<and> unat (st_capacity t) = 2 ^ unat s \<and>
      tracker_view t = owned_view (dc_destination ` set (caps @ route_list route)))"
proof -
  let ?all = "caps @ route_list route"
  from assms have ok: "delegations_ok K s ?all"
    by (auto simp: cspace_create_def pbind_Ok pres_def cspace_validate_eq split: if_splits)
  then have s: "0 < s" "s < WORD_SIZE K" "s < 64" and s64: "unat s < 64"
    by (auto simp: delegations_ok_def word_less_nat_alt)
  then have cap: "cspace_capacity K s = Ok (push_bit (unat s) 1)" by (simp add: cspace_capacity_eq)
  let ?t0 = "\<lparr>st_capacity = push_bit (unat s) 1, st_states = replicate 256 FREE\<rparr>"
  from assms obtain root b1 u t where alloc: "bootstrap_allocate_variable_object K CNodeBp s (b, w) = (Ok root, (b1, u))"
    and small: "slot_tracker_try_new (push_bit (unat s) 1) = Ok t"
    and cs: "cs = \<lparr>cs_root = root, cs_size_bits = s, cs_slots = next_cell u\<rparr>"
    and c: "c = b1"
    and loop: "pfor ?all (cspace_install K \<lparr>cs_root = root, cs_size_bits = s, cs_slots = next_cell u\<rparr>)
        (set_tracker (next_cell u) t (u\<lparr>next_cell := Suc (next_cell u)\<rparr>)) = (Ok (), v)"
    by (auto simp: cspace_create_def Let_def install_route pbind_Ok pres_def cap on_world_Ok
        fresh_cell_def pmodify_def pret_def simp del: push_bit_of_1)
  from small have "t = ?t0" by (auto simp: try_new_eq split: if_splits)
  note small = small [unfolded this] and loop = loop [unfolded this, folded cs]
  from try_new_wf [OF small] have t0: "tracker_wf ?t0" "tracker_view ?t0 = owned_view {}"
    by (simp_all add: owned_view_def)
  let ?w0 = "set_tracker (next_cell u) ?t0 (u\<lparr>next_cell := Suc (next_cell u)\<rparr>)"
  have cells: "tracker_cells ?w0 (cs_slots cs) = ?t0" "mach ?w0 = mach u" by (simp_all add: cs)
  have dests: "\<forall>d \<in> set ?all. dc_destination d \<noteq> 0 \<and> dc_destination d < st_capacity ?t0"
  proof
    fix d assume "d \<in> set ?all"
    with ok have "0 < dc_destination d" and "unat (dc_destination d) < 2 ^ unat s"
      unfolding delegations_ok_def by blast+
    then show "dc_destination d \<noteq> 0 \<and> dc_destination d < st_capacity ?t0"
      by (simp add: word_less_nat_alt [of _ "push_bit _ _"] unat_shl_1 [OF s64] word_gt_0 del: push_bit_of_1)
  qed
  have "distinct (map dc_destination ?all)" using ok by (simp add: delegations_ok_def)
  from install_all_run [of ?w0 cs ?all "{}" K v, unfolded cells, OF t0(1) dests this t0(2) _ loop]
  have "run_mints K (cs_root cs) (cs_size_bits cs) ?all (mach u) = Some (mach v) \<and>
    tracker_wf (tracker_cells v (cs_slots cs)) \<and>
    st_capacity (tracker_cells v (cs_slots cs)) = push_bit (unat s) 1 \<and>
    tracker_view (tracker_cells v (cs_slots cs)) = owned_view (dc_destination ` set ?all)" by simp
  with ok alloc cs c unat_shl_1 [OF s64] show ?thesis by (simp add: Let_def del: push_bit_of_1)
qed

lemma delegations_in_range:
  assumes "delegations_ok K s cs"
  shows "\<forall>d \<in> set cs. dc_destination d \<noteq> 0 \<and> dc_destination d < push_bit (unat s) 1"
proof
  fix d assume "d \<in> set cs"
  with assms have "0 < dc_destination d" and "unat (dc_destination d) < 2 ^ unat s" and "unat s < 64"
    by (auto simp: delegations_ok_def word_less_nat_alt)
  then show "dc_destination d \<noteq> 0 \<and> dc_destination d < push_bit (unat s) 1"
    by (simp add: word_less_nat_alt [of _ "push_bit _ _"] unat_shl_1 word_gt_0 del: push_bit_of_1)
qed

section \<open>The ledger\<close>

lemma on_world_pbind: "on_world (pbind m g) = pbind (on_world m) (\<lambda>a. on_world (g a))"
  by (rule ext) (auto simp: on_world_def pbind_def split: prod.splits res.splits)

lemma on_world_pret: "on_world (pret a) = pret a"
  by (rule ext) (auto simp: on_world_def pret_def)

lemma on_world_pfor: "on_world (pfor xs f) = pfor xs (\<lambda>x. on_world (f x))"
  by (induction xs) (simp_all add: on_world_pbind on_world_pret)

lemma install_mach:
  assumes "root_slot_laws K occ" and "cs_root cs \<noteq> init_cnode K" and "cspace_install K cs c w = (r, v)"
  shows "occupied_slots occ v = occupied_slots occ w"
proof -
  let ?mint = "cnode_mint K (AbsBits (cs_root cs) (dc_destination c) (cs_size_bits cs))
    (AbsCPtr (init_cnode K) (dc_source c)) (dc_rights c) (dc_badge c)"
  have "quiet occ ?mint" using assms(1,2) by (rule law_mint)
  then have mint: "syscall ?mint w = (x, u) \<Longrightarrow> occupied_slots occ u = occupied_slots occ w" for x u
    by (rule quiet_syscall)
  obtain x u where run: "syscall ?mint w = (x, u)" by fastforce
  with assms(3) have "mach v = mach u"
    by (cases x) (auto simp: cspace_install_def try_into_word_def pres_def pbind_def
        pmap_err_run [of "syscall ?mint", OF run] split: prod.splits)
  with mint [OF run] show ?thesis by simp
qed

lemma keeps_install:
  assumes "kernel_ok K view" and "view \<noteq> None \<Longrightarrow> cs_root cs \<noteq> init_cnode K"
  shows "keeps (boot_ledger view) (on_world (cspace_install K cs c))"
proof (rule keeps_on_world)
  fix occ w r v
  assume "view = Some occ" and run: "cspace_install K cs c w = (r, v)"
  with assms have "root_slot_laws K occ" and "cs_root cs \<noteq> init_cnode K"
    by (simp_all add: kernel_ok_def)
  then show "occupied_slots occ v = occupied_slots occ w" using run by (rule install_mach)
qed

lemma allocate_variable_outcome:
  assumes "bootstrap_allocate_variable_object K mk s st = (r, t)"
  shows "(\<forall>c occ. r = Ok c \<longrightarrow> root_slot_laws K occ \<longrightarrow> c \<noteq> init_cnode K) \<and>
    (\<forall>e. r = Err e \<longrightarrow> e \<in> {NoFreeSlots, NoKernelMemory, KernelAllocationFailed})"
proof -
  obtain b w where st: "st = (b, w)" by fastforce
  let ?cands = "untyped_candidates (bt_bootinfo b)"
  obtain x u where cand: "retype_candidates K (bt_bootinfo b) (mk s) (fs_start (bt_slots b)) ?cands w = (x, u)"
    by fastforce
  from assms have "r = (if fs_start (bt_slots b) < fs_end (bt_slots b) then x else Err NoFreeSlots)"
    unfolding st
    by (cases x) (auto simp: bootstrap_allocate_variable_object_def on_slots_def object_allocate_variable_def
        object_allocate_blueprint_def pbind_def pres_def try_allocate_cases cand split: if_splits)
  with retype_candidates_outcome [OF cand] retype_candidates_cap [of K _ "bt_bootinfo b" "mk s" _ ?cands w _ u] cand
  show ?thesis by (auto split: if_splits)
qed

lemma keeps_cspace_create:
  assumes "kernel_ok K view"
  shows "keeps (boot_ledger view) (cspace_create K s caps route)"
proof -
  have quiet: "keeps (boot_ledger view) (on_world fresh_cell)"
    "keeps (boot_ledger view) (on_world (pmodify (set_tracker c t)))" for c t
    by (auto intro!: keeps_on_world simp: fresh_cell_def pmodify_def)
  have root: "view \<noteq> None \<Longrightarrow> r \<noteq> init_cnode K"
    if "bootstrap_allocate_variable_object K CNodeBp s st = (Ok r, t)" for r st t
    using allocate_variable_outcome [OF that] assms by (auto simp: kernel_ok_def)
  have install: "keeps (boot_ledger view) (on_world (cspace_install K cs c))"
    if "view \<noteq> None \<Longrightarrow> cs_root cs \<noteq> init_cnode K" for cs c
    using assms that by (rule keeps_install)
  show ?thesis
    unfolding cspace_create_def Let_def install_route
    by (intro boot_ledger.keeps_pbind boot_ledger.keeps_pbind_value [OF keeps_allocate_variable [OF assms]]
        boot_ledger.keeps_pres boot_ledger.keeps_pret boot_ledger.keeps_pfor quiet)
      (auto simp: on_world_pfor intro!: boot_ledger.keeps_pfor install dest: root)
qed

lemma create_Err:
  assumes ok: "delegations_ok K s (caps @ route_list route)" and small: "s \<le> 8"
    and run: "cspace_create K s caps route st = (Err e, t)"
  shows "e \<in> {NoFreeSlots, NoKernelMemory, KernelAllocationFailed, CSpaceCreationFailed}"
proof -
  let ?all = "caps @ route_list route"
  obtain b w where st: "st = (b, w)" by fastforce
  from ok have s: "0 < s" "s < WORD_SIZE K" "s < 64" by (auto simp: delegations_ok_def)
  then have cap: "cspace_capacity K s = Ok (push_bit (unat s) 1)" by (simp add: cspace_capacity_eq)
  let ?t0 = "\<lparr>st_capacity = push_bit (unat s) 1, st_states = replicate 256 FREE\<rparr>"
  have "unat (push_bit (unat s) 1 :: usize) \<le> 256"
  proof -
    have "unat s \<le> 8" using small by (simp add: word_le_nat_alt)
    then have "(2 :: nat) ^ unat s \<le> 2 ^ 8" by (intro power_increasing) simp_all
    moreover have "unat s < 64" using s(3) by (simp add: word_less_nat_alt)
    ultimately show ?thesis by (simp add: unat_shl_1 del: push_bit_of_1)
  qed
  then have new: "slot_tracker_try_new (push_bit (unat s) 1) = Ok ?t0"
    by (simp add: try_new_eq word_le_nat_alt del: push_bit_of_1)
  from try_new_wf [OF new] have t0: "tracker_wf ?t0" "tracker_view ?t0 = owned_view {}"
    by (simp_all add: owned_view_def)
  obtain x b1 u where alloc: "bootstrap_allocate_variable_object K CNodeBp s (b, w) = (x, (b1, u))"
    by (metis prod.exhaust)
  show ?thesis
  proof (cases x)
    case (Ok root)
    let ?cs = "\<lparr>cs_root = root, cs_size_bits = s, cs_slots = next_cell u\<rparr>"
    let ?w0 = "set_tracker (next_cell u) ?t0 (u\<lparr>next_cell := Suc (next_cell u)\<rparr>)"
    have "pfor ?all (cspace_install K ?cs) ?w0 = (Err e, snd (pfor ?all (cspace_install K ?cs) ?w0))"
      using run unfolding st cspace_create_def Let_def install_route
      by (auto simp: cspace_validate_eq ok pbind_Err pbind_Ok pres_def pret_def alloc Ok cap new on_world_def
          fresh_cell_def pmodify_def simp del: push_bit_of_1 split: prod.splits)
    moreover have "tracker_cells ?w0 (cs_slots ?cs) = ?t0" by simp
    ultimately show ?thesis
      using install_all_Err [of ?w0 ?cs ?all "{}" K e] t0 delegations_in_range [OF ok] ok
      by (simp add: delegations_ok_def del: push_bit_of_1)
  next
    case (Err y)
    with run alloc ok have "y = e" by (simp add: st cspace_create_def cspace_validate_eq pbind_def pres_def)
    with allocate_variable_outcome [OF alloc] Err show ?thesis by auto
  next
    case Panic
    with run alloc ok show ?thesis by (simp add: st cspace_create_def cspace_validate_eq pbind_def pres_def)
  qed
qed

lemma advances_cspace_create: "advances 1 (cspace_create K s caps route)"
  unfolding cspace_create_def Let_def install_route One_nat_def by (intro advances_intros)

section \<open>Properties\<close>

text \<open>
  Validation is exact: a CSpace size and its delegations are accepted exactly when the size is
  a positive number of bits below the word size, every capability, the fault route's included, is
  not null and goes to a nonzero slot of the CNode, and no two go to the same slot; everything
  else is an invalid configuration.
\<close>

lemma cspace_validation_exact:
  "cspace_validate K s caps route =
    (let all = caps @ (case route of None \<Rightarrow> [] | Some r \<Rightarrow> [fault_route_delegation r]) in
     if 0 < s \<and> s < WORD_SIZE K \<and> s < 64 \<and>
        (\<forall>c \<in> set all. dc_destination c \<noteq> 0 \<and> unat (dc_destination c) < 2 ^ unat s \<and> dc_source c \<noteq> 0) \<and>
        distinct (map dc_destination all)
     then Ok () else Err InvalidTaskConfiguration)"
  unfolding cspace_validate_eq delegations_ok_def Let_def by (simp add: word_gt_0)

lemma cspace_validation_exact_example:
  "cspace_validate ref_sel4 3 [delegated_new 5 1 RightsAll 0, delegated_new 6 2 RightsAll 9]
     (Some (FaultRoute (delegated_new 7 2 RightsAll 1))) = Err InvalidTaskConfiguration"
  using cspace_validation_exact [of ref_sel4 3
      "[delegated_new 5 1 RightsAll 0, delegated_new 6 2 RightsAll 9]"
      "Some (FaultRoute (delegated_new 7 2 RightsAll 1))"]
  by (simp add: delegated_new_def)

text \<open>
  C16. A created CSpace holds its delegations and nothing else: when creation succeeds, the kernel
  was asked for one CNode and then for exactly one mint per delegation, in order, with its rights
  and badge and into its slot; the tracker owns exactly those slots; the guard data is defined;
  and a slot is accepted as a receive destination exactly when it is a nonzero slot of the CNode
  that no delegation uses.
\<close>

theorem created_cspace_holds_delegations:
  assumes "cspace_create K s caps route (b, w) = (Ok cs, (c, v))"
  shows "let all = caps @ (case route of None \<Rightarrow> [] | Some r \<Rightarrow> [fault_route_delegation r]) in
    (\<exists>u. bootstrap_allocate_variable_object K CNodeBp s (b, w) = (Ok (cs_root cs), (c, u)) \<and>
      run_mints K (cs_root cs) s all (mach u) = Some (mach v)) \<and>
    tracker_view (tracker_cells v (cs_slots cs)) = owned_view (dc_destination ` set all) \<and>
    cspace_root_data K cs = (Ok (CNodeCapData 0 (WORD_SIZE K - s)) :: (cnode_cap_data, unit) res) \<and>
    (\<forall>i. (\<exists>slot x. cspace_receive_slot cs i v = (Ok slot, x)) \<longleftrightarrow>
      0 < i \<and> unat i < 2 ^ unat s \<and> i \<notin> dc_destination ` set all)"
proof -
  let ?all = "caps @ (case route of None \<Rightarrow> [] | Some r \<Rightarrow> [fault_route_delegation r])"
  let ?t = "tracker_cells v (cs_slots cs)"
  note made = create_Ok [OF assms, unfolded Let_def]
  from made have wf: "tracker_wf ?t" and cap: "unat (st_capacity ?t) = 2 ^ unat s"
    and view: "tracker_view ?t = owned_view (dc_destination ` set ?all)"
    and size: "cs_size_bits cs = s" "s < WORD_SIZE K" by (auto simp: delegations_ok_def)
  have "(\<exists>slot x. cspace_receive_slot cs i v = (Ok slot, x)) \<longleftrightarrow>
      0 < i \<and> unat i < 2 ^ unat s \<and> i \<notin> dc_destination ` set ?all" for i
    by (auto simp: cspace_receive_slot_def ipc_receive_slot_def reserve_wf [OF wf] view owned_view_def
        word_gt_0 word_le_nat_alt cap split: if_splits)
  with made size show ?thesis
    unfolding Let_def by (simp add: cspace_root_data_def checked_sub_def)
qed

theorem created_cspace_holds_delegations_witness:
  "let bi = \<lparr>bi_empty_len = 2, bi_empty_range = \<lparr>range_start = 100, range_end = 102\<rparr>,
        bi_untyped_len = 1, bi_untyped_cap = (\<lambda>_. 50),
        bi_untyped_list = [\<lparr>ud_is_device = False, ud_size_bits = 20\<rparr>], bi_image_len = 0,
        bi_image_cap = (\<lambda>_. 0)\<rparr>;
       b = \<lparr>bt_bootinfo = bi, bt_slots = free_slots_new (bi_empty_range bi)\<rparr>;
       w = ref_world [7] (\<lambda>_. [])
   in \<exists>cs c v. cspace_create ref_sel4 3 [delegated_new 7 5 RightsAll 0] None (b, w) = (Ok cs, (c, v)) \<and>
        (\<forall>slot x. cspace_receive_slot cs 5 v \<noteq> (Ok slot, x)) \<and>
        (\<exists>slot x. cspace_receive_slot cs 6 v = (Ok slot, x))"
proof -
  let ?bi = "\<lparr>bi_empty_len = 2, bi_empty_range = \<lparr>range_start = 100, range_end = 102\<rparr>,
        bi_untyped_len = 1, bi_untyped_cap = (\<lambda>_. 50),
        bi_untyped_list = [\<lparr>ud_is_device = False, ud_size_bits = 20\<rparr>], bi_image_len = 0,
        bi_image_cap = (\<lambda>_. 0)\<rparr>"
  let ?b = "\<lparr>bt_bootinfo = ?bi, bt_slots = free_slots_new (bi_empty_range ?bi)\<rparr>"
  let ?w = "ref_world [7] (\<lambda>_. [])"
  have ok: "delegations_ok ref_sel4 3 ([delegated_new 7 5 RightsAll 0] @ route_list None)"
    by (simp add: delegations_ok_def delegated_new_def)
  have alloc: "\<exists>c u. bootstrap_allocate_variable_object ref_sel4 CNodeBp 3 (?b, ?w) = (Ok 100, (c, u)) \<and>
      rk_occ (kstate (mach u)) = [100, 7]"
    by (simp add: bootstrap_allocate_variable_object_def on_slots_def object_allocate_variable_def
        object_allocate_blueprint_def pbind_def pres_def try_allocate_cases untyped_candidates_def
        retype_candidates.simps(2) ref_sel4_def ref_world_def syscall_def Let_def root_task_cnode_def)
  have "\<exists>cs c v. cspace_create ref_sel4 3 [delegated_new 7 5 RightsAll 0] None (?b, ?w) = (Ok cs, (c, v))"
  proof -
    from alloc obtain c u where a: "bootstrap_allocate_variable_object ref_sel4 CNodeBp 3 (?b, ?w) = (Ok 100, (c, u))"
      and occ: "rk_occ (kstate (mach u)) = [100, 7]" by blast
    have "cspace_validate ref_sel4 3 [delegated_new 7 5 RightsAll 0] None = Ok ()"
      using ok by (simp add: cspace_validate_eq)
    with a occ show ?thesis
      by (simp add: cspace_create_def pbind_def pres_def pret_def on_world_def cspace_capacity_eq try_new_eq
          fresh_cell_def pmodify_def Let_def cspace_install_def delegated_new_def try_into_word_def
          pmap_err_def syscall_def slot_tracker_mark_occupied_def slot_tracker_state_mut_def)
  qed
  then obtain cs c v where run: "cspace_create ref_sel4 3 [delegated_new 7 5 RightsAll 0] None (?b, ?w) = (Ok cs, (c, v))"
    by blast
  from created_cspace_holds_delegations [OF run]
  have "(\<exists>slot x. cspace_receive_slot cs i v = (Ok slot, x)) \<longleftrightarrow> 0 < i \<and> unat i < 8 \<and> i \<noteq> 5" for i
    by (simp add: Let_def delegated_new_def)
  from this [of 5] this [of 6] run show ?thesis unfolding Let_def by (simp; blast)
qed

text \<open>
  Refusals are early or complete: an invalid configuration is refused before anything is
  allocated or minted; a valid one of at most 8 size bits is never refused as invalid, so every
  failure is one of the allocator's or a failed mint; and a larger CSpace, whose slots the tracker
  cannot hold, is never created.
\<close>

lemma cspace_create_refusals:
  "(\<not> delegations_ok K s (caps @ route_list route) \<longrightarrow>
      cspace_create K s caps route (b, w) = (Err InvalidTaskConfiguration, (b, w))) \<and>
   (delegations_ok K s (caps @ route_list route) \<and> s \<le> 8 \<longrightarrow>
      (\<forall>e t. cspace_create K s caps route (b, w) = (Err e, t) \<longrightarrow>
        e \<in> {NoFreeSlots, NoKernelMemory, KernelAllocationFailed, CSpaceCreationFailed})) \<and>
   (\<forall>cs t. cspace_create K s caps route (b, w) = (Ok cs, t) \<longrightarrow> s \<le> 8)"
proof (intro conjI impI allI)
  assume "\<not> delegations_ok K s (caps @ route_list route)"
  then show "cspace_create K s caps route (b, w) = (Err InvalidTaskConfiguration, (b, w))"
    by (simp add: cspace_create_def cspace_validate_eq pbind_def pres_def)
next
  fix e t
  assume "delegations_ok K s (caps @ route_list route) \<and> s \<le> 8"
    and "cspace_create K s caps route (b, w) = (Err e, t)"
  then show "e \<in> {NoFreeSlots, NoKernelMemory, KernelAllocationFailed, CSpaceCreationFailed}"
    using create_Err [of K s caps route "(b, w)" e t] by simp
next
  fix cs t
  assume run: "cspace_create K s caps route (b, w) = (Ok cs, t)"
  obtain c v where t: "t = (c, v)" by fastforce
  from create_Ok [OF run [unfolded t], unfolded Let_def]
  have "tracker_wf (tracker_cells v (cs_slots cs))"
    and cap: "unat (st_capacity (tracker_cells v (cs_slots cs))) = 2 ^ unat s" by auto
  then have "(2 :: nat) ^ unat s \<le> 2 ^ 8"
    by (simp add: tracker_wf_def MAX_SLOTS_def word_le_nat_alt)
  then have "unat s \<le> 8" by (simp only: power_increasing_iff one_less_numeral_iff semiring_norm)
  then show "s \<le> 8" by (simp add: word_le_nat_alt)
qed

lemma cspace_create_refusals_example:
  "cspace_create ref_sel4 3 [delegated_new 5 0 RightsAll 0] None (ref_boot 100 102, ref_world [] (\<lambda>_. [])) =
     (Err InvalidTaskConfiguration, (ref_boot 100 102, ref_world [] (\<lambda>_. [])))"
proof -
  have "\<not> delegations_ok ref_sel4 3 ([delegated_new 5 0 RightsAll 0] @ route_list None)"
    by (simp add: delegations_ok_def delegated_new_def)
  with cspace_create_refusals [of ref_sel4 3 "[delegated_new 5 0 RightsAll 0]" None "ref_boot 100 102" "ref_world [] (\<lambda>_. [])"]
  show ?thesis by blast
qed

end
