(* ===== verification/VSpace.thy ===== *)
theory VSpace
  imports CSpace
begin

text \<open>
  The model of vspace.rs: frames mapped in the initial address space, the address space of a task
  with its translation tables, and the frames mapped into it.
\<close>

section \<open>State and operations\<close>

datatype frame = Frame (frame_cap: cptr)

record task_mapping =
  tm_mapping :: cptr
  tm_root_slot :: usize

definition task_mapping_unmap :: "'k sel4 \<Rightarrow> task_mapping \<Rightarrow> ('k world, unit, bootstrap_error) prog" where
  "task_mapping_unmap K m = pmap_err (\<lambda>_. FrameUnmappingFailed) (syscall (frame_unmap K (tm_mapping m)))"

definition frame_map_initial :: "'k sel4 \<Rightarrow> frame \<Rightarrow> usize \<Rightarrow> ('k world, unit, bootstrap_error) prog" where
  "frame_map_initial K f address =
     (if \<not> is_multiple_of address (GRANULE_BYTES K) then pfail InvalidImageRegion
      else pmap_err (\<lambda>_. FrameMappingFailed)
        (syscall (frame_map K (frame_cap f) (init_vspace K) address RightsReadWrite DefaultVmAttributes)))"

definition frame_unmap_initial :: "'k sel4 \<Rightarrow> frame \<Rightarrow> ('k world, unit, bootstrap_error) prog" where
  "frame_unmap_initial K f = pmap_err (\<lambda>_. FrameUnmappingFailed) (syscall (frame_unmap K (frame_cap f)))"

record vspace =
  vs_root :: cptr

text \<open>
  The loop over the pages at one level, with the pages already seen. The division by the span
  panics on zero.
\<close>

fun map_tables_at ::
  "'k sel4 \<Rightarrow> vspace \<Rightarrow> nat \<Rightarrow> usize \<Rightarrow> usize list \<Rightarrow> usize list \<Rightarrow>
     ('k boot_state, unit, bootstrap_error) prog" where
  "map_tables_at K vs level span prior [] = pret ()"
| "map_tables_at K vs level span prior (address # rest) =
     (if span = 0 then pres Panic
      else if list_ex (\<lambda>p. p div span = address div span) prior
      then map_tables_at K vs level span (prior @ [address]) rest
      else
        pbind (pres (ok_or InvalidTaskConfiguration (table_from_level K level))) (\<lambda>table_type.
        pbind (bootstrap_allocate_blueprint K (TableBp table_type)) (\<lambda>table.
        pbind (on_world (pmap_err (\<lambda>_. VSpaceCreationFailed)
          (syscall (table_map K table table_type (vs_root vs) address DefaultVmAttributes)))) (\<lambda>_.
        map_tables_at K vs level span (prior @ [address]) rest))))"

definition map_translation_tables ::
  "'k sel4 \<Rightarrow> vspace \<Rightarrow> usize list \<Rightarrow> usize list \<Rightarrow> ('k boot_state, unit, bootstrap_error) prog" where
  "map_translation_tables K vs page_addresses reserved_pages =
     pfor [1 ..< NUM_LEVELS K] (\<lambda>level.
       pbind (pres (if unat (span_bits K level) < 2 ^ 32 then Ok (unat (span_bits K level))
         else Err InvalidTaskConfiguration)) (\<lambda>shift.
       pbind (pres (ok_or InvalidTaskConfiguration (checked_shl 1 shift))) (\<lambda>span.
       map_tables_at K vs level span [] (page_addresses @ reserved_pages))))"

definition vspace_create ::
  "'k sel4 \<Rightarrow> usize list \<Rightarrow> usize list \<Rightarrow> ('k boot_state, vspace, bootstrap_error) prog" where
  "vspace_create K page_addresses reserved_pages =
     pbind (bootstrap_allocate_object K VSpaceBp) (\<lambda>root.
     pbind (on_world (pmap_err (\<lambda>_. VSpaceCreationFailed)
       (syscall (asid_pool_assign K (init_asid_pool K) root)))) (\<lambda>_.
     let vs = \<lparr>vs_root = root\<rparr> in
     pbind (map_translation_tables K vs page_addresses reserved_pages) (\<lambda>_. pret vs)))"

definition vspace_map_frame ::
  "'k sel4 \<Rightarrow> vspace \<Rightarrow> frame \<Rightarrow> usize \<Rightarrow> cap_rights \<Rightarrow> ('k boot_state, cptr, bootstrap_error) prog" where
  "vspace_map_frame K vs f address rights =
     (if \<not> is_multiple_of address (GRANULE_BYTES K) then pfail InvalidTaskConfiguration
      else
        pbind (bootstrap_copy_cap K (frame_cap f) rights) (\<lambda>mapping.
        pbind (on_world (pmap_err (\<lambda>_. FrameMappingFailed)
          (syscall (frame_map K mapping (vs_root vs) address rights DefaultVmAttributes)))) (\<lambda>_.
        pret mapping)))"

section \<open>The ledger\<close>

lemma keeps_quiet_call:
  assumes "\<And>occ. view = Some occ \<Longrightarrow> quiet occ f"
  shows "keeps (boot_ledger view) (on_world (pmap_err g (syscall f)))"
proof (rule keeps_on_world)
  fix occ w r v
  assume view: "view = Some occ" and run: "pmap_err g (syscall f) w = (r, v)"
  obtain x u where "syscall f w = (x, u)" by fastforce
  with run quiet_syscall [OF assms [OF view] this] pmap_err_run [of "syscall f", OF this, of g]
  show "occupied_slots occ v = occupied_slots occ w" by simp
qed

lemma keeps_map_tables_at:
  assumes "kernel_ok K view"
  shows "keeps (boot_ledger view) (map_tables_at K vs level span prior pages)"
proof (induction pages arbitrary: prior)
  case Nil
  show ?case by (simp add: boot_ledger.keeps_pret)
next
  case (Cons page pages)
  have quiet: "quiet occ (table_map K c ty v a at)" if "view = Some occ" for occ c ty v a at
    using assms that by (simp add: kernel_ok_def law_table)
  show ?case
    using Cons.IH by (auto intro!: boot_ledger.keeps_intros keeps_quiet_call quiet
        keeps_allocate_blueprint [OF assms])
qed

lemma keeps_vspace_create:
  assumes "kernel_ok K view"
  shows "keeps (boot_ledger view) (vspace_create K pages reserved)"
proof -
  have quiet: "quiet occ (asid_pool_assign K p c)" if "view = Some occ" for occ p c
    using assms that by (simp add: kernel_ok_def law_asid)
  show ?thesis
    unfolding vspace_create_def map_translation_tables_def Let_def
    by (intro boot_ledger.keeps_intros keeps_quiet_call quiet keeps_map_tables_at [OF assms]
        keeps_allocate_object [OF assms])
qed

lemma keeps_map_frame:
  assumes "kernel_ok K view"
  shows "keeps (boot_ledger view) (vspace_map_frame K vs f address rights)"
proof -
  have quiet: "quiet occ (frame_map K c v a r at)" if "view = Some occ" for occ c v a r at
    using assms that by (simp add: kernel_ok_def law_frame)
  show ?thesis
    unfolding vspace_map_frame_def
    by (auto intro!: boot_ledger.keeps_intros keeps_quiet_call quiet keeps_copy_cap [OF assms])
qed

section \<open>The plan of translation tables\<close>

text \<open>
  The reference the loops implement: at each level, the pages that are the first of their table,
  and one table created for each.
\<close>

fun first_uses :: "usize \<Rightarrow> usize list \<Rightarrow> usize list \<Rightarrow> usize list" where
  "first_uses span prior [] = []"
| "first_uses span prior (page # rest) =
     (if page div span \<in> (\<lambda>p. p div span) ` set prior then first_uses span (prior @ [page]) rest
      else page # first_uses span (prior @ [page]) rest)"

definition create_table :: "'k sel4 \<Rightarrow> vspace \<Rightarrow> nat \<times> usize \<Rightarrow> ('k boot_state, unit, bootstrap_error) prog" where
  "create_table K vs = (\<lambda>(table_type, address).
     pbind (bootstrap_allocate_blueprint K (TableBp table_type)) (\<lambda>table.
     on_world (pmap_err (\<lambda>_. VSpaceCreationFailed)
       (syscall (table_map K table table_type (vs_root vs) address DefaultVmAttributes)))))"

definition table_plan :: "'k sel4 \<Rightarrow> usize list \<Rightarrow> (nat \<times> usize) list" where
  "table_plan K pages = concat (map (\<lambda>level. map (Pair (the (table_from_level K level)))
     (first_uses (push_bit (unat (span_bits K level)) 1) [] pages)) [1 ..< NUM_LEVELS K])"

definition levels_ok :: "'k sel4 \<Rightarrow> bool" where
  "levels_ok K \<longleftrightarrow>
     (\<forall>level \<in> {1 ..< NUM_LEVELS K}. unat (span_bits K level) < 64 \<and> table_from_level K level \<noteq> None)"

lemma first_uses_bases:
  "distinct (map (\<lambda>p. p div span) (first_uses span prior pages)) \<and>
   (\<lambda>p. p div span) ` set (first_uses span prior pages) =
     (\<lambda>p. p div span) ` set pages - (\<lambda>p. p div span) ` set prior \<and>
   set (first_uses span prior pages) \<subseteq> set pages"
proof (induction pages arbitrary: prior)
  case (Cons page pages)
  show ?case
  proof (cases "page div span \<in> (\<lambda>p. p div span) ` set prior")
    case True
    then have "(\<lambda>p. p div span) ` set (prior @ [page]) = (\<lambda>p. p div span) ` set prior" by auto
    with True Cons.IH [of "prior @ [page]"] show ?thesis by auto
  next
    case False
    have new: "(\<lambda>p. p div span) ` set (prior @ [page]) = insert (page div span) ((\<lambda>p. p div span) ` set prior)"
      by auto
    from False Cons.IH [of "prior @ [page]", unfolded new] show ?thesis by auto
  qed
qed simp

lemma pbind_assoc: "pbind (pbind m f) g = pbind m (\<lambda>a. pbind (f a) g)"
  by (rule ext) (auto simp: pbind_def split: prod.splits res.splits)

lemma pbind_pres_Ok: "pbind (pres (Ok a)) f = f a"
  by (rule ext) (simp add: pbind_def pres_def)

lemma map_tables_at_plan:
  assumes "span \<noteq> 0" and "table_from_level K level = Some ty"
  shows "map_tables_at K vs level span prior pages =
    pfor (map (Pair ty) (first_uses span prior pages)) (create_table K vs)"
proof (induction pages arbitrary: prior)
  case (Cons page pages)
  have "list_ex (\<lambda>p. p div span = page div span) prior \<longleftrightarrow> page div span \<in> (\<lambda>p. p div span) ` set prior"
    by (auto simp: list_ex_iff image_iff) metis
  with assms Cons.IH [of "prior @ [page]"] show ?case
    by (simp add: create_table_def pbind_assoc pbind_pres_Ok)
qed simp

lemma push_bit_1_nonzero: "n < 64 \<Longrightarrow> push_bit n (1 :: usize) \<noteq> 0"
  using bit_single [of n n] by auto

lemma map_translation_tables_plan:
  assumes "levels_ok K"
  shows "map_translation_tables K vs pages reserved = pfor (table_plan K (pages @ reserved)) (create_table K vs)"
proof -
  let ?body = "\<lambda>level. pbind (pres (if unat (span_bits K level) < 2 ^ 32 then Ok (unat (span_bits K level))
         else Err InvalidTaskConfiguration)) (\<lambda>shift.
       pbind (pres (ok_or InvalidTaskConfiguration (checked_shl 1 shift))) (\<lambda>span.
       map_tables_at K vs level span [] (pages @ reserved)))"
  let ?plan = "\<lambda>level. map (Pair (the (table_from_level K level)))
     (first_uses (push_bit (unat (span_bits K level)) 1) [] (pages @ reserved))"
  have level: "?body level = pfor (?plan level) (create_table K vs)" if "level \<in> set [1 ..< NUM_LEVELS K]" for level
  proof -
    from that have "level \<in> {1 ..< NUM_LEVELS K}" by simp
    with assms have bits: "unat (span_bits K level) < 64" and "table_from_level K level \<noteq> None"
      unfolding levels_ok_def by blast+
    then obtain ty where ty: "table_from_level K level = Some ty" by blast
    from map_tables_at_plan [OF push_bit_1_nonzero [OF bits] ty] bits ty show ?thesis
      by (simp add: pbind_pres_Ok checked_shl_def del: push_bit_of_1)
  qed
  have "pfor levels ?body = pfor (concat (map ?plan levels)) (create_table K vs)"
    if "set levels \<subseteq> set [1 ..< NUM_LEVELS K]" for levels
    using that
  proof (induction levels)
    case (Cons l ls)
    then have "?body l = pfor (?plan l) (create_table K vs)" by (intro level) simp
    with Cons show ?case by (simp only: pfor.simps list.map concat.simps pfor_append) simp
  qed simp
  then show ?thesis by (simp only: map_translation_tables_def table_plan_def order_refl)
qed

lemma advances_create_table: "advances 1 (create_table K vs x)"
proof -
  have "advances (1 + 0) (create_table K vs x)"
    unfolding create_table_def case_prod_beta
    by (rule advances_pbind [OF advances_allocations(4) advances_on_world])
  then show ?thesis by simp
qed

lemma advances_vspace_create:
  assumes "levels_ok K"
  shows "advances (Suc (length (table_plan K (pages @ reserved)))) (vspace_create K pages reserved)"
proof -
  let ?plan = "table_plan K (pages @ reserved)"
  have "advances (length ?plan) (pbind (pfor ?plan (create_table K vs)) (\<lambda>_. pret a))" for vs and a :: vspace
  proof -
    have "advances (1 * length ?plan) (pfor ?plan (create_table K vs))"
      by (rule advances_pfor) (rule advances_create_table)
    from advances_pbind [OF this advances_pret] show ?thesis by simp
  qed
  then show ?thesis
    unfolding vspace_create_def map_translation_tables_plan [OF assms] Let_def
    by (intro advances_one [OF advances_allocations(2)] advances_quiet [OF advances_on_world])
qed

lemma advances_map_frame: "advances 1 (vspace_map_frame K vs f address rights)"
  unfolding vspace_map_frame_def One_nat_def
  by (auto intro!: advances_intros advances_fail)

lemma one_slotD:
  assumes "one_slot K occ m" and "m (b, w) = (Ok cap, (c, v))"
  shows "cap = slot_cptr K (bootstrap_checkpoint b)"
    and "unat (bootstrap_checkpoint c) = Suc (unat (bootstrap_checkpoint b))"
    and "occupied_slots occ v = insert (bootstrap_checkpoint b) (occupied_slots occ w)"
  using spec [OF spec [OF assms(1) [unfolded one_slot_def], of b], of w] assms(2) by simp_all

lemma map_frame_Ok:
  assumes "vspace_map_frame K vs f address rights (b, w) = (Ok m, (c, v))"
  shows "is_multiple_of address (GRANULE_BYTES K) \<and>
    (\<exists>u. bootstrap_copy_cap K (frame_cap f) rights (b, w) = (Ok m, (c, u)) \<and>
      frame_map K m (vs_root vs) address rights DefaultVmAttributes (mach u) = (Ok (), mach v))"
  using assms
  by (auto simp: vspace_map_frame_def pbind_Ok pfail_def pret_def on_world_Ok pmap_err_def syscall_def
      split: if_splits prod.splits)

section \<open>Properties\<close>

text \<open>
  C25. Each distinct translation table is created exactly once: at every level the loops over the
  pages are the creation of one table per first use of a table's address range, in order; the
  ranges of the tables created at a level are pairwise distinct and cover every mapped and every
  reserved page; so a successful creation consumes one root slot for the VSpace and one for each
  distinct range.
\<close>

theorem translation_tables_exact:
  assumes "levels_ok K"
  shows "map_translation_tables K vs pages reserved =
      pfor (table_plan K (pages @ reserved)) (create_table K vs) \<and>
    (\<forall>span. distinct (map (\<lambda>p. p div span) (first_uses span [] (pages @ reserved))) \<and>
      (\<lambda>p. p div span) ` set (first_uses span [] (pages @ reserved)) =
        (\<lambda>p. p div span) ` (set pages \<union> set reserved)) \<and>
    advances (Suc (length (table_plan K (pages @ reserved)))) (vspace_create K pages reserved)"
  using map_translation_tables_plan [OF assms] advances_vspace_create [OF assms]
    first_uses_bases [where prior = "[]" and pages = "pages @ reserved"] by simp

theorem translation_tables_exact_witness:
  "levels_ok ref_sel4 \<and> table_plan ref_sel4 [0x1000, 0x2000, 0x200000] =
     [(1, 0x1000), (2, 0x1000), (3, 0x1000), (3, 0x200000)] \<and>
   advances 5 (vspace_create ref_sel4 [0x1000, 0x2000] [0x200000])"
proof -
  have levels: "levels_ok ref_sel4" by (auto simp: levels_ok_def ref_sel4_def)
  have plan: "table_plan ref_sel4 [0x1000, 0x2000, 0x200000] =
      [(1, 0x1000), (2, 0x1000), (3, 0x1000), (3, 0x200000)]"
    by (simp add: table_plan_def ref_sel4_def upt_conv_Cons)
  with translation_tables_exact [OF levels, of "\<lparr>vs_root = 0\<rparr>" "[0x1000, 0x2000]" "[0x200000]"] levels
  show ?thesis by (simp only: append_Cons append_Nil length_Cons list.size) (simp add: eval_nat_numeral)
qed

text \<open>
  Mapping a frame derives a capability and never touches the owner's: an address that is not
  page aligned is refused before anything happens; otherwise success copies the owner capability
  with the requested rights into the next root slot, maps that copy, with the same rights, at the
  address, and returns it; and a failure to copy or to map is reported as such.
\<close>

lemma map_frame_derives_mapping:
  assumes "root_slot_laws K occ" and "vspace_map_frame K vs f address rights (b, w) = (r, (c, v))"
  shows "case r of
      Ok m \<Rightarrow> is_multiple_of address (GRANULE_BYTES K) \<and> m = slot_cptr K (bootstrap_checkpoint b) \<and>
        unat (bootstrap_checkpoint c) = Suc (unat (bootstrap_checkpoint b)) \<and>
        occupied_slots occ v = insert (bootstrap_checkpoint b) (occupied_slots occ w) \<and>
        (\<exists>u. bootstrap_copy_cap K (frame_cap f) rights (b, w) = (Ok m, (c, u)) \<and>
          frame_map K m (vs_root vs) address rights DefaultVmAttributes (mach u) = (Ok (), mach v))
    | Err e \<Rightarrow> if is_multiple_of address (GRANULE_BYTES K)
        then e = FrameMappingFailed \<or> fst (bootstrap_copy_cap K (frame_cap f) rights (b, w)) = Err e
        else e = InvalidTaskConfiguration \<and> (c, v) = (b, w)
    | Panic \<Rightarrow> is_multiple_of address (GRANULE_BYTES K)"
proof (cases r)
  case (Ok m)
  from map_frame_Ok [OF assms(2) [unfolded Ok]] obtain u where
    al: "is_multiple_of address (GRANULE_BYTES K)"
    and copy: "bootstrap_copy_cap K (frame_cap f) rights (b, w) = (Ok m, (c, u))"
    and frame: "frame_map K m (vs_root vs) address rights DefaultVmAttributes (mach u) = (Ok (), mach v)"
    by blast
  from one_slotD [OF one_slot_allocate(2) [OF assms(1)] copy]
  have "m = slot_cptr K (bootstrap_checkpoint b)"
    and "unat (bootstrap_checkpoint c) = Suc (unat (bootstrap_checkpoint b))"
    and "occupied_slots occ u = insert (bootstrap_checkpoint b) (occupied_slots occ w)"
    by simp_all
  moreover have "occupied_slots occ v = occupied_slots occ u"
    using spec [OF law_frame [OF assms(1), unfolded quiet_def], of m "vs_root vs" address rights
        DefaultVmAttributes "mach u"] frame by simp
  ultimately show ?thesis using Ok al copy frame by auto
next
  case (Err e)
  show ?thesis
  proof (cases "is_multiple_of address (GRANULE_BYTES K)")
    case False
    with assms(2) Err show ?thesis by (simp add: vspace_map_frame_def pfail_def)
  next
    case True
    obtain x d u where copy: "bootstrap_copy_cap K (frame_cap f) rights (b, w) = (x, (d, u))"
      by (metis prod.exhaust)
    have "x = Err e \<or> e = FrameMappingFailed"
    proof (cases x)
      case (Ok m)
      obtain y t where "syscall (frame_map K m (vs_root vs) address rights DefaultVmAttributes) u = (y, t)"
        by fastforce
      with assms(2) Err True copy Ok show ?thesis
        by (cases y) (simp_all add: vspace_map_frame_def pbind_def on_world_def pmap_err_def pret_def)
    qed (use assms(2) Err True copy in \<open>simp_all add: vspace_map_frame_def pbind_def\<close>)
    with Err True copy show ?thesis by auto
  qed
next
  case Panic
  with assms(2) show ?thesis by (auto simp: vspace_map_frame_def pfail_def split: if_splits)
qed

lemma map_frame_derives_mapping_example:
  "\<exists>c v. vspace_map_frame ref_sel4 \<lparr>vs_root = 5\<rparr> (Frame 7) 0x1000 RightsReadOnly
      (ref_boot 100 102, ref_world [7] (\<lambda>_. [])) = (Ok 100, (c, v)) \<and>
    occupied_slots ref_occ v = {7, 100}"
proof -
  let ?s = "(ref_boot 100 102, ref_world [7] (\<lambda>_. []))"
  obtain c v where run: "vspace_map_frame ref_sel4 \<lparr>vs_root = 5\<rparr> (Frame 7) 0x1000 RightsReadOnly ?s = (Ok 100, (c, v))"
    by (simp add: vspace_map_frame_def is_multiple_of_def bootstrap_copy_cap_def on_slots_def copy_to_root_def
        pbind_def pres_def try_allocate_cases ref_boot_def ref_bootinfo_def pmap_err_def syscall_def pret_def
        ref_world_def on_world_def Let_def)
  from map_frame_derives_mapping [OF ref_root_slot_laws run] have
    "occupied_slots ref_occ v = insert 100 (occupied_slots ref_occ (ref_world [7] (\<lambda>_. [])))"
    by (simp add: bootstrap_checkpoint_def free_slots_checkpoint_def ref_boot_def)
  with run show ?thesis by (auto simp: ref_occ_def ref_world_def)
qed

end
