(* ===== verification/Thread.thy ===== *)
theory Thread
  imports VSpace
begin

text \<open>
  The model of thread.rs: the register context of a task, the configuration of a suspended TCB and
  its control. The context's accessors \<open>pc\<close>, \<open>sp\<close> and \<open>gpr\<close> are those of the kernel
  wrapper; \<open>gpr\<close> indexes the registers and panics out of range.
\<close>

section \<open>Registers\<close>

datatype registers = Registers (reg_context: user_context)

definition instruction_pointer :: "registers \<Rightarrow> u64" where
  "instruction_pointer r = uc_pc (reg_context r)"

definition set_instruction_pointer :: "u64 \<Rightarrow> registers \<Rightarrow> registers" where
  "set_instruction_pointer value r = Registers ((reg_context r)\<lparr>uc_pc := value\<rparr>)"

definition stack_pointer :: "registers \<Rightarrow> u64" where
  "stack_pointer r = uc_sp (reg_context r)"

definition set_stack_pointer :: "u64 \<Rightarrow> registers \<Rightarrow> registers" where
  "set_stack_pointer value r = Registers ((reg_context r)\<lparr>uc_sp := value\<rparr>)"

definition uc_gpr :: "user_context \<Rightarrow> nat \<Rightarrow> (u64, 'e) res" where
  "uc_gpr u index = (if index < length (uc_gprs u) then Ok (uc_gprs u ! index) else Panic)"

definition uc_set_gpr :: "nat \<Rightarrow> u64 \<Rightarrow> user_context \<Rightarrow> (user_context, 'e) res" where
  "uc_set_gpr index value u =
     (if index < length (uc_gprs u) then Ok (u\<lparr>uc_gprs := (uc_gprs u)[index := value]\<rparr>) else Panic)"

definition general_register :: "registers \<Rightarrow> nat \<Rightarrow> (u64, bootstrap_error) res" where
  "general_register r index = (if index \<ge> 31 then Err InvalidRegister else uc_gpr (reg_context r) index)"

definition set_general_register :: "nat \<Rightarrow> u64 \<Rightarrow> registers \<Rightarrow> (registers, bootstrap_error) res" where
  "set_general_register index value r =
     (if index \<ge> 31 then Err InvalidRegister
      else map_ok Registers (uc_set_gpr index value (reg_context r)))"

section \<open>Threads\<close>

datatype thread = Thread (thread_tcb: cptr)

record thread_config =
  tc_ipc_buffer_address :: usize
  tc_ipc_buffer_mapping :: cptr
  tc_entry :: usize
  tc_stack_pointer :: usize
  tc_arguments :: "usize list"
  tc_fault_endpoint :: cptr

text \<open>The loop over the arguments with their indices.\<close>

fun set_arguments :: "nat \<Rightarrow> usize list \<Rightarrow> user_context \<Rightarrow> (user_context, bootstrap_error) res" where
  "set_arguments index [] u = Ok u"
| "set_arguments index (a # rest) u =
     res_bind (map_err (\<lambda>_. InvalidTaskConfiguration) (try_into_word a)) (\<lambda>value.
     res_bind (uc_set_gpr index value u) (\<lambda>v. set_arguments (Suc index) rest v))"

definition thread_create :: "'k sel4 \<Rightarrow> cspace \<Rightarrow> vspace \<Rightarrow> thread_config \<Rightarrow>
    ('k boot_state, thread, bootstrap_error) prog" where
  "thread_create K cs vs config =
     pbind (pres (map_err (\<lambda>_. InvalidTaskConfiguration) (try_into_word (tc_ipc_buffer_address config))))
       (\<lambda>ipc_buffer_address.
     pbind (pres (map_err (\<lambda>_. InvalidTaskConfiguration) (try_into_word (tc_entry config)))) (\<lambda>entry.
     pbind (pres (map_err (\<lambda>_. InvalidTaskConfiguration) (try_into_word (tc_stack_pointer config))))
       (\<lambda>stack_pointer.
     pbind (bootstrap_allocate_object K TcbBp) (\<lambda>tcb.
     pbind (pres (cspace_root_data K cs)) (\<lambda>root_data.
     pbind (on_world (pmap_err (\<lambda>_. ThreadConfigurationFailed)
       (syscall (tcb_configure K tcb (tc_fault_endpoint config) (cs_root cs) root_data (vs_root vs)
         ipc_buffer_address (tc_ipc_buffer_mapping config))))) (\<lambda>_.
     pbind (pres (set_arguments 0 (tc_arguments config)
       ((default_context K)\<lparr>uc_pc := entry, uc_sp := stack_pointer\<rparr>))) (\<lambda>context.
     pbind (on_world (pmap_err (\<lambda>_. ThreadConfigurationFailed)
       (syscall (tcb_write_all_registers K tcb False context)))) (\<lambda>_.
     pret (Thread tcb)))))))))"

definition thread_start :: "'k sel4 \<Rightarrow> thread \<Rightarrow> ('k world, unit, bootstrap_error) prog" where
  "thread_start K t = pmap_err (\<lambda>_. ThreadControlFailed) (syscall (tcb_resume K (thread_tcb t)))"

definition thread_suspend :: "'k sel4 \<Rightarrow> thread \<Rightarrow> ('k world, unit, bootstrap_error) prog" where
  "thread_suspend K t = pmap_err (\<lambda>_. ThreadControlFailed) (syscall (tcb_suspend K (thread_tcb t)))"

definition thread_read_registers :: "'k sel4 \<Rightarrow> thread \<Rightarrow> ('k world, registers, bootstrap_error) prog" where
  "thread_read_registers K t = pmap_err (\<lambda>_. RegisterReadFailed)
     (pmap Registers (syscall (tcb_read_all_registers K (thread_tcb t) False)))"

definition thread_write_registers ::
  "'k sel4 \<Rightarrow> thread \<Rightarrow> registers \<Rightarrow> ('k world, unit, bootstrap_error) prog" where
  "thread_write_registers K t r = pmap_err (\<lambda>_. RegisterWriteFailed)
     (syscall (tcb_write_all_registers K (thread_tcb t) False (reg_context r)))"

section \<open>The register file\<close>

text \<open>The context of the pinned target has registers X0 to X30.\<close>

definition context_wf :: "user_context \<Rightarrow> bool" where
  "context_wf u \<longleftrightarrow> length (uc_gprs u) = 31"

lemma set_arguments_run:
  "index + length args \<le> length (uc_gprs u) \<Longrightarrow>
     set_arguments index args u = Ok (u\<lparr>uc_gprs :=
       take index (uc_gprs u) @ args @ drop (index + length args) (uc_gprs u)\<rparr>)"
proof (induction args arbitrary: index u)
  case (Cons a args)
  let ?u = "u\<lparr>uc_gprs := (uc_gprs u)[index := a]\<rparr>"
  have "set_arguments index (a # args) u = set_arguments (Suc index) args ?u"
    using Cons.prems by (simp add: try_into_word_def uc_set_gpr_def)
  also have "\<dots> = Ok (?u\<lparr>uc_gprs := take (Suc index) (uc_gprs ?u) @ args @
      drop (Suc index + length args) (uc_gprs ?u)\<rparr>)"
    using Cons.prems by (intro Cons.IH) simp
  also have "take (Suc index) (uc_gprs ?u) = take index (uc_gprs u) @ [a]"
    using Cons.prems by (simp add: take_Suc_conv_app_nth)
  finally show ?case by simp
qed simp

lemma keeps_thread_create:
  assumes "kernel_ok K view"
  shows "keeps (boot_ledger view) (thread_create K cs vs config)"
proof -
  have quiet: "quiet occ (tcb_configure K t e r d v a b)" "quiet occ (tcb_write_all_registers K t x u)"
    if "view = Some occ" for occ t e r d v a b x u
    using assms that by (simp_all add: kernel_ok_def law_configure law_registers)
  show ?thesis
    unfolding thread_create_def
    by (intro boot_ledger.keeps_intros keeps_quiet_call quiet keeps_allocate_object [OF assms])
qed

lemma advances_thread_create: "advances 1 (thread_create K cs vs config)"
  unfolding thread_create_def One_nat_def by (intro advances_intros)

text \<open>
  On such a context no access panics; an index from 31 on is reported by both accessors; a read
  after a write sees the write and nothing else changed.
\<close>

lemma register_access:
  assumes "context_wf (reg_context r)"
  shows "(31 \<le> i \<longrightarrow> general_register r i = Err InvalidRegister \<and>
      set_general_register i x r = Err InvalidRegister) \<and>
    (i < 31 \<longrightarrow> (\<exists>s. set_general_register i x r = Ok s \<and> context_wf (reg_context s) \<and>
      (\<forall>j. general_register s j = (if j = i then Ok x else general_register r j)) \<and>
      instruction_pointer s = instruction_pointer r \<and> stack_pointer s = stack_pointer r))"
  using assms
  by (auto simp: general_register_def set_general_register_def uc_gpr_def uc_set_gpr_def context_wf_def
      instruction_pointer_def stack_pointer_def nth_list_update)

section \<open>Properties\<close>

text \<open>
  C36. A created thread is configured and suspended with the requested registers: success means
  the TCB was allocated, configured with the task's CSpace, its guard, its VSpace, IPC buffer and
  fault endpoint, and its registers were written, without resuming it, as the default context with
  the entry point, the stack top and the arguments in X0 onwards.
\<close>

theorem created_thread_is_configured:
  assumes "context_wf (default_context K)" and "length (tc_arguments config) \<le> 31"
    and "thread_create K cs vs config (b, w) = (Ok t, (c, v))"
  shows "\<exists>u x data. bootstrap_allocate_object K TcbBp (b, w) = (Ok (thread_tcb t), (c, u)) \<and>
    cspace_root_data K cs = (Ok data :: (cnode_cap_data, bootstrap_error) res) \<and>
    tcb_configure K (thread_tcb t) (tc_fault_endpoint config) (cs_root cs) data (vs_root vs)
      (tc_ipc_buffer_address config) (tc_ipc_buffer_mapping config) (mach u) = (Ok (), x) \<and>
    tcb_write_all_registers K (thread_tcb t) False
      ((default_context K)\<lparr>uc_pc := tc_entry config, uc_sp := tc_stack_pointer config,
        uc_gprs := tc_arguments config @ drop (length (tc_arguments config)) (uc_gprs (default_context K))\<rparr>) x =
      (Ok (), mach v)"
proof -
  let ?ctx = "(default_context K)\<lparr>uc_pc := tc_entry config, uc_sp := tc_stack_pointer config\<rparr>"
  have args: "set_arguments 0 (tc_arguments config) ?ctx = Ok (?ctx\<lparr>uc_gprs :=
      tc_arguments config @ drop (length (tc_arguments config)) (uc_gprs (default_context K))\<rparr>)"
    using assms(1,2) by (subst set_arguments_run) (simp_all add: context_wf_def)
  from assms(3) args show ?thesis
    by (auto simp: thread_create_def pbind_Ok pres_def pret_def try_into_word_def on_world_Ok pmap_err_def
        syscall_def cspace_root_data_def split: prod.splits)
qed

theorem created_thread_is_configured_witness:
  "let cs = \<lparr>cs_root = 20, cs_size_bits = 3, cs_slots = 0\<rparr>;
       config = \<lparr>tc_ipc_buffer_address = 0x4000, tc_ipc_buffer_mapping = 9, tc_entry = 0x1000,
         tc_stack_pointer = 0x4000, tc_arguments = [1, 2, 3, 4], tc_fault_endpoint = 0\<rparr>
   in \<exists>c v u. thread_create ref_sel4 cs \<lparr>vs_root = 21\<rparr> config (ref_boot 100 102, ref_world [] (\<lambda>_. [])) =
        (Ok (Thread 100), (c, v)) \<and>
      bootstrap_allocate_object ref_sel4 TcbBp (ref_boot 100 102, ref_world [] (\<lambda>_. [])) = (Ok 100, (c, u))"
proof -
  let ?cs = "\<lparr>cs_root = 20, cs_size_bits = 3, cs_slots = 0\<rparr>"
  let ?config = "\<lparr>tc_ipc_buffer_address = 0x4000, tc_ipc_buffer_mapping = 9, tc_entry = 0x1000,
         tc_stack_pointer = 0x4000, tc_arguments = [1, 2, 3, 4], tc_fault_endpoint = 0\<rparr>"
  let ?s = "(ref_boot 100 102, ref_world [] (\<lambda>_. []))"
  have wf: "context_wf (default_context ref_sel4)" "length (tc_arguments ?config) \<le> 31"
    by (simp_all add: context_wf_def ref_sel4_def)
  have "\<exists>c u. bootstrap_allocate_object ref_sel4 TcbBp ?s = (Ok 100, (c, u))"
    by (simp add: bootstrap_allocate_object_def on_slots_def object_allocate_def ref_boot_def ref_bootinfo_def
        object_allocate_blueprint_def pbind_def pres_def try_allocate_cases untyped_candidates_def
        retype_candidates.simps(2) ref_sel4_def ref_world_def syscall_def Let_def root_task_cnode_def)
  then obtain c u where "bootstrap_allocate_object ref_sel4 TcbBp ?s = (Ok 100, (c, u))" by blast
  moreover have "set_arguments 0 (tc_arguments ?config) (default_context ref_sel4\<lparr>uc_pc := a, uc_sp := b\<rparr>) \<noteq> Panic"
    "set_arguments 0 (tc_arguments ?config) (default_context ref_sel4\<lparr>uc_pc := a, uc_sp := b\<rparr>) \<noteq> Err e" for a b e
    using wf by (subst set_arguments_run; simp add: context_wf_def)+
  ultimately have "\<exists>v. thread_create ref_sel4 ?cs \<lparr>vs_root = 21\<rparr> ?config ?s = (Ok (Thread 100), (c, v))"
    by (cases "set_arguments 0 (tc_arguments ?config) (default_context ref_sel4\<lparr>uc_pc := 0x1000, uc_sp := 0x4000\<rparr>)")
      (auto simp: thread_create_def pbind_def pres_def pret_def try_into_word_def on_world_def
        pmap_err_def syscall_def cspace_root_data_def checked_sub_def)
  then obtain v where run: "thread_create ref_sel4 ?cs \<lparr>vs_root = 21\<rparr> ?config ?s = (Ok (Thread 100), (c, v))" by blast
  from created_thread_is_configured [OF wf run] run show ?thesis unfolding Let_def by auto
qed

end
