(* ===== verification/Task_Layout.thy ===== *)
theory Task_Layout
  imports Prelude
begin

text \<open>
  The model of \<open>TaskLayout::validate\<close> in task.rs: the check of a task's page addresses and entry
  point, which comes before any kernel object is allocated.
\<close>

section \<open>Validation\<close>

datatype layout_error =
    InvalidPageSize
  | UnalignedAddress
  | AddressOverflow
  | OverlappingPages
  | InvalidEntry

record task_layout =
  tl_stack_pointer :: usize

text \<open>
  One loop over page addresses: \<open>others\<close> are the pages of the other loop, \<open>seen\<close> the ones before
  the current index.
\<close>

fun check_pages :: "usize \<Rightarrow> usize list \<Rightarrow> usize list \<Rightarrow> usize list \<Rightarrow> (unit, layout_error) res" where
  "check_pages page_size others seen [] = Ok ()"
| "check_pages page_size others seen (address # rest) =
     (if \<not> is_multiple_of address page_size then Err UnalignedAddress
      else res_bind (ok_or AddressOverflow (checked_add address page_size)) (\<lambda>_.
        if address \<in> set others \<or> address \<in> set seen then Err OverlappingPages
        else check_pages page_size others (seen @ [address]) rest))"

definition layout_validate ::
  "usize \<Rightarrow> usize \<Rightarrow> usize \<Rightarrow> usize \<Rightarrow> usize \<Rightarrow> usize \<Rightarrow> usize list \<Rightarrow> (task_layout, layout_error) res" where
  "layout_validate page_size code_address entry private_memory_address stack_address
       ipc_buffer_address reserved_pages =
     (if page_size = 0 \<or> \<not> is_power_of_two page_size then Err InvalidPageSize
      else
        let addresses = [code_address, private_memory_address, stack_address, ipc_buffer_address] in
        res_bind (check_pages page_size [] [] addresses) (\<lambda>_.
        res_bind (check_pages page_size addresses [] reserved_pages) (\<lambda>_.
        res_bind (ok_or AddressOverflow (checked_add code_address page_size)) (\<lambda>code_end.
          if entry < code_address \<or> entry \<ge> code_end \<or> \<not> is_multiple_of entry 4 then Err InvalidEntry
          else
            res_bind (ok_or AddressOverflow (checked_add stack_address page_size)) (\<lambda>stack_pointer.
            Ok \<lparr>tl_stack_pointer = stack_pointer\<rparr>)))))"

section \<open>The specification of a page list\<close>

text \<open>The first thing wrong with one page, after the pages before it.\<close>

definition page_error :: "usize \<Rightarrow> usize set \<Rightarrow> usize \<Rightarrow> layout_error option" where
  "page_error page earlier a =
     (if \<not> unat page dvd unat a then Some UnalignedAddress
      else if 2 ^ 64 \<le> unat a + unat page then Some AddressOverflow
      else if a \<in> earlier then Some OverlappingPages else None)"

definition first_page_error :: "usize \<Rightarrow> usize list \<Rightarrow> layout_error \<Rightarrow> bool" where
  "first_page_error page pages e \<longleftrightarrow>
     (\<exists>i < length pages. page_error page (set (take i pages)) (pages ! i) = Some e \<and>
        (\<forall>j < i. page_error page (set (take j pages)) (pages ! j) = None))"

definition pages_ok :: "usize \<Rightarrow> usize list \<Rightarrow> bool" where
  "pages_ok page pages \<longleftrightarrow> distinct pages \<and>
     (\<forall>a \<in> set pages. unat page dvd unat a \<and> unat a + unat page < 2 ^ 64)"

lemma check_pages_step:
  "page \<noteq> 0 \<Longrightarrow> check_pages page others seen (a # rest) =
     (case page_error page (set others \<union> set seen) a of
        Some e \<Rightarrow> Err e | None \<Rightarrow> check_pages page others (seen @ [a]) rest)"
  by (auto simp: page_error_def is_multiple_of_unat checked_add_def not_less)

declare check_pages.simps(2) [simp del]

lemma check_pages_union:
  "page \<noteq> 0 \<Longrightarrow> set others \<union> set seen = set others' \<union> set seen' \<Longrightarrow>
     check_pages page others seen pages = check_pages page others' seen' pages"
proof (induction pages arbitrary: seen seen')
  case (Cons a pages)
  then have "set others \<union> set (seen @ [a]) = set others' \<union> set (seen' @ [a])" by auto
  from Cons.IH [OF Cons.prems(1) this] Cons.prems show ?case
    by (simp add: check_pages_step split: option.split)
qed simp

lemma check_pages_append:
  "page \<noteq> 0 \<Longrightarrow> check_pages page others seen (xs @ ys) =
     res_bind (check_pages page others seen xs) (\<lambda>_. check_pages page others (seen @ xs) ys)"
  by (induction xs arbitrary: seen) (auto simp: check_pages_step split: option.splits)

lemma check_pages_no_panic:
  "check_pages page others seen pages \<noteq> Panic"
  by (induction page others seen pages rule: check_pages.induct)
    (auto simp: check_pages.simps(2) checked_add_def)

lemma check_pages_spec:
  assumes "page \<noteq> 0"
  shows "(check_pages page others seen pages = Ok () \<longleftrightarrow>
      (\<forall>i < length pages. page_error page (set others \<union> set seen \<union> set (take i pages)) (pages ! i) = None)) \<and>
    (check_pages page others seen pages = Err e \<longleftrightarrow>
      (\<exists>i < length pages. page_error page (set others \<union> set seen \<union> set (take i pages)) (pages ! i) = Some e \<and>
        (\<forall>j < i. page_error page (set others \<union> set seen \<union> set (take j pages)) (pages ! j) = None)))"
proof (induction pages arbitrary: seen)
  case (Cons a pages)
  have union: "set others \<union> set (seen @ [a]) \<union> S = set others \<union> set seen \<union> insert a S" for S by auto
  note IH = Cons.IH [of "seen @ [a]", unfolded union]
  show ?case
    using IH by (simp add: check_pages_step [OF assms] All_less_Suc2 Ex_less_Suc2 split: option.split)
qed simp

lemma check_pages_Err:
  "page \<noteq> 0 \<Longrightarrow> check_pages page [] [] pages = Err e \<longleftrightarrow> first_page_error page pages e"
  by (simp add: check_pages_spec first_page_error_def)

lemma page_error_None:
  "page_error page earlier a = None \<longleftrightarrow>
     unat page dvd unat a \<and> unat a + unat page < 2 ^ 64 \<and> a \<notin> earlier"
  by (auto simp: page_error_def)

lemma not_in_take_distinct: "(\<forall>i < length xs. xs ! i \<notin> set (take i xs)) \<longleftrightarrow> distinct xs"
proof (induction xs rule: rev_induct)
  case (snoc x xs)
  have "(\<forall>i < length (xs @ [x]). (xs @ [x]) ! i \<notin> set (take i (xs @ [x]))) \<longleftrightarrow>
      (\<forall>i < length xs. xs ! i \<notin> set (take i xs)) \<and> x \<notin> set xs"
    by (auto simp: less_Suc_eq nth_append)
  with snoc show ?case by auto
qed simp

lemma check_pages_Ok:
  assumes "page \<noteq> 0"
  shows "check_pages page [] [] pages = Ok () \<longleftrightarrow> pages_ok page pages"
proof -
  have "check_pages page [] [] pages = Ok () \<longleftrightarrow>
      (\<forall>i < length pages. page_error page (set (take i pages)) (pages ! i) = None)"
    by (simp add: check_pages_spec [OF assms])
  also have "\<dots> \<longleftrightarrow> (\<forall>i < length pages. pages ! i \<notin> set (take i pages)) \<and>
      (\<forall>a \<in> set pages. unat page dvd unat a \<and> unat a + unat page < 2 ^ 64)"
    by (auto simp: page_error_None all_set_conv_all_nth)
  also have "(\<forall>i < length pages. pages ! i \<notin> set (take i pages)) \<longleftrightarrow> distinct pages"
    by (rule not_in_take_distinct)
  also have "distinct pages \<and> (\<forall>a \<in> set pages. unat page dvd unat a \<and> unat a + unat page < 2 ^ 64) \<longleftrightarrow>
      pages_ok page pages" by (simp add: pages_ok_def)
  finally show ?thesis .
qed

lemma power_of_two_nonzero: "is_power_of_two page \<Longrightarrow> page \<noteq> 0"
proof -
  assume "is_power_of_two page"
  then obtain k where "k < 64" and "page = push_bit k 1"
    by (auto simp: is_power_of_two_def list_ex_iff)
  moreover from \<open>k < 64\<close> have "bit (push_bit k (1 :: usize)) k" by (simp add: bit_simps)
  ultimately show ?thesis by auto
qed

text \<open>The two loops are one loop over all pages.\<close>

lemma check_both:
  assumes "page \<noteq> 0"
  shows "res_bind (check_pages page [] [] xs) (\<lambda>_. res_bind (check_pages page xs [] ys) k) =
    res_bind (check_pages page [] [] (xs @ ys)) k"
proof -
  have "check_pages page [] xs ys = check_pages page xs [] ys"
    by (rule check_pages_union [OF assms]) simp
  then show ?thesis
    by (cases "check_pages page [] [] xs") (simp_all add: check_pages_append [OF assms])
qed

definition entry_ok :: "usize \<Rightarrow> usize \<Rightarrow> usize \<Rightarrow> bool" where
  "entry_ok page code entry \<longleftrightarrow>
     unat code \<le> unat entry \<and> unat entry < unat code + unat page \<and> 4 dvd unat entry"

lemma layout_validate_eq:
  "layout_validate page code entry priv stack ipc reserved =
    (if \<not> is_power_of_two page then Err InvalidPageSize
     else res_bind (check_pages page [] [] ([code, priv, stack, ipc] @ reserved)) (\<lambda>_.
       if entry_ok page code entry then Ok \<lparr>tl_stack_pointer = stack + page\<rparr> else Err InvalidEntry))"
proof (cases "is_power_of_two page")
  case False
  then show ?thesis by (simp add: layout_validate_def)
next
  case True
  then have nz: "page \<noteq> 0" by (rule power_of_two_nonzero)
  let ?all = "[code, priv, stack, ipc] @ reserved"
  have both: "layout_validate page code entry priv stack ipc reserved =
      res_bind (check_pages page [] [] ?all) (\<lambda>_.
        res_bind (ok_or AddressOverflow (checked_add code page)) (\<lambda>code_end.
          if entry < code \<or> entry \<ge> code_end \<or> \<not> is_multiple_of entry 4 then Err InvalidEntry
          else res_bind (ok_or AddressOverflow (checked_add stack page)) (\<lambda>sp. Ok \<lparr>tl_stack_pointer = sp\<rparr>)))"
    using True nz unfolding layout_validate_def Let_def check_both [OF nz, symmetric] by simp
  show ?thesis
  proof (cases "check_pages page [] [] ?all = Ok ()")
    case ok: True
    then have "pages_ok page ?all" by (simp add: check_pages_Ok [OF nz])
    then have fits: "unat code + unat page < 2 ^ 64" "unat stack + unat page < 2 ^ 64"
      unfolding pages_ok_def by simp_all
    then have "unat (code + page) = unat code + unat page" by (simp add: unat_word_ariths)
    then have "(entry < code \<or> entry \<ge> code + page \<or> \<not> is_multiple_of entry 4) \<longleftrightarrow> \<not> entry_ok page code entry"
      by (auto simp: entry_ok_def word_less_nat_alt word_le_nat_alt is_multiple_of_unat)
    with fits both True ok show ?thesis by (simp add: checked_add_def)
  next
    case False
    with both True check_pages_no_panic [of page "[]" "[]" ?all] show ?thesis
      by (cases "check_pages page [] [] ?all") simp_all
  qed
qed

section \<open>Properties\<close>

text \<open>
  C23. The layout check accepts exactly the sound layouts: it succeeds if and only if the page size
  is a power of two, every page, reserved ones included, is aligned and ends inside the address
  space, no two pages are the same, and the entry point is a 4-byte aligned address in the code
  page; and the stack pointer it computes is the end of the stack page.
\<close>

theorem layout_accepts_exactly:
  "layout_validate page code entry priv stack ipc reserved = Ok l \<longleftrightarrow>
    is_power_of_two page \<and> pages_ok page ([code, priv, stack, ipc] @ reserved) \<and>
    unat code \<le> unat entry \<and> unat entry < unat code + unat page \<and> 4 dvd unat entry \<and>
    unat (tl_stack_pointer l) = unat stack + unat page"
proof -
  let ?all = "[code, priv, stack, ipc] @ reserved"
  have sp: "l = \<lparr>tl_stack_pointer = stack + page\<rparr> \<longleftrightarrow> unat (tl_stack_pointer l) = unat stack + unat page"
    if "pages_ok page ?all"
  proof -
    from that have "unat stack + unat page < 2 ^ 64" unfolding pages_ok_def by simp
    then have "unat (stack + page) = unat stack + unat page" by (simp add: unat_word_ariths)
    then show ?thesis by (cases l) (auto simp: word_unat_eq_iff)
  qed
  show ?thesis
  proof (cases "is_power_of_two page")
    case True
    then have nz: "page \<noteq> 0" by (rule power_of_two_nonzero)
    show ?thesis
      using True sp check_pages_Ok [OF nz, of ?all] check_pages_no_panic [of page "[]" "[]" ?all]
      by (cases "check_pages page [] [] ?all") (auto simp: layout_validate_eq entry_ok_def)
  qed (simp add: layout_validate_eq)
qed

text \<open>
  C33. Accepted pages never overlap: the byte ranges of the pages at any two positions of an accepted
  layout, the four pages of the task and the reserved ones, are disjoint; so no address is given
  twice. The stack pointer is aligned like a page and lies one page above the start of the stack page.
\<close>

theorem layout_pages_disjoint:
  assumes "layout_validate page code entry priv stack ipc reserved = Ok l"
    and "i < 4 + length reserved" and "j < 4 + length reserved" and "i \<noteq> j"
  shows "(let bytes = (\<lambda>k. let a = unat (([code, priv, stack, ipc] @ reserved) ! k) in {a ..< a + unat page}) in
      bytes i \<inter> bytes j = {}) \<and>
    unat page dvd unat (tl_stack_pointer l) \<and> unat (tl_stack_pointer l) = unat stack + unat page"
proof -
  let ?pages = "[code, priv, stack, ipc] @ reserved"
  let ?a = "?pages ! i" and ?b = "?pages ! j"
  from assms(1) have "is_power_of_two page" by (auto simp: layout_validate_eq split: if_splits)
  then have nz: "page \<noteq> 0" by (rule power_of_two_nonzero)
  from assms(1) have "check_pages page [] [] ([code, priv, stack, ipc] @ reserved) = Ok ()"
    and l: "l = \<lparr>tl_stack_pointer = stack + page\<rparr>"
    by (cases "check_pages page [] [] ([code, priv, stack, ipc] @ reserved)";
        auto simp: layout_validate_eq split: if_splits)+
  then have ok: "pages_ok page ([code, priv, stack, ipc] @ reserved)" by (simp add: check_pages_Ok [OF nz])
  have "?a \<in> set ?pages" "?b \<in> set ?pages" using assms(2,3) by (simp_all only: nth_mem length_append list.size)
  with ok have dvd: "unat page dvd unat ?a" "unat page dvd unat ?b" "unat page dvd unat stack"
    and fits: "unat stack + unat page < 2 ^ 64" unfolding pages_ok_def by auto
  from ok have "distinct ?pages" by (simp only: pages_ok_def)
  then have "?a \<noteq> ?b" using assms(2-4) by (simp add: nth_eq_iff_index_eq del: distinct.simps)
  have pos: "0 < unat page" using nz by (simp add: unat_gt_0)
  obtain x y where xy: "unat ?a = unat page * x" "unat ?b = unat page * y" using dvd(1,2) by (auto simp only: dvd_def)
  with \<open>?a \<noteq> ?b\<close> have "x \<noteq> y" by (metis word_unat_eq_iff)
  then have "unat ?a + unat page \<le> unat ?b \<or> unat ?b + unat page \<le> unat ?a"
    using pos unfolding xy by (metis Suc_leI add.commute mult_Suc_right mult_le_mono2 nat_neq_iff)
  then have "{unat ?a ..< unat ?a + unat page} \<inter> {unat ?b ..< unat ?b + unat page} = {}" by auto
  moreover have "unat (stack + page) = unat stack + unat page" using fits by (simp add: unat_word_ariths)
  ultimately show ?thesis unfolding Let_def using dvd(3) by (simp add: l)
qed

theorem layout_pages_disjoint_witness:
  "layout_validate 4096 0x1000 0x1000 0x2000 0x3000 0x4000 [0x5000] = Ok \<lparr>tl_stack_pointer = 0x4000\<rparr> \<and>
   {0x1000 ..< 0x2000} \<inter> {0x5000 ..< (0x6000 :: nat)} = {}"
proof -
  have pow: "is_power_of_two (4096 :: usize)"
    by (simp add: is_power_of_two_def list_ex_iff) (rule bexI [of _ 12], simp_all)
  have run: "layout_validate 4096 0x1000 0x1000 0x2000 0x3000 0x4000 [0x5000] = Ok \<lparr>tl_stack_pointer = 0x4000\<rparr>"
    by (simp add: layout_validate_def pow check_pages.simps(2) is_multiple_of_def checked_add_def Let_def)
  from layout_pages_disjoint [OF run, of 0 4] have "{0x1000 ..< 0x2000} \<inter> {0x5000 ..< (0x6000 :: nat)} = {}"
    by (simp add: Let_def)
  with run show ?thesis by simp
qed

text \<open>
  C35. The reported error is the first one: validation never panics; a page size that is not a
  power of two is reported before anything else; then the pages are judged in the order code,
  private memory, stack, IPC buffer, reserved, each for alignment, overflow and overlap with an
  earlier page, and the first failing page decides; the entry point is judged last.
\<close>

theorem layout_reports_first_error:
  "layout_validate page code entry priv stack ipc reserved \<noteq> Panic \<and>
   (layout_validate page code entry priv stack ipc reserved = Err e \<longleftrightarrow>
     (if is_power_of_two page
      then first_page_error page ([code, priv, stack, ipc] @ reserved) e \<or>
        (pages_ok page ([code, priv, stack, ipc] @ reserved) \<and> \<not> entry_ok page code entry \<and> e = InvalidEntry)
      else e = InvalidPageSize))"
proof (cases "is_power_of_two page")
  case True
  then have nz: "page \<noteq> 0" by (rule power_of_two_nonzero)
  let ?all = "[code, priv, stack, ipc] @ reserved"
  show ?thesis
    using True check_pages_Ok [OF nz, of ?all] check_pages_Err [OF nz, of ?all e]
      check_pages_no_panic [of page "[]" "[]" ?all]
    by (cases "check_pages page [] [] ?all") (auto simp: layout_validate_eq)
qed (auto simp: layout_validate_eq)

end
