(* ===== verification/Faults.thy ===== *)
theory Faults
  imports Prelude
begin

text \<open>
  The decoder of fault.rs: the message registers of a kernel fault become a structured fault, or
  an error that names what is wrong with them.
\<close>

section \<open>Decoding\<close>

record vm_fault =
  vm_instruction_pointer :: u64
  vm_address :: u64
  vm_instruction_fault :: bool
  vm_syndrome :: u64

record unknown_syscall_fault =
  us_argument_registers :: "u64 list"
  us_instruction_pointer :: u64
  us_stack_pointer :: u64
  us_link_register :: u64
  us_status_register :: u64
  us_syscall_number :: u64

datatype capability_lookup_failure =
    InvalidRoot
  | MissingCapability (missing_bits_left: u64)
  | DepthMismatch u64 u64
  | GuardMismatch u64 u64 u64

record capability_fault =
  cf_instruction_pointer :: u64
  cf_capability_address :: u64
  cf_in_receive_phase :: bool
  cf_lookup_failure :: capability_lookup_failure

datatype fault =
    CapabilityFault capability_fault
  | UnknownSyscall unknown_syscall_fault
  | VmFault vm_fault

datatype fault_decode_error =
    UnsupportedLabel u64
  | UnexpectedLength u64 nat nat
  | InvalidBoolean u64 nat u64
  | InvalidLookupFailureType u64

text \<open>Indexing a slice panics out of range.\<close>

definition register_at :: "u64 list \<Rightarrow> nat \<Rightarrow> (u64, 'e) res" where
  "register_at rs i = (if i < length rs then Ok (rs ! i) else Panic)"

definition expect_length :: "u64 \<Rightarrow> u64 list \<Rightarrow> nat \<Rightarrow> (unit, fault_decode_error) res" where
  "expect_length label registers expected =
     (if length registers \<noteq> expected then Err (UnexpectedLength label expected (length registers))
      else Ok ())"

definition decode_boolean :: "u64 \<Rightarrow> nat \<Rightarrow> u64 \<Rightarrow> (bool, fault_decode_error) res" where
  "decode_boolean label index v =
     (if v = 0 then Ok False else if v = 1 then Ok True else Err (InvalidBoolean label index v))"

definition decode_vm_fault :: "u64 list \<Rightarrow> (vm_fault, fault_decode_error) res" where
  "decode_vm_fault rs =
     res_bind (expect_length 5 rs 4) (\<lambda>_.
     res_bind (register_at rs 0) (\<lambda>ip.
     res_bind (register_at rs 1) (\<lambda>address.
     res_bind (res_bind (register_at rs 2) (decode_boolean 5 2)) (\<lambda>instruction_fault.
     res_bind (register_at rs 3) (\<lambda>syndrome.
     Ok \<lparr>vm_instruction_pointer = ip, vm_address = address,
       vm_instruction_fault = instruction_fault, vm_syndrome = syndrome\<rparr>)))))"

definition decode_unknown_syscall :: "u64 list \<Rightarrow> (unknown_syscall_fault, fault_decode_error) res" where
  "decode_unknown_syscall rs =
     res_bind (expect_length 2 rs 13) (\<lambda>_.
     res_bind (or_panic (Option.bind (slice_to rs 8) (copy_prefix (replicate 8 0) 8))) (\<lambda>arguments.
     res_bind (register_at rs 8) (\<lambda>ip.
     res_bind (register_at rs 9) (\<lambda>sp.
     res_bind (register_at rs 10) (\<lambda>lr.
     res_bind (register_at rs 11) (\<lambda>status.
     res_bind (register_at rs 12) (\<lambda>nr.
     Ok \<lparr>us_argument_registers = arguments, us_instruction_pointer = ip, us_stack_pointer = sp,
       us_link_register = lr, us_status_register = status, us_syscall_number = nr\<rparr>)))))))"

definition decode_lookup_failure :: "u64 list \<Rightarrow> (capability_lookup_failure, fault_decode_error) res" where
  "decode_lookup_failure rs =
     res_bind (register_at rs 3) (\<lambda>kind.
       if kind = 1 then res_bind (expect_length 1 rs 4) (\<lambda>_. Ok InvalidRoot)
       else if kind = 2 then
         res_bind (expect_length 1 rs 5) (\<lambda>_. res_bind (register_at rs 4) (\<lambda>a. Ok (MissingCapability a)))
       else if kind = 3 then
         res_bind (expect_length 1 rs 6) (\<lambda>_. res_bind (register_at rs 4) (\<lambda>a.
         res_bind (register_at rs 5) (\<lambda>b. Ok (DepthMismatch a b))))
       else if kind = 4 then
         res_bind (expect_length 1 rs 7) (\<lambda>_. res_bind (register_at rs 4) (\<lambda>a.
         res_bind (register_at rs 5) (\<lambda>b. res_bind (register_at rs 6) (\<lambda>c. Ok (GuardMismatch a b c)))))
       else Err (InvalidLookupFailureType kind))"

definition decode_capability_fault :: "u64 list \<Rightarrow> (capability_fault, fault_decode_error) res" where
  "decode_capability_fault rs =
     (if length rs < 4 then Err (UnexpectedLength 1 4 (length rs))
      else
        res_bind (decode_lookup_failure rs) (\<lambda>lookup_failure.
        res_bind (register_at rs 0) (\<lambda>ip.
        res_bind (register_at rs 1) (\<lambda>address.
        res_bind (res_bind (register_at rs 2) (decode_boolean 1 2)) (\<lambda>in_receive_phase.
        Ok \<lparr>cf_instruction_pointer = ip, cf_capability_address = address,
          cf_in_receive_phase = in_receive_phase, cf_lookup_failure = lookup_failure\<rparr>)))))"

definition fault_decode :: "u64 \<Rightarrow> u64 list \<Rightarrow> (fault, fault_decode_error) res" where
  "fault_decode label registers =
     (if label = 1 then map_ok CapabilityFault (decode_capability_fault registers)
      else if label = 2 then map_ok UnknownSyscall (decode_unknown_syscall registers)
      else if label = 5 then map_ok VmFault (decode_vm_fault registers)
      else Err (UnsupportedLabel label))"

section \<open>The kernel's encoding\<close>

text \<open>
  The registers with which the kernel reports each fault, written from the fault: the inverse the
  decoder implements.
\<close>

definition flag_word :: "bool \<Rightarrow> u64" where
  "flag_word b = (if b then 1 else 0)"

fun encode_lookup_failure :: "capability_lookup_failure \<Rightarrow> u64 list" where
  "encode_lookup_failure InvalidRoot = [1]"
| "encode_lookup_failure (MissingCapability left) = [2, left]"
| "encode_lookup_failure (DepthMismatch left found) = [3, left, found]"
| "encode_lookup_failure (GuardMismatch left guard found) = [4, left, guard, found]"

fun encode_fault :: "fault \<Rightarrow> u64 \<times> u64 list" where
  "encode_fault (CapabilityFault f) = (1, [cf_instruction_pointer f, cf_capability_address f,
     flag_word (cf_in_receive_phase f)] @ encode_lookup_failure (cf_lookup_failure f))"
| "encode_fault (UnknownSyscall f) = (2, us_argument_registers f @ [us_instruction_pointer f,
     us_stack_pointer f, us_link_register f, us_status_register f, us_syscall_number f])"
| "encode_fault (VmFault f) = (5, [vm_instruction_pointer f, vm_address f,
     flag_word (vm_instruction_fault f), vm_syndrome f])"

fun fault_wf :: "fault \<Rightarrow> bool" where
  "fault_wf (UnknownSyscall f) = (length (us_argument_registers f) = 8)"
| "fault_wf _ = True"

lemma decode_boolean_eq:
  "decode_boolean label i v = Ok b \<longleftrightarrow> v = flag_word b"
  by (auto simp: decode_boolean_def flag_word_def)

lemma list_of_length_4: "length rs = 4 \<longleftrightarrow> (\<exists>a b c d. rs = [a, b, c, d])"
  by (auto simp: eval_nat_numeral length_Suc_conv)

lemma list_of_length_5: "length rs = 5 \<longleftrightarrow> (\<exists>a b c d e. rs = [a, b, c, d, e])"
  by (auto simp: eval_nat_numeral length_Suc_conv)

lemma res_bind_Ok: "res_bind r f = Ok b \<longleftrightarrow> (\<exists>a. r = Ok a \<and> f a = Ok b)"
  by (cases r) auto

lemma decode_vm_fault_Ok:
  "decode_vm_fault rs = Ok f \<longleftrightarrow> rs = snd (encode_fault (VmFault f))"
  by (cases f) (auto simp: decode_vm_fault_def expect_length_def register_at_def res_bind_Ok
      decode_boolean_eq list_of_length_4 split: if_splits)

lemma decode_unknown_syscall_Ok:
  "decode_unknown_syscall rs = Ok f \<longleftrightarrow>
     rs = snd (encode_fault (UnknownSyscall f)) \<and> length (us_argument_registers f) = 8"
proof (cases "length rs = 13")
  case True
  then have "length (drop 8 rs) = 5" by simp
  then obtain a b c d e where "drop 8 rs = [a, b, c, d, e]" unfolding list_of_length_5 by blast
  moreover define as where "as = take 8 rs"
  ultimately have rs: "rs = as @ [a, b, c, d, e]" and as: "length as = 8"
    using True append_take_drop_id [of 8 rs] by simp_all
  show ?thesis
    by (cases f) (auto simp: decode_unknown_syscall_def expect_length_def register_at_def rs as nth_append
        slice_to_def copy_prefix_def)
next
  case False
  then show ?thesis
    by (auto simp: decode_unknown_syscall_def expect_length_def)
qed

lemma length_ge_4: "4 \<le> length rs \<longleftrightarrow> (\<exists>a b c d rest. rs = a # b # c # d # rest)"
proof
  assume "4 \<le> length rs"
  then have "length (take 4 rs) = 4" by simp
  then obtain a b c d where "take 4 rs = [a, b, c, d]" unfolding list_of_length_4 by blast
  then have "rs = a # b # c # d # drop 4 rs" using append_take_drop_id [of 4 rs] by simp
  then show "\<exists>a b c d rest. rs = a # b # c # d # rest" by blast
qed auto

lemma decode_lookup_failure_run:
  "decode_lookup_failure (a # b # c # k # rest) =
     (if k = 1 then (if rest = [] then Ok InvalidRoot else Err (UnexpectedLength 1 4 (4 + length rest)))
      else if k = 2 then (case rest of [x] \<Rightarrow> Ok (MissingCapability x)
        | _ \<Rightarrow> Err (UnexpectedLength 1 5 (4 + length rest)))
      else if k = 3 then (case rest of [x, y] \<Rightarrow> Ok (DepthMismatch x y)
        | _ \<Rightarrow> Err (UnexpectedLength 1 6 (4 + length rest)))
      else if k = 4 then (case rest of [x, y, z] \<Rightarrow> Ok (GuardMismatch x y z)
        | _ \<Rightarrow> Err (UnexpectedLength 1 7 (4 + length rest)))
      else Err (InvalidLookupFailureType k))"
  by (auto simp: decode_lookup_failure_def register_at_def expect_length_def nth_Cons' split: list.splits)

lemma decode_lookup_failure_Ok:
  "decode_lookup_failure (a # b # c # k # rest) = Ok l \<longleftrightarrow> k # rest = encode_lookup_failure l"
  by (cases l) (auto simp: decode_lookup_failure_run split: list.splits if_splits)

lemma decode_capability_fault_Ok:
  "decode_capability_fault rs = Ok f \<longleftrightarrow> rs = snd (encode_fault (CapabilityFault f))"
proof (cases "4 \<le> length rs")
  case True
  then obtain a b c k rest where rs: "rs = a # b # c # k # rest" unfolding length_ge_4 by blast
  show ?thesis
    by (cases f) (auto simp: decode_capability_fault_def rs res_bind_Ok register_at_def
        decode_lookup_failure_Ok decode_boolean_eq)
next
  case False
  then have "length rs < 4" by simp
  moreover have "4 \<le> length (snd (encode_fault (CapabilityFault f)))"
    by (cases "cf_lookup_failure f") simp_all
  ultimately show ?thesis by (auto simp: decode_capability_fault_def)
qed

section \<open>What is wrong with a message\<close>

definition required_length :: "u64 \<Rightarrow> u64 list \<Rightarrow> nat option" where
  "required_length label rs =
     (if label = 2 then Some 13 else if label = 5 \<or> length rs < 4 then Some 4
      else if rs ! 3 \<in> {1, 2, 3, 4} then Some (3 + unat (rs ! 3)) else None)"

definition message_error :: "u64 \<Rightarrow> u64 list \<Rightarrow> fault_decode_error option" where
  "message_error label rs =
     (if label \<notin> {1, 2, 5} then Some (UnsupportedLabel label)
      else case required_length label rs of
        None \<Rightarrow> Some (InvalidLookupFailureType (rs ! 3))
      | Some n \<Rightarrow>
          if length rs \<noteq> n then Some (UnexpectedLength label n (length rs))
          else if label \<noteq> 2 \<and> rs ! 2 \<notin> {0, 1} then Some (InvalidBoolean label 2 (rs ! 2))
          else None)"

definition agrees :: "('a, 'e) res \<Rightarrow> 'e option \<Rightarrow> bool" where
  "agrees r x \<longleftrightarrow> (case r of Ok _ \<Rightarrow> x = None | Err e \<Rightarrow> x = Some e | Panic \<Rightarrow> False)"

lemma agrees_map_ok: "agrees (map_ok f r) x = agrees r x"
  by (cases r) (simp_all add: agrees_def)

lemma vm_agrees: "agrees (decode_vm_fault rs) (message_error 5 rs)"
  by (auto simp: agrees_def decode_vm_fault_def expect_length_def register_at_def decode_boolean_def
      message_error_def required_length_def list_of_length_4)

lemma syscall_agrees: "agrees (decode_unknown_syscall rs) (message_error 2 rs)"
  by (auto simp: agrees_def decode_unknown_syscall_def expect_length_def register_at_def
      message_error_def required_length_def slice_to_def copy_prefix_def)

lemma capability_agrees: "agrees (decode_capability_fault rs) (message_error 1 rs)"
proof (cases "4 \<le> length rs")
  case True
  then obtain a b c k rest where rs: "rs = a # b # c # k # rest" unfolding length_ge_4 by blast
  show ?thesis
    by (auto simp: agrees_def decode_capability_fault_def rs register_at_def decode_lookup_failure_run
        decode_boolean_def message_error_def required_length_def split: list.splits)
next
  case False
  then show ?thesis
    by (simp add: agrees_def decode_capability_fault_def message_error_def required_length_def)
qed

lemma fault_decode_agrees: "agrees (fault_decode label registers) (message_error label registers)"
  using vm_agrees syscall_agrees capability_agrees
  by (simp add: fault_decode_def agrees_map_ok) (simp add: agrees_def message_error_def)

section \<open>Properties\<close>

text \<open>
  C17. Decoding is the exact inverse of the kernel's encoding: a message decodes to a fault if and
  only if it is the encoding of that fault, label and registers; so every fault decodes from its
  own encoding, no two messages decode to the same fault and no surplus register is ignored.
\<close>

theorem fault_decode_exact:
  "fault_decode label registers = Ok f \<longleftrightarrow> fault_wf f \<and> encode_fault f = (label, registers)"
proof (cases f)
  case (CapabilityFault x)
  then show ?thesis
    using decode_capability_fault_Ok [of registers x]
    by (cases "decode_capability_fault registers"; cases "decode_unknown_syscall registers";
        cases "decode_vm_fault registers") (auto simp: fault_decode_def)
next
  case (UnknownSyscall x)
  then show ?thesis
    using decode_unknown_syscall_Ok [of registers x]
    by (cases "decode_capability_fault registers"; cases "decode_unknown_syscall registers";
        cases "decode_vm_fault registers") (auto simp: fault_decode_def)
next
  case (VmFault x)
  then show ?thesis
    using decode_vm_fault_Ok [of registers x]
    by (cases "decode_capability_fault registers"; cases "decode_unknown_syscall registers";
        cases "decode_vm_fault registers") (auto simp: fault_decode_def)
qed

text \<open>
  C30. Decoding never panics and its error is the first thing wrong: an unsupported label, then an
  unknown lookup failure, then a register count other than the one the fault class requires, then
  a boolean register that is neither zero nor one, with the offending value in each case.
\<close>

theorem fault_decode_errors:
  "case fault_decode label registers of
     Ok f \<Rightarrow> message_error label registers = None
   | Err e \<Rightarrow> message_error label registers = Some e
   | Panic \<Rightarrow> False"
  using fault_decode_agrees [of label registers] by (simp add: agrees_def)

end
