(* ===== verification/Fault_Endpoint.thy ===== *)
theory Fault_Endpoint
  imports CSpace Faults
begin

text \<open>
  The endpoint adapter of fault.rs: a shared endpoint whose messages are kernel faults, checked
  and decoded on receive and answered through the authority of the received message.
\<close>

section \<open>State and operations\<close>

record fault_endpoint =
  fe_endpoint :: endpoint

record received_fault =
  rf_source :: badge
  rf_fault :: fault
  rf_received :: received_message

datatype fault_receive_error =
    MissingSourceBadge
  | UnexpectedCapabilities nat nat
  | FaultMessageTooLong nat nat
  | FaultIpc ipc_error
  | FaultDecode fault_decode_error

definition fault_route_new :: "fault_endpoint \<Rightarrow> badge \<Rightarrow> usize \<Rightarrow> fault_route" where
  "fault_route_new ep badge child_slot =
     FaultRoute (delegated_badged_endpoint (fe_endpoint ep) child_slot badge)"

definition fault_ipc_error :: "ipc_error \<Rightarrow> fault_receive_error" where
  "fault_ipc_error error = (case error of
       MessageTooLong n capacity \<Rightarrow> FaultMessageTooLong n capacity
     | ReceiveCapacityExceeded count _ \<Rightarrow> UnexpectedCapabilities 0 count
     | other \<Rightarrow> FaultIpc other)"

definition fault_endpoint_receive ::
  "'k sel4 \<Rightarrow> fault_endpoint \<Rightarrow> ('k world, received_fault, fault_receive_error) prog" where
  "fault_endpoint_receive K ep =
     pbind (pmap_err fault_ipc_error (endpoint_receive K (fe_endpoint ep) None)) (\<lambda>received.
       case rm_badge received of
         None \<Rightarrow> pbind (received_message_finish K received) (\<lambda>_. pfail MissingSourceBadge)
       | Some source \<Rightarrow>
           let message = rm_message received in
           if msg_caps_unwrapped message \<noteq> 0 \<or> msg_extra_caps message \<noteq> 0
           then pbind (received_message_finish K received) (\<lambda>_.
             pfail (UnexpectedCapabilities (msg_caps_unwrapped message) (msg_extra_caps message)))
           else pbind (pres (or_panic (message_words message))) (\<lambda>words.
             case fault_decode (msg_label message) words of
               Ok f \<Rightarrow> pret \<lparr>rf_source = source, rf_fault = f, rf_received = received\<rparr>
             | Err e \<Rightarrow> pbind (received_message_finish K received) (\<lambda>_. pfail (FaultDecode e))
             | Panic \<Rightarrow> pres Panic))"

definition fault_endpoint_reply ::
  "'k sel4 \<Rightarrow> fault_endpoint \<Rightarrow> received_fault \<Rightarrow> ('k world, unit, 'e) prog" where
  "fault_endpoint_reply K ep f = received_message_reply K (rf_received f) (message_empty_reply K)"

definition bootstrap_allocate_fault_endpoint ::
  "'k sel4 \<Rightarrow> ('k boot_state, fault_endpoint, bootstrap_error) prog" where
  "bootstrap_allocate_fault_endpoint K =
     pmap (\<lambda>endpoint. \<lparr>fe_endpoint = endpoint\<rparr>) (bootstrap_allocate_endpoint K)"

section \<open>What a fault receive leaves\<close>

lemma message_received_words:
  "message_received K info w = (Ok m, v) \<Longrightarrow> length (msg_words m) = MESSAGE_CAPACITY K"
  by (auto simp: message_received_def message_empty_def slice_to_def copy_prefix_def Let_def bind_eq_Some_conv
      split: if_splits option.splits)

lemma receive_words:
  assumes "slot_ready slot w" and "endpoint_receive K ep slot w = (Ok rm, v)"
  shows "length (msg_words (rm_message rm)) = MESSAGE_CAPACITY K"
proof -
  have deliver: "length (msg_words (rm_message rm)) = MESSAGE_CAPACITY K"
    if "slot_ready slot u" "endpoint_deliver K ep slot info raw u = (Ok rm, v)" for u info raw
    using that(2) unfolding deliver_run [OF that(1)]
    by (auto split: if_splits prod.splits res.splits dest: message_received_words)
  have "slot_ready slot (set_flag c b w\<lparr>mach := m\<rparr>)" for c b m
    using assms(1) by (simp add: slot_ready_def split: option.splits)
  with assms(2) show ?thesis
    by (auto simp: receive_run split: if_splits prod.splits intro: deliver [rotated])
qed

text \<open>
  The outcome of a fault receive: a fault that is the decoding of a badged, capability-free
  message whose reply authority is recorded, with nothing asked of the kernel beyond the receive;
  or an error after which the kernel was asked to answer the refused message with an empty one
  and the endpoint no longer waits, except for the refusal while an earlier fault is unanswered.
\<close>

definition fault_contract :: "'k sel4 \<Rightarrow> endpoint \<Rightarrow> 'k world \<Rightarrow>
    (received_fault, fault_receive_error) res \<Rightarrow> 'k world \<Rightarrow> bool" where
  "fault_contract K ep w r v \<longleftrightarrow>
    (case r of
       Ok f \<Rightarrow> \<not> flag_cells w (ep_pending ep) \<and> flag_cells v (ep_pending ep) \<and>
         mach v = received_mach K ep None w \<and>
         rm_endpoint (rf_received f) = ep \<and> rm_badge (rf_received f) = Some (rf_source f) \<and>
         badge_raw (rf_source f) \<noteq> 0 \<and> msg_extra_caps (rm_message (rf_received f)) = 0 \<and>
         msg_caps_unwrapped (rm_message (rf_received f)) = 0 \<and>
         (\<exists>words. message_words (rm_message (rf_received f)) = Some words \<and>
           fault_decode (msg_label (rm_message (rf_received f))) words = Ok (rf_fault f))
     | Err e \<Rightarrow> if flag_cells w (ep_pending ep) then e = FaultIpc ReplyPending \<and> v = w
         else \<not> flag_cells v (ep_pending ep) \<and>
           mach v = snd (sys_reply K (default_info K) (received_mach K ep None w)) \<and>
           (\<forall>x. e \<noteq> FaultIpc x) \<and>
           (\<forall>u n. e = UnexpectedCapabilities u n \<longrightarrow> n \<noteq> 0 \<longrightarrow> u = 0)
     | Panic \<Rightarrow> fst (endpoint_receive K ep None w) = Panic)"

lemma fault_decode_no_panic: "fault_decode label ws \<noteq> Panic"
  using fault_decode_agrees [of label ws] by (auto simp: agrees_def)

lemma fault_receive_outcome:
  assumes run: "fault_endpoint_receive K ep w = (r, v)"
  shows "fault_contract K (fe_endpoint ep) w r v"
proof -
  have ready: "slot_ready None w" by (simp add: slot_ready_def)
  obtain x u where rec: "endpoint_receive K (fe_endpoint ep) None w = (x, u)" by fastforce
  from receive_outcome [OF ready rec] have con: "receive_contract K (fe_endpoint ep) None w (map_ok Some x) u" .
  note run' = run [unfolded fault_endpoint_receive_def]
  show ?thesis
  proof (cases x)
    case (Err e)
    with run' rec have "r = Err (fault_ipc_error e)" "v = u" by (simp_all add: pbind_def pmap_err_def)
    with con Err receive_machine [OF ready _ rec] show ?thesis
      by (auto simp: fault_contract_def receive_contract_def fault_ipc_error_def split: if_splits)
  next
    case Panic
    with run' rec show ?thesis by (simp add: pbind_def pmap_err_def fault_contract_def)
  next
    case (Ok rm)
    let ?m = "rm_message rm"
    from con Ok have flags: "\<not> flag_cells w (ep_pending (fe_endpoint ep))"
      "flag_cells u (ep_pending (fe_endpoint ep))" and ep: "rm_endpoint rm = fe_endpoint ep"
      and none: "msg_extra_caps ?m = 0" and bound: "msg_length ?m \<le> MESSAGE_CAPACITY K"
      and badge: "\<And>b. rm_badge rm = Some b \<Longrightarrow> badge_raw b \<noteq> 0"
      by (auto simp: receive_contract_def)
    have mach: "mach u = received_mach K (fe_endpoint ep) None w"
      using receive_machine [OF ready flags(1) rec] Ok by simp
    have fin: "received_message_finish K rm u = (Ok (), replied K (fe_endpoint ep) u)"
      by (simp add: received_message_finish_def clear_implicit_reply_run ep)
    have words: "message_words ?m = Some (take (msg_length ?m) (msg_words ?m))"
      using receive_words [OF ready rec [unfolded Ok]] bound by (simp add: message_words_def slice_to_def)
    show ?thesis
    proof (cases "rm_badge rm")
      case None
      with run' rec Ok have "r = Err MissingSourceBadge" "v = replied K (fe_endpoint ep) u"
        by (simp_all add: pbind_def pmap_err_def fin pfail_def)
      with flags mach show ?thesis by (simp add: fault_contract_def)
    next
      case (Some source)
      show ?thesis
      proof (cases "msg_caps_unwrapped ?m = 0")
        case False
        with run' rec Ok Some have "r = Err (UnexpectedCapabilities (msg_caps_unwrapped ?m) (msg_extra_caps ?m))"
          "v = replied K (fe_endpoint ep) u"
          by (simp_all add: pbind_def pmap_err_def fin pfail_def Let_def)
        with flags mach none show ?thesis by (simp add: fault_contract_def)
      next
        case True
        obtain d where d: "fault_decode (msg_label ?m) (take (msg_length ?m) (msg_words ?m)) = d" by blast
        with run' rec Ok Some True none words flags mach ep badge [OF Some]
          fault_decode_no_panic [of "msg_label ?m" "take (msg_length ?m) (msg_words ?m)"]
        show ?thesis
          by (cases d) (auto simp: pbind_def pmap_err_def fin pfail_def pres_def pret_def Let_def
              fault_contract_def)
      qed
    qed
  qed
qed

text \<open>A receive is refused as pending exactly while a fault is unanswered.\<close>

lemma fault_refused_iff:
  "fst (fault_endpoint_receive K ep w) = Err (FaultIpc ReplyPending) \<longleftrightarrow> flag_cells w (ep_pending (fe_endpoint ep))"
proof
  assume "flag_cells w (ep_pending (fe_endpoint ep))"
  then show "fst (fault_endpoint_receive K ep w) = Err (FaultIpc ReplyPending)"
    by (simp add: fault_endpoint_receive_def pbind_def pmap_err_def receive_run fault_ipc_error_def)
next
  assume refused: "fst (fault_endpoint_receive K ep w) = Err (FaultIpc ReplyPending)"
  obtain r v where run: "fault_endpoint_receive K ep w = (r, v)" by fastforce
  with fault_receive_outcome [OF run] refused show "flag_cells w (ep_pending (fe_endpoint ep))"
    by (simp add: fault_contract_def split: if_splits)
qed

section \<open>Properties\<close>

text \<open>
  C18. Receiving a fault is safe: it yields only a badged message without capabilities whose label
  and registers decode, exactly, to the fault returned, with the reply authority recorded and not
  used; on every failure the kernel has been asked to answer the sender of the refused message with
  an empty one, by that one system call, and the endpoint can receive again, except the refusal
  while an earlier fault is unanswered, which changes nothing; no other endpoint error escapes, the
  count of unwrapped capabilities in an error about transferred capabilities is always zero, and
  the decoder itself never panics.
\<close>

theorem fault_receive_safe:
  "case fault_endpoint_receive K ep w of (r, v) \<Rightarrow> fault_contract K (fe_endpoint ep) w r v"
  using fault_receive_outcome by (auto split: prod.splits)

text \<open>
  Faults are answered: once a fault was received and then answered without a panic, the fault
  endpoint accepts the next receive.
\<close>

lemma fault_reply_reopens:
  assumes "fault_endpoint_receive K ep w = (Ok f, v)"
    and "fault_endpoint_reply K ep f v = ((Ok (), x) :: (unit, unit) res \<times> 'k world)"
  shows "flag_cells v (ep_pending (fe_endpoint ep)) \<and> \<not> flag_cells x (ep_pending (fe_endpoint ep)) \<and>
    fst (fault_endpoint_receive K ep v) = Err (FaultIpc ReplyPending) \<and>
    fst (fault_endpoint_receive K ep x) \<noteq> Err (FaultIpc ReplyPending)"
proof -
  from fault_receive_outcome [OF assms(1)] have pending: "flag_cells v (ep_pending (fe_endpoint ep))"
    and ep: "rm_endpoint (rf_received f) = fe_endpoint ep" by (simp_all add: fault_contract_def)
  from reply_cells [OF assms(2) [unfolded fault_endpoint_reply_def]] ep
  have "\<not> flag_cells x (ep_pending (fe_endpoint ep))" by simp
  with pending show ?thesis by (simp add: fault_refused_iff)
qed

lemma fault_reply_reopens_example:
  "let ep = \<lparr>fe_endpoint = \<lparr>ep_cap = 10, ep_pending = 0\<rparr>\<rparr>;
       vm = \<lparr>wt_thread = 4, wt_call = True, wt_badge = 7,
         wt_info = \<lparr>mi_label = 5, mi_caps_unwrapped = 0, mi_extra_caps = 0, mi_length = 4\<rparr>,
         wt_words = [0x1000, 0x2000, 0, 9]\<rparr>;
       w = ref_world [] ((\<lambda>_. [])(10 := [vm, vm]))
   in \<exists>f v x. fault_endpoint_receive ref_sel4 ep w = (Ok f, v) \<and>
        rf_fault f = VmFault \<lparr>vm_instruction_pointer = 0x1000, vm_address = 0x2000,
          vm_instruction_fault = False, vm_syndrome = 9\<rparr> \<and>
        fault_endpoint_reply ref_sel4 ep f v = ((Ok (), x) :: (unit, unit) res \<times> _) \<and>
        fst (fault_endpoint_receive ref_sel4 ep x) \<noteq> Err (FaultIpc ReplyPending)"
proof -
  let ?ep = "\<lparr>fe_endpoint = \<lparr>ep_cap = 10, ep_pending = 0\<rparr>\<rparr>"
  let ?vm = "\<lparr>wt_thread = 4, wt_call = True, wt_badge = 7,
         wt_info = \<lparr>mi_label = 5, mi_caps_unwrapped = 0, mi_extra_caps = 0, mi_length = 4\<rparr>,
         wt_words = [0x1000, 0x2000, 0, 9]\<rparr>"
  let ?w = "ref_world [] ((\<lambda>_. [])(10 := [?vm, ?vm]))"
  have "\<exists>f v x. fault_endpoint_receive ref_sel4 ?ep ?w = (Ok f, v) \<and>
      rf_fault f = VmFault \<lparr>vm_instruction_pointer = 0x1000, vm_address = 0x2000,
        vm_instruction_fault = False, vm_syndrome = 9\<rparr> \<and>
      fault_endpoint_reply ref_sel4 ?ep f v = ((Ok (), x) :: (unit, unit) res \<times> _)"
    by (simp add: fault_endpoint_receive_def pmap_err_def pbind_def receive_run configure_receive_path_def
        pmodify_def ref_recv_def ref_world_def deliver_run slot_ready_def slot_done_def message_received_def
        MESSAGE_CAPACITY_def EXTRA_CAPACITY_def message_empty_def slice_to_def copy_prefix_def set_buf_def
        set_flag_def badge_ok_def badge_new_def message_words_def fault_decode_def decode_vm_fault_def
        expect_length_def register_at_def decode_boolean_def pres_def pret_def Let_def
        fault_endpoint_reply_def received_message_reply_def message_empty_reply_def message_prepare_def
        invoke_def ref_reply_def packed_info_def)
  then obtain f v x where run: "fault_endpoint_receive ref_sel4 ?ep ?w = (Ok f, v)"
      "rf_fault f = VmFault \<lparr>vm_instruction_pointer = 0x1000, vm_address = 0x2000,
        vm_instruction_fault = False, vm_syndrome = 9\<rparr>"
      "fault_endpoint_reply ref_sel4 ?ep f v = ((Ok (), x) :: (unit, unit) res \<times> _)" by blast
  with fault_reply_reopens [OF run(1,3)] show ?thesis unfolding Let_def by blast
qed

end
