(* ===== verification/Task.thy ===== *)
theory Task
  imports Thread Task_Layout Fault_Endpoint
begin

text \<open>
  The platform part of task.rs: the construction of an isolated task from a CSpace, a VSpace,
  private frames and a TCB, rolled back as a whole when any step fails, and the operations on a
  constructed task.
\<close>

section \<open>Configuration and task\<close>

record shared_code =
  sc_frame :: frame
  sc_address :: usize
  sc_entry :: usize

record task_config =
  tk_cspace_size_bits :: usize
  tk_code :: shared_code
  tk_private_memory_address :: usize
  tk_stack_address :: usize
  tk_ipc_buffer_address :: usize
  tk_reserved_pages :: "usize list"
  tk_initial_arguments :: "usize list"
  tk_delegated_capabilities :: "delegated_capability list"
  tk_fault_route :: "fault_route option"

record task =
  tsk_thread :: thread
  tsk_cspace :: cspace
  tsk_vspace :: vspace
  tsk_private_memory :: frame
  tsk_stack :: frame
  tsk_ipc_buffer :: frame
  tsk_root_slots :: usize_range

section \<open>Operations on a task\<close>

definition task_start :: "'k sel4 \<Rightarrow> task \<Rightarrow> ('k world, unit, bootstrap_error) prog" where
  "task_start K t = thread_start K (tsk_thread t)"

definition task_suspend :: "'k sel4 \<Rightarrow> task \<Rightarrow> ('k world, unit, bootstrap_error) prog" where
  "task_suspend K t = thread_suspend K (tsk_thread t)"

definition task_resume :: "'k sel4 \<Rightarrow> task \<Rightarrow> ('k world, unit, bootstrap_error) prog" where
  "task_resume K t = thread_start K (tsk_thread t)"

definition task_read_registers :: "'k sel4 \<Rightarrow> task \<Rightarrow> ('k world, registers, bootstrap_error) prog" where
  "task_read_registers K t = thread_read_registers K (tsk_thread t)"

definition task_write_registers ::
  "'k sel4 \<Rightarrow> task \<Rightarrow> registers \<Rightarrow> ('k world, unit, bootstrap_error) prog" where
  "task_write_registers K t r = thread_write_registers K (tsk_thread t) r"

text \<open>\<open>next\<close> of a range, and \<open>filter\<close> of an option by a constant condition.\<close>

definition committed_since :: "usize \<Rightarrow> ('k boot_state, usize_range, bootstrap_error) prog" where
  "committed_since checkpoint = (\<lambda>(b, w). (bootstrap_committed_slots b checkpoint, (b, w)))"

definition single_slot :: "usize_range \<Rightarrow> usize option" where
  "single_slot slots = (case (if range_is_empty slots then None else Some (range_start slots)) of
       None \<Rightarrow> None
     | Some slot \<Rightarrow> if range_len slots = 1 then Some slot else None)"

definition task_map_recovery_frame ::
  "'k sel4 \<Rightarrow> task \<Rightarrow> frame \<Rightarrow> usize \<Rightarrow> ('k boot_state, task_mapping, bootstrap_error) prog" where
  "task_map_recovery_frame K t f address = (\<lambda>(b, w).
     let checkpoint = bootstrap_checkpoint b in
     case vspace_map_frame K (tsk_vspace t) f address RightsReadWrite (b, w) of
       (Ok mapping, s) \<Rightarrow>
         pbind (committed_since checkpoint) (\<lambda>slots.
         pbind (pres (ok_or RollbackFailed (single_slot slots))) (\<lambda>root_slot.
         pret \<lparr>tm_mapping = mapping, tm_root_slot = root_slot\<rparr>)) s
     | (Err e, s) \<Rightarrow> pbind (bootstrap_rollback K checkpoint) (\<lambda>_. pfail e) s
     | (Panic, s) \<Rightarrow> (Panic, s))"

definition task_receive_slot :: "task \<Rightarrow> usize \<Rightarrow> ('k world, receive_slot, ipc_error) prog" where
  "task_receive_slot t index = cspace_receive_slot (tsk_cspace t) index"

section \<open>Construction\<close>

definition task_fault_cptr :: "'k sel4 \<Rightarrow> fault_route option \<Rightarrow> (cptr, bootstrap_error) res" where
  "task_fault_cptr K route = (case route of
       Some r \<Rightarrow> map_err (\<lambda>_. InvalidTaskConfiguration) (try_into_word (fault_route_child_slot r))
     | None \<Rightarrow> Ok (null_cptr K))"

definition create_task_inner ::
  "'k sel4 \<Rightarrow> task_config \<Rightarrow> task_layout \<Rightarrow> usize \<Rightarrow> ('k boot_state, task, bootstrap_error) prog" where
  "create_task_inner K config layout checkpoint =
     pbind (cspace_create K (tk_cspace_size_bits config) (tk_delegated_capabilities config)
       (tk_fault_route config)) (\<lambda>cspace.
     let page_addresses = [sc_address (tk_code config), tk_private_memory_address config,
       tk_stack_address config, tk_ipc_buffer_address config] in
     pbind (vspace_create K page_addresses (tk_reserved_pages config)) (\<lambda>vspace.
     pbind (vspace_map_frame K vspace (sc_frame (tk_code config)) (sc_address (tk_code config))
       RightsReadOnly) (\<lambda>_.
     pbind (bootstrap_allocate_frame K) (\<lambda>private_memory.
     pbind (vspace_map_frame K vspace (Frame private_memory) (tk_private_memory_address config)
       RightsReadWrite) (\<lambda>_.
     pbind (bootstrap_allocate_frame K) (\<lambda>stack.
     pbind (vspace_map_frame K vspace (Frame stack) (tk_stack_address config) RightsReadWrite) (\<lambda>_.
     pbind (bootstrap_allocate_frame K) (\<lambda>ipc_buffer.
     pbind (vspace_map_frame K vspace (Frame ipc_buffer) (tk_ipc_buffer_address config)
       RightsReadWrite) (\<lambda>ipc_buffer_mapping.
     pbind (pres (task_fault_cptr K (tk_fault_route config))) (\<lambda>fault_endpoint.
     pbind (thread_create K cspace vspace
       \<lparr>tc_ipc_buffer_address = tk_ipc_buffer_address config,
        tc_ipc_buffer_mapping = ipc_buffer_mapping,
        tc_entry = sc_entry (tk_code config),
        tc_stack_pointer = tl_stack_pointer layout,
        tc_arguments = tk_initial_arguments config,
        tc_fault_endpoint = fault_endpoint\<rparr>) (\<lambda>thread.
     pbind (committed_since checkpoint) (\<lambda>root_slots.
     pret \<lparr>tsk_thread = thread, tsk_cspace = cspace, tsk_vspace = vspace,
       tsk_private_memory = Frame private_memory, tsk_stack = Frame stack,
       tsk_ipc_buffer = Frame ipc_buffer, tsk_root_slots = root_slots\<rparr>))))))))))))"

definition create_task :: "'k sel4 \<Rightarrow> task_config \<Rightarrow> ('k boot_state, task, bootstrap_error) prog" where
  "create_task K config = (\<lambda>(b, w).
     pbind (pres (map_err (\<lambda>_. InvalidTaskConfiguration)
       (layout_validate (GRANULE_BYTES K) (sc_address (tk_code config)) (sc_entry (tk_code config))
         (tk_private_memory_address config) (tk_stack_address config) (tk_ipc_buffer_address config)
         (tk_reserved_pages config)))) (\<lambda>layout s.
     let checkpoint = bootstrap_checkpoint b in
     case create_task_inner K config layout checkpoint s of
       (Ok task, t) \<Rightarrow> (Ok task, t)
     | (Err e, t) \<Rightarrow> (case bootstrap_rollback K checkpoint t of
           (Ok _, u) \<Rightarrow> (Err e, u)
         | (Err _, u) \<Rightarrow> (Err RollbackFailed, u)
         | (Panic, u) \<Rightarrow> (Panic, u))
     | (Panic, t) \<Rightarrow> (Panic, t)) (b, w))"

section \<open>The ledger and the count\<close>

lemma keeps_committed_since: "keeps (boot_ledger view) (committed_since checkpoint)"
  by (rule keepsI) (auto simp: committed_since_def intro: boot_ledger.R_refl)

lemma keeps_create_task_inner:
  assumes "kernel_ok K view"
  shows "keeps (boot_ledger view) (create_task_inner K config layout checkpoint)"
  unfolding create_task_inner_def Let_def
  by (intro boot_ledger.keeps_intros keeps_cspace_create keeps_vspace_create keeps_map_frame
      keeps_allocate_frame keeps_thread_create keeps_committed_since assms)

abbreviation task_pages :: "task_config \<Rightarrow> usize list" where
  "task_pages config \<equiv> [sc_address (tk_code config), tk_private_memory_address config,
     tk_stack_address config, tk_ipc_buffer_address config] @ tk_reserved_pages config"

lemma advances_committed_since: "advances 0 (committed_since checkpoint)"
  by (simp add: advances_def committed_since_def)

text \<open>Ten root slots and one for each translation table.\<close>

lemma advances_create_task_inner:
  assumes "levels_ok K"
  shows "advances (10 + length (table_plan K (task_pages config))) (create_task_inner K config layout checkpoint)"
proof -
  let ?n = "length (table_plan K (task_pages config))"
  have "advances (1 + (Suc ?n + (1 + (1 + (1 + (1 + (1 + (1 + (1 + (0 + (1 + (0 + 0))))))))))))
      (create_task_inner K config layout checkpoint)"
    unfolding create_task_inner_def Let_def
    by (intro advances_pbind advances_cspace_create advances_vspace_create advances_map_frame
        advances_allocations(1) advances_thread_create advances_pres advances_committed_since
        advances_pret assms)
  moreover have "1 + (Suc ?n + (1 + (1 + (1 + (1 + (1 + (1 + (1 + (0 + (1 + (0 + 0))))))))))) = 10 + ?n" by simp
  ultimately show ?thesis by (simp only:)
qed

lemma create_task_run:
  "create_task K config (b, w) =
    (case layout_validate (GRANULE_BYTES K) (sc_address (tk_code config)) (sc_entry (tk_code config))
         (tk_private_memory_address config) (tk_stack_address config) (tk_ipc_buffer_address config)
         (tk_reserved_pages config) of
       Ok layout \<Rightarrow> (case create_task_inner K config layout (bootstrap_checkpoint b) (b, w) of
           (Err e, t) \<Rightarrow> (case bootstrap_rollback K (bootstrap_checkpoint b) t of
               (Ok _, u) \<Rightarrow> (Err e, u)
             | (Err _, u) \<Rightarrow> (Err RollbackFailed, u)
             | (Panic, u) \<Rightarrow> (Panic, u))
         | (r, t) \<Rightarrow> (r, t))
     | Err _ \<Rightarrow> (Err InvalidTaskConfiguration, (b, w))
     | Panic \<Rightarrow> (Panic, (b, w)))"
  by (auto simp: create_task_def pbind_def pres_def Let_def split: res.splits prod.splits)

text \<open>A construction that keeps the ledger, undone on failure, is atomic.\<close>

lemma undone_on_failure:
  assumes laws: "root_slot_laws K occ"
    and inv: "fs_first (bt_slots b) \<le> fs_start (bt_slots b)"
      "occupied_slots occ w \<inter> {fs_start (bt_slots b) ..< fs_end (bt_slots b)} = {}"
    and led: "boot_ledger (Some occ) (b, w) (c, v)"
    and roll: "bootstrap_rollback K (bootstrap_checkpoint b) (c, v) = (Ok a, (d, u))"
  shows "d = b \<and> occupied_slots occ u = occupied_slots occ w"
proof -
  have "kernel_ok K (Some occ)" using laws by (simp add: kernel_ok_def)
  moreover have "bootstrap_rollback K (bootstrap_checkpoint b) (c, v) = (Ok (), (d, u))" using roll by simp
  ultimately show ?thesis using rollback_after(1) [OF led inv(1), of K d u]
    rollback_after(2) [OF led inv(1), where K = K and d = d and u = u and occ = occ] inv(2) by blast
qed

lemma committed_since_run:
  assumes "committed_since (bootstrap_checkpoint b) (c, v) = (Ok slots, t)"
  shows "slots = \<lparr>range_start = bootstrap_checkpoint b, range_end = bootstrap_checkpoint c\<rparr> \<and> t = (c, v)"
  using assms
  by (auto simp: committed_since_def bootstrap_committed_slots_def free_slots_allocated_since_def
      bootstrap_checkpoint_def free_slots_checkpoint_def split: if_splits)

lemma create_task_inner_Ok:
  assumes "create_task_inner K config layout (bootstrap_checkpoint b) (b, w) = (Ok t, (c, v))"
  shows "tsk_root_slots t = \<lparr>range_start = bootstrap_checkpoint b, range_end = bootstrap_checkpoint c\<rparr>"
  using assms unfolding create_task_inner_def Let_def
  by (auto simp: pbind_Ok pret_def dest: committed_since_run)

lemma create_task_slots:
  "create_task K config (b, w) = (Ok t, (c, v)) \<Longrightarrow>
     tsk_root_slots t = \<lparr>range_start = bootstrap_checkpoint b, range_end = bootstrap_checkpoint c\<rparr>"
  by (auto simp: create_task_run dest: create_task_inner_Ok split: res.splits prod.splits)

section \<open>Accounting\<close>

text \<open>
  What a construction leaves behind: the allocator only moved forward; on success exactly the slots
  it passed are newly occupied; after a failure other than of the rollback nothing changed; and
  after a failed rollback some of the slots passed may be occupied, none of them free for reuse.
\<close>

definition accounted :: "('k \<Rightarrow> usize set) \<Rightarrow> 'k boot_state \<Rightarrow> ('a, bootstrap_error) res \<Rightarrow> 'k boot_state \<Rightarrow> bool" where
  "accounted occ = (\<lambda>(b, w) r (c, v).
     let new = {bootstrap_checkpoint b ..< bootstrap_checkpoint c} in
     boot_ledger None (b, w) (c, v) \<and>
     (case r of
        Ok _ \<Rightarrow> occupied_slots occ v = occupied_slots occ w \<union> new
      | Err e \<Rightarrow> if e = RollbackFailed
          then occupied_slots occ w \<subseteq> occupied_slots occ v \<and> occupied_slots occ v \<subseteq> occupied_slots occ w \<union> new
          else c = b \<and> occupied_slots occ v = occupied_slots occ w
      | Panic \<Rightarrow> True))"

lemma ledger_forget: "boot_ledger view s t \<Longrightarrow> boot_ledger None s t"
  by (auto simp: boot_ledger_def ledger_def)

lemma delete_root_slots_within:
  assumes "root_slot_laws K occ" and "delete_root_slots K slots w = (r, v)"
  shows "occupied_slots occ w - set (range_list slots) \<subseteq> occupied_slots occ v \<and>
    occupied_slots occ v \<subseteq> occupied_slots occ w"
proof -
  have "pfor xs (\<lambda>index. pmap_err (\<lambda>_. RollbackFailed)
      (syscall (cnode_delete K (AbsCPtr (init_cnode K) (slot_cptr K index))))) w = (r, v) \<Longrightarrow>
      occupied_slots occ w - set xs \<subseteq> occupied_slots occ v \<and> occupied_slots occ v \<subseteq> occupied_slots occ w" for xs w
  proof (induction xs arbitrary: w)
    case (Cons x xs)
    let ?del = "syscall (cnode_delete K (AbsCPtr (init_cnode K) (slot_cptr K x)))"
    obtain y u where del: "?del w = (y, u)" by fastforce
    from empties_syscall [OF law_delete [OF assms(1)] del]
    have one: "occupied_slots occ w - {x} \<subseteq> occupied_slots occ u" "occupied_slots occ u \<subseteq> occupied_slots occ w"
      by auto
    from Cons.prems Cons.IH [of u] del one show ?case
      by (cases y) (auto simp: pbind_def pmap_err_run [of ?del, OF del])
  qed (simp add: pret_def)
  from this [of "rev (range_list slots)"] assms(2) show ?thesis by (simp add: delete_root_slots_def)
qed

lemma accounted_rollback:
  assumes laws: "root_slot_laws K occ"
    and inv: "fs_first (bt_slots b) \<le> fs_start (bt_slots b)"
      "occupied_slots occ w \<inter> {fs_start (bt_slots b) ..< fs_end (bt_slots b)} = {}"
    and led: "boot_ledger (Some occ) (b, w) (d, u)"
    and roll: "bootstrap_rollback K (bootstrap_checkpoint b) (d, u) = (y, (f, z))"
  shows "case y of
      Ok _ \<Rightarrow> f = b \<and> occupied_slots occ z = occupied_slots occ w
    | Err e \<Rightarrow> e = RollbackFailed \<and> accounted occ (b, w) (Err RollbackFailed :: ('x, bootstrap_error) res) (f, z)
    | Panic \<Rightarrow> True"
proof (cases y)
  case (Ok a)
  with undone_on_failure [OF laws inv led] roll show ?thesis by simp
next
  case (Err e)
  with rollback_cases [OF roll] have e: "e = RollbackFailed" and f: "f = d" by simp_all
  let ?cp = "bootstrap_checkpoint b"
  from led inv(2) have occ: "occupied_slots occ u = occupied_slots occ w \<union> {?cp ..< bootstrap_checkpoint d}"
    and le: "?cp \<le> bootstrap_checkpoint d"
    by (simp_all add: boot_ledger_def ledger_def bootstrap_checkpoint_def free_slots_checkpoint_def)
  have new: "occupied_slots occ w \<inter> {?cp ..< bootstrap_checkpoint d} = {}"
    using led inv(2) by (auto simp: boot_ledger_def ledger_def bootstrap_checkpoint_def
        free_slots_checkpoint_def disjoint_iff)
  let ?slots = "\<lparr>range_start = ?cp, range_end = bootstrap_checkpoint d\<rparr>"
  obtain x v where del: "delete_root_slots K ?slots u = (x, v)" by fastforce
  have z: "z = v \<or> z = u"
    using roll del Err le
    by (auto simp: bootstrap_rollback_def bootstrap_committed_slots_def free_slots_allocated_since_def
        pbind_def on_world_def bootstrap_checkpoint_def free_slots_checkpoint_def
        split: if_splits res.splits prod.splits)
  have "occupied_slots occ u - {?cp ..< bootstrap_checkpoint d} = occupied_slots occ w"
    using occ new by blast
  with delete_root_slots_within [OF laws del] occ z
  have "occupied_slots occ w \<subseteq> occupied_slots occ z"
    "occupied_slots occ z \<subseteq> occupied_slots occ w \<union> {?cp ..< bootstrap_checkpoint d}"
    by (auto simp: set_range_list)
  moreover have "boot_ledger None (b, w) (d, z)"
    using ledger_forget [OF led] by (simp add: boot_ledger_def ledger_def)
  ultimately show ?thesis using Err e f by (simp add: accounted_def Let_def)
qed simp

lemma accounted_Ok:
  assumes "boot_ledger (Some occ) (b, w) (c, v)"
    and "occupied_slots occ w \<inter> {fs_start (bt_slots b) ..< fs_end (bt_slots b)} = {}"
  shows "accounted occ (b, w) (Ok a :: ('a, bootstrap_error) res) (c, v)"
  using assms ledger_forget [OF assms(1)]
  by (simp add: accounted_def boot_ledger_def ledger_def bootstrap_checkpoint_def free_slots_checkpoint_def)

lemma accounted_refl:
  "e \<noteq> RollbackFailed \<Longrightarrow> accounted occ s (Err e) s"
  "accounted occ s (Err e) s"
  by (cases s; simp add: accounted_def boot_ledger.R_refl)+

lemma accounted_undo:
  assumes laws: "root_slot_laws K occ"
    and inv: "fs_first (bt_slots b) \<le> fs_start (bt_slots b)"
      "occupied_slots occ w \<inter> {fs_start (bt_slots b) ..< fs_end (bt_slots b)} = {}"
    and led: "boot_ledger (Some occ) (b, w) (d, u)"
    and roll: "bootstrap_rollback K (bootstrap_checkpoint b) (d, u) = (y, (f, z))"
    and r: "(r :: ('x, bootstrap_error) res) = (case y of Ok _ \<Rightarrow> Err e | Err _ \<Rightarrow> Err RollbackFailed | Panic \<Rightarrow> Panic)"
  shows "accounted occ (b, w) r (f, z)"
proof (cases y)
  case (Ok a)
  with accounted_rollback [OF laws inv led roll, where 'x = 'x] r show ?thesis
    by (simp add: accounted_def boot_ledger_def ledger_def)
next
  case (Err e)
  with accounted_rollback [OF laws inv led roll, where 'x = 'x] r show ?thesis by simp
next
  case Panic
  with rollback_cases [OF roll] have "f = d" by simp
  with r Panic ledger_forget [OF led] show ?thesis by (simp add: accounted_def boot_ledger_def ledger_def)
qed

lemma accounted_create_task:
  assumes laws: "root_slot_laws K occ"
    and inv: "fs_first (bt_slots b) \<le> fs_start (bt_slots b)"
      "occupied_slots occ w \<inter> {fs_start (bt_slots b) ..< fs_end (bt_slots b)} = {}"
    and run: "create_task K config (b, w) = (r, (c, v))"
  shows "accounted occ (b, w) r (c, v)"
proof (cases "layout_validate (GRANULE_BYTES K) (sc_address (tk_code config)) (sc_entry (tk_code config))
    (tk_private_memory_address config) (tk_stack_address config) (tk_ipc_buffer_address config)
    (tk_reserved_pages config)")
  case (Ok l)
  obtain x d u where inner: "create_task_inner K config l (bootstrap_checkpoint b) (b, w) = (x, (d, u))"
    by (metis prod.exhaust)
  have "kernel_ok K (Some occ)" using laws by (simp add: kernel_ok_def)
  from keepsD [OF keeps_create_task_inner [OF this] inner]
  have led: "boot_ledger (Some occ) (b, w) (d, u)" .
  show ?thesis
  proof (cases x)
    case ok: (Ok t)
    with run inner Ok have "r = Ok t" "d = c" "u = v" by (simp_all add: create_task_run)
    with accounted_Ok [OF led inv(2), of t] show ?thesis by simp
  next
    case (Err e)
    obtain y f z where roll: "bootstrap_rollback K (bootstrap_checkpoint b) (d, u) = (y, (f, z))"
      by (metis prod.exhaust)
    with run inner Ok Err
    have "r = (case y of Ok _ \<Rightarrow> Err e | Err _ \<Rightarrow> Err RollbackFailed | Panic \<Rightarrow> Panic) \<and> (c, v) = (f, z)"
      by (cases y) (simp_all add: create_task_run)
    with accounted_undo [OF laws inv led roll, of r e] show ?thesis by simp
  next
    case Panic
    with run inner Ok ledger_forget [OF led] show ?thesis by (simp add: create_task_run accounted_def)
  qed
qed (use run in \<open>auto simp: create_task_run accounted_refl accounted_def boot_ledger.R_refl\<close>)

section \<open>Where the resources are\<close>

text \<open>One allocation: the capability of the slot at the position, and the position after it.\<close>

definition at_slot :: "'k sel4 \<Rightarrow> bootstrap \<Rightarrow> bootstrap \<Rightarrow> cptr \<Rightarrow> bool" where
  "at_slot K b c cap \<longleftrightarrow> cap = slot_cptr K (bootstrap_checkpoint b) \<and>
     unat (bootstrap_checkpoint c) = unat (bootstrap_checkpoint b) + 1"

lemma one_slot_at:
  "one_slot K occ m \<Longrightarrow> m (b, w) = (Ok cap, (c, v)) \<Longrightarrow> at_slot K b c cap"
  using one_slotD [of K occ m b w cap c v] by (simp add: at_slot_def)

lemma allocations_at:
  assumes "root_slot_laws K occ"
  shows "bootstrap_allocate_frame K (b, w) = (Ok cap, (c, v)) \<Longrightarrow> at_slot K b c cap"
    and "bootstrap_allocate_object K bp (b, w) = (Ok cap, (c, v)) \<Longrightarrow> at_slot K b c cap"
    and "bootstrap_allocate_variable_object K mk n (b, w) = (Ok cap, (c, v)) \<Longrightarrow> at_slot K b c cap"
    and "bootstrap_copy_cap K source rights (b, w) = (Ok cap, (c, v)) \<Longrightarrow> at_slot K b c cap"
  using one_slot_at [OF one_slot_allocate(1) [OF assms]] one_slot_at [OF one_slot_allocate(2) [OF assms]]
  by (auto simp: bootstrap_allocate_frame_def bootstrap_allocate_object_def object_allocate_def
      bootstrap_allocate_variable_object_def object_allocate_variable_def bootstrap_allocate_blueprint_def)

lemma parts_at:
  assumes "root_slot_laws K occ"
  shows "cspace_create K s caps route (b, w) = (Ok cs, (c, v)) \<Longrightarrow> at_slot K b c (cs_root cs)"
    and "vspace_map_frame K vs f address rights (b, w) = (Ok cap, (c, v)) \<Longrightarrow> at_slot K b c cap"
    and "thread_create K cs vs config (b, w) = (Ok t, (c, v)) \<Longrightarrow> at_slot K b c (thread_tcb t)"
  using allocations_at [OF assms] map_frame_Ok [of K vs f address rights b w cap c v]
  by (auto simp: thread_create_def pbind_Ok pres_def on_world_Ok pret_def dest!: create_Ok)

lemma vspace_at:
  assumes "root_slot_laws K occ" and "levels_ok K"
    and "vspace_create K pages reserved (b, w) = (Ok vs, (c, v))"
  shows "vs_root vs = slot_cptr K (bootstrap_checkpoint b) \<and> unat (bootstrap_checkpoint c) =
    unat (bootstrap_checkpoint b) + Suc (length (table_plan K (pages @ reserved)))"
proof -
  from assms(3) obtain d u where "bootstrap_allocate_object K VSpaceBp (b, w) = (Ok (vs_root vs), (d, u))"
    by (auto simp: vspace_create_def pbind_Ok pret_def Let_def)
  from allocations_at(2) [OF assms(1) this] have "vs_root vs = slot_cptr K (bootstrap_checkpoint b)"
    by (simp add: at_slot_def)
  with advances_vspace_create [OF assms(2), of pages reserved] assms(3) show ?thesis
    unfolding advances_def by blast
qed

lemma slot_at_offset: "unat x = unat p + k \<Longrightarrow> x = p + of_nat k" for x p :: usize
proof -
  assume "unat x = unat p + k"
  then have "(of_nat (unat x) :: usize) = of_nat (unat p) + of_nat k" by simp
  then show ?thesis by simp
qed

lemma task_slots:
  fixes config :: task_config and K :: "'k sel4"
  defines "n \<equiv> length (table_plan K (task_pages config))"
  assumes laws: "root_slot_laws K occ" and levels: "levels_ok K"
    and run: "create_task_inner K config layout (bootstrap_checkpoint b) (b, w) = (Ok t, (c, v))"
  shows "cs_root (tsk_cspace t) = slot_cptr K (bootstrap_checkpoint b) \<and>
    vs_root (tsk_vspace t) = slot_cptr K (bootstrap_checkpoint b + 1) \<and>
    frame_cap (tsk_private_memory t) = slot_cptr K (bootstrap_checkpoint b + of_nat (n + 3)) \<and>
    frame_cap (tsk_stack t) = slot_cptr K (bootstrap_checkpoint b + of_nat (n + 5)) \<and>
    frame_cap (tsk_ipc_buffer t) = slot_cptr K (bootstrap_checkpoint b + of_nat (n + 7)) \<and>
    thread_tcb (tsk_thread t) = slot_cptr K (bootstrap_checkpoint b + of_nat (n + 9))"
proof -
  from run obtain b1 b2 b3 b4 b5 b6 b7 b8 b9 w1 w2 w3 w4 w5 w6 w7 w8 w9 w10 vs m1 m2 m3 m4 priv stack ipc tcb cfg x
    where steps:
      "cspace_create K (tk_cspace_size_bits config) (tk_delegated_capabilities config) (tk_fault_route config)
        (b, w) = (Ok (tsk_cspace t), (b1, w1))"
      "vspace_create K [sc_address (tk_code config), tk_private_memory_address config, tk_stack_address config,
        tk_ipc_buffer_address config] (tk_reserved_pages config) (b1, w1) = (Ok vs, (b2, w2))"
      "vspace_map_frame K vs (sc_frame (tk_code config)) (sc_address (tk_code config)) RightsReadOnly
        (b2, w2) = (Ok m1, (b3, w3))"
      "bootstrap_allocate_frame K (b3, w3) = (Ok priv, (b4, w4))"
      "vspace_map_frame K vs (Frame priv) (tk_private_memory_address config) RightsReadWrite
        (b4, w4) = (Ok m2, (b5, w5))"
      "bootstrap_allocate_frame K (b5, w5) = (Ok stack, (b6, w6))"
      "vspace_map_frame K vs (Frame stack) (tk_stack_address config) RightsReadWrite (b6, w6) = (Ok m3, (b7, w7))"
      "bootstrap_allocate_frame K (b7, w7) = (Ok ipc, (b8, w8))"
      "vspace_map_frame K vs (Frame ipc) (tk_ipc_buffer_address config) RightsReadWrite (b8, w8) = (Ok m4, (b9, w9))"
      "thread_create K (tsk_cspace t) vs cfg (b9, w9) = (Ok (Thread tcb), x)"
    and t: "tsk_vspace t = vs" "tsk_private_memory t = Frame priv" "tsk_stack t = Frame stack"
      "tsk_ipc_buffer t = Frame ipc" "tsk_thread t = Thread tcb"
    unfolding create_task_inner_def Let_def
    by (auto simp: pbind_Ok pret_def pres_def) (metis thread.exhaust)
  obtain d y where x: "x = (d, y)" by fastforce
  note at = parts_at(1) [OF laws steps(1)] parts_at(2) [OF laws steps(3)] allocations_at(1) [OF laws steps(4)]
    parts_at(2) [OF laws steps(5)] allocations_at(1) [OF laws steps(6)] parts_at(2) [OF laws steps(7)]
    allocations_at(1) [OF laws steps(8)] parts_at(2) [OF laws steps(9)]
    parts_at(3) [OF laws steps(10) [unfolded x]]
  note vs = vspace_at [OF laws levels steps(2), folded n_def]
  let ?p = "unat (bootstrap_checkpoint b)"
  have pos: "unat (bootstrap_checkpoint b1) = ?p + 1" "unat (bootstrap_checkpoint b3) = ?p + (n + 3)"
    "unat (bootstrap_checkpoint b5) = ?p + (n + 5)" "unat (bootstrap_checkpoint b7) = ?p + (n + 7)"
    "unat (bootstrap_checkpoint b9) = ?p + (n + 9)"
    using at vs by (simp_all add: at_slot_def)
  note slots = slot_at_offset [OF pos(1)] slot_at_offset [OF pos(2)] slot_at_offset [OF pos(3)]
    slot_at_offset [OF pos(4)] slot_at_offset [OF pos(5)]
  show ?thesis using at vs unfolding at_slot_def t slots [symmetric] by (simp add: slots)
qed

text \<open>The mapping of a recovery frame, by its one slot.\<close>

lemma map_recovery_frame_Ok:
  assumes "root_slot_laws K occ" and "task_map_recovery_frame K t f address (b, w) = (Ok m, (c, v))"
  shows "vspace_map_frame K (tsk_vspace t) f address RightsReadWrite (b, w) = (Ok (tm_mapping m), (c, v)) \<and>
    tm_root_slot m = bootstrap_checkpoint b \<and> tm_mapping m = slot_cptr K (tm_root_slot m) \<and>
    unat (bootstrap_checkpoint c) = Suc (unat (bootstrap_checkpoint b))"
proof -
  obtain x s where map: "vspace_map_frame K (tsk_vspace t) f address RightsReadWrite (b, w) = (x, s)"
    by (metis prod.exhaust)
  with assms(2) have x: "x = Ok (tm_mapping m)" and run: "pbind (committed_since (bootstrap_checkpoint b)) (\<lambda>slots.
      pbind (pres (ok_or RollbackFailed (single_slot slots))) (\<lambda>root_slot.
      pret \<lparr>tm_mapping = tm_mapping m, tm_root_slot = root_slot\<rparr>)) s = (Ok m, (c, v))"
    by (cases x; auto simp: task_map_recovery_frame_def Let_def pbind_Ok pret_def pfail_def)+
  obtain d u where s: "s = (d, u)" by fastforce
  from run s obtain slots slot where since: "committed_since (bootstrap_checkpoint b) (d, u) = (Ok slots, (c, v))"
    and "single_slot slots = Some slot" and "m = \<lparr>tm_mapping = tm_mapping m, tm_root_slot = slot\<rparr>"
    by (auto simp: pbind_Ok pres_def pret_def)
  moreover from this(3) have "tm_root_slot m = slot" by (metis task_mapping.select_convs(2))
  moreover note committed_since_run [OF since]
  moreover from parts_at(2) [OF assms(1) map [unfolded x s]]
  have "tm_mapping m = slot_cptr K (bootstrap_checkpoint b)"
    "unat (bootstrap_checkpoint d) = unat (bootstrap_checkpoint b) + 1" by (simp_all add: at_slot_def)
  ultimately show ?thesis
    using map x s by (auto simp: single_slot_def split: if_splits)
qed

lemma map_recovery_of_mapping:
  fixes K :: "'k sel4"
  assumes map: "vspace_map_frame K (tsk_vspace t) f address RightsReadWrite (b, w) = (Ok m, (d, u))"
    and first: "fs_first (bt_slots b) \<le> fs_start (bt_slots b)"
  shows "task_map_recovery_frame K t f address (b, w) =
    (Ok \<lparr>tm_mapping = m, tm_root_slot = bootstrap_checkpoint b\<rparr>, (d, u))"
proof -
  let ?slots = "\<lparr>range_start = bootstrap_checkpoint b, range_end = bootstrap_checkpoint d\<rparr>"
  have one: "unat (bootstrap_checkpoint d) = unat (bootstrap_checkpoint b) + 1"
    using advances_map_frame [of K "tsk_vspace t" f address RightsReadWrite] map unfolding advances_def by blast
  then have "single_slot ?slots = Some (bootstrap_checkpoint b)"
    by (simp add: single_slot_def range_is_empty_def range_len_def word_less_nat_alt)
  moreover have "kernel_ok K (None :: ('k \<Rightarrow> usize set) option)" by (simp add: kernel_ok_def)
  from keepsD [OF keeps_map_frame [OF this] map] first
  have "committed_since (bootstrap_checkpoint b) (d, u) = (Ok ?slots, (d, u))"
    by (auto simp: committed_since_def bootstrap_committed_slots_def free_slots_allocated_since_def
        bootstrap_checkpoint_def free_slots_checkpoint_def boot_ledger_def ledger_def)
  ultimately show ?thesis
    using map by (simp add: task_map_recovery_frame_def Let_def pbind_def pres_def pret_def)
qed

lemma accounted_map_recovery:
  assumes laws: "root_slot_laws K occ"
    and inv: "fs_first (bt_slots b) \<le> fs_start (bt_slots b)"
      "occupied_slots occ w \<inter> {fs_start (bt_slots b) ..< fs_end (bt_slots b)} = {}"
    and run: "task_map_recovery_frame K t f address (b, w) = (r, (c, v))"
  shows "accounted occ (b, w) r (c, v)"
proof -
  obtain x d u where map: "vspace_map_frame K (tsk_vspace t) f address RightsReadWrite (b, w) = (x, (d, u))"
    by (metis prod.exhaust)
  have "kernel_ok K (Some occ)" using laws by (simp add: kernel_ok_def)
  from keepsD [OF keeps_map_frame [OF this] map] have led: "boot_ledger (Some occ) (b, w) (d, u)" .
  show ?thesis
  proof (cases x)
    case (Ok m)
    from map_recovery_of_mapping [OF map [unfolded Ok] inv(1)] run have "\<exists>a. r = Ok a" "c = d" "v = u" by auto
    with accounted_Ok [OF led inv(2)] show ?thesis by auto
  next
    case (Err e)
    obtain y g z where roll: "bootstrap_rollback K (bootstrap_checkpoint b) (d, u) = (y, (g, z))"
      by (metis prod.exhaust)
    with run map Err rollback_cases [OF roll]
    have "r = (case y of Ok _ \<Rightarrow> Err e | Err _ \<Rightarrow> Err RollbackFailed | Panic \<Rightarrow> Panic) \<and> (c, v) = (g, z)"
      by (cases y) (simp_all add: task_map_recovery_frame_def Let_def pbind_def pfail_def)
    with accounted_undo [OF laws inv led roll, of r e] show ?thesis by simp
  next
    case Panic
    with run map ledger_forget [OF led] show ?thesis by (simp add: task_map_recovery_frame_def accounted_def)
  qed
qed

section \<open>A task on the reference kernel\<close>

text \<open>A configuration with one delegated capability and no fault route.\<close>

definition ref_config :: task_config where
  "ref_config = \<lparr>tk_cspace_size_bits = 3,
     tk_code = \<lparr>sc_frame = Frame 7, sc_address = 0x1000, sc_entry = 0x1000\<rparr>,
     tk_private_memory_address = 0x2000, tk_stack_address = 0x3000, tk_ipc_buffer_address = 0x4000,
     tk_reserved_pages = [0x200000], tk_initial_arguments = [1, 2, 3, 4],
     tk_delegated_capabilities = [delegated_new 7 5 RightsAll 0], tk_fault_route = None\<rparr>"

text \<open>
  The states construction passes through when nothing fails: slots from 100 up to the position in
  use, and memory for the rest.
\<close>

definition ref_ready :: "usize \<Rightarrow> ref_kernel boot_state \<Rightarrow> bool" where
  "ref_ready p = (\<lambda>(b, w). bt_bootinfo b = ref_bootinfo 100 130 \<and> fs_first (bt_slots b) = 100 \<and>
     fs_start (bt_slots b) = p \<and> fs_end (bt_slots b) = 130 \<and> 
     (\<forall>i. i \<in> set (rk_occ (kstate (mach w))) \<longleftrightarrow> i = 7 \<or> (100 \<le> i \<and> i < p)) \<and>
     200 \<le> rk_room (kstate (mach w)) 50 + unat p)"

lemma ref_ready_step:
  "100 \<le> p \<Longrightarrow> p < 130 \<Longrightarrow> (i = 7 \<or> (100 \<le> i \<and> i < p + 1)) \<longleftrightarrow> i = p \<or> i = 7 \<or> (100 \<le> i \<and> i < p)"
  for p i :: usize
  using checked_succ_below [of p 130] by (auto simp: word_less_nat_alt word_le_nat_alt word_unat_eq_iff)

lemma ref_ready_allocate:
  assumes "ref_ready p (b, w)" and "100 \<le> p" and "p < 130" and "physical_size_bits ref_sel4 bp \<le> 30"
  shows "\<exists>c v. bootstrap_allocate_blueprint ref_sel4 bp (b, w) = (Ok p, (c, v)) \<and> ref_ready (p + 1) (c, v)"
proof -
  have p: "p \<noteq> 7" "p \<noteq> 2" "unat (p + 1) = Suc (unat p)"
    using assms(2,3) checked_succ_below [of p 130] by (auto simp: word_less_nat_alt word_le_nat_alt)
  from assms(1) have ready: "bt_bootinfo b = ref_bootinfo 100 130" "fs_first (bt_slots b) = 100"
    "fs_start (bt_slots b) = p" "fs_end (bt_slots b) = 130"
    and occ: "\<And>i. i \<in> set (rk_occ (kstate (mach w))) \<longleftrightarrow> i = 7 \<or> (100 \<le> i \<and> i < p)"
    and room: "200 \<le> rk_room (kstate (mach w)) 50 + unat p"
    by (simp_all add: ref_ready_def)
  have some: "rk_room (kstate (mach w)) 50 \<noteq> 0" using room assms(3) by (simp add: word_less_nat_alt)
  let ?b = "b\<lparr>bt_slots := set_start (p + 1) (bt_slots b)\<rparr>"
  let ?w = "w\<lparr>mach := on_k (\<lambda>k. k\<lparr>rk_occ := p # rk_occ k, rk_room := (rk_room k)(50 := rk_room k 50 - 1)\<rparr>)
    (mach w)\<rparr>"
  have "bootstrap_allocate_blueprint ref_sel4 bp (b, w) = (Ok p, (?b, ?w))"
    using ready occ p some assms(3,4)
    by (simp add: bootstrap_allocate_blueprint_def on_slots_def
        object_allocate_blueprint_def pbind_def pres_def try_allocate_cases untyped_candidates_def
        retype_candidates.simps(2) syscall_def Let_def root_task_cnode_def ref_bootinfo_def not_less)
  moreover have "200 \<le> rk_room (kstate (mach w)) 50 - 1 + unat (p + 1)" using room p(3) some by linarith
  then have "ref_ready (p + 1) (?b, ?w)"
    using ready occ ref_ready_step [OF assms(2,3)] by (simp add: ref_ready_def)
  ultimately show ?thesis by blast
qed

lemma ref_ready_copy:
  assumes "ref_ready p (b, w)" and "100 \<le> p" and "p < 130" and "src = 7 \<or> (100 \<le> src \<and> src < p)"
  shows "\<exists>c v. bootstrap_copy_cap ref_sel4 src rights (b, w) = (Ok p, (c, v)) \<and> ref_ready (p + 1) (c, v)"
proof -
  have p: "p \<noteq> 7" "p \<noteq> 2" "unat p < 130" "unat (p + 1) = Suc (unat p)" 
    using assms(2,3) checked_succ_below [of p 130] by (auto simp: word_less_nat_alt word_le_nat_alt)
  with assms ref_ready_step [OF assms(2,3)] show ?thesis
    by (simp add: ref_ready_def bootstrap_copy_cap_def on_slots_def copy_to_root_def
        pbind_def pres_def pret_def pmap_err_def try_allocate_cases syscall_def Let_def not_less)
qed

lemma ref_ready_frame:
  assumes "ref_ready p (b, w)" and "100 \<le> p" and "p < 130"
  shows "\<exists>c v. bootstrap_allocate_frame ref_sel4 (b, w) = (Ok p, (c, v)) \<and> ref_ready (p + 1) (c, v)"
  using ref_ready_allocate [OF assms, of GranuleBp]
  by (simp add: bootstrap_allocate_frame_def bootstrap_allocate_blueprint_def object_allocate_def ref_sel4_def)

lemma ref_ready_map:
  assumes "ref_ready p (b, w)" and "100 \<le> p" and "p < 130" and "src = 7 \<or> (100 \<le> src \<and> src < p)"
    and "address mod 4096 = 0"
  shows "\<exists>c v. vspace_map_frame ref_sel4 vs (Frame src) address rights (b, w) = (Ok p, (c, v)) \<and>
    ref_ready (p + 1) (c, v)"
  using ref_ready_copy [OF assms(1-4), of rights] assms(5)
  by (auto simp: vspace_map_frame_def is_multiple_of_def pbind_def on_world_def pmap_err_def syscall_def pret_def)

lemma ref_ready_table:
  assumes "ref_ready p (b, w)" and "100 \<le> p" and "p < 130"
  shows "\<exists>c v. create_table ref_sel4 vs x (b, w) = (Ok (), (c, v)) \<and> ref_ready (p + 1) (c, v)"
  using ref_ready_allocate [OF assms, of "TableBp (fst x)"]
  by (cases x) (auto simp: create_table_def ref_sel4_def pbind_def on_world_def pmap_err_def syscall_def)

lemma ref_ready_vspace:
  assumes "ref_ready p (b, w)" and "100 \<le> p" and "unat p + Suc (length (table_plan ref_sel4 (pages @ reserved))) \<le> 130"
  shows "\<exists>vs c v. vspace_create ref_sel4 pages reserved (b, w) = (Ok vs, (c, v)) \<and>
    ref_ready (p + of_nat (Suc (length (table_plan ref_sel4 (pages @ reserved))))) (c, v)"
proof -
  have tables: "\<exists>c v. pfor xs (create_table ref_sel4 vs) (b, w) = (Ok (), (c, v)) \<and> ref_ready (q + of_nat (length xs)) (c, v)"
    if "ref_ready q (b, w)" "100 \<le> q" "unat q + length xs \<le> 130" for xs q b w vs
    using that
  proof (induction xs arbitrary: q b w)
    case Nil
    then show ?case by (simp add: pret_def)
  next
    case (Cons x xs)
    then have q: "q < 130" by (simp add: word_less_nat_alt)
    then have q1: "100 \<le> q + 1" "unat (q + 1) = Suc (unat q)"
      using Cons.prems(2) checked_succ_below [of q 130] by (auto simp: word_le_nat_alt)
    from ref_ready_table [OF Cons.prems(1,2) q] obtain c v where
      step: "create_table ref_sel4 vs x (b, w) = (Ok (), (c, v))" "ref_ready (q + 1) (c, v)" by blast
    from Cons.IH [OF step(2) q1(1)] Cons.prems(3) q1(2) step(1) show ?case
      by (simp add: pbind_def add.assoc)
  qed
  have p: "p < 130" using assms(3) by (simp add: word_less_nat_alt)
  then have p1: "100 \<le> p + 1" "unat (p + 1) = Suc (unat p)"
    using assms(2) checked_succ_below [of p 130] by (auto simp: word_le_nat_alt)
  from ref_ready_allocate [OF assms(1,2) p, of VSpaceBp] obtain c v where
    root: "bootstrap_allocate_object ref_sel4 VSpaceBp (b, w) = (Ok p, (c, v))" "ref_ready (p + 1) (c, v)"
    by (auto simp: bootstrap_allocate_object_def bootstrap_allocate_blueprint_def object_allocate_def ref_sel4_def)
  have levels: "levels_ok ref_sel4" by (auto simp: levels_ok_def ref_sel4_def)
  from tables [OF root(2) p1(1), of "table_plan ref_sel4 (pages @ reserved)" "\<lparr>vs_root = p\<rparr>"] assms(3) p1(2) root(1)
  show ?thesis
    by (auto simp: vspace_create_def map_translation_tables_plan [OF levels] pbind_def pret_def on_world_def
        pmap_err_def syscall_def add.assoc Let_def)
qed

lemma ref_power: "is_power_of_two (4096 :: usize)"
  by (simp add: is_power_of_two_def list_ex_iff) (rule bexI [of _ 12], simp_all)

lemma ref_layout:
  "layout_validate (GRANULE_BYTES ref_sel4) 0x1000 0x1000 0x2000 0x3000 0x4000 [0x200000] =
     Ok \<lparr>tl_stack_pointer = 0x4000\<rparr>"
  by (simp add: layout_validate_def ref_power check_pages.simps(2) is_multiple_of_def checked_add_def Let_def)

lemma ref_plan: "length (table_plan ref_sel4 (task_pages ref_config)) = 4"
  by (simp add: table_plan_def ref_sel4_def ref_config_def upt_conv_Cons)

lemma ref_ready_start: "ref_ready 100 (ref_boot 100 130, ref_world [7] (\<lambda>_. []))"
  by (auto simp: ref_ready_def ref_boot_def ref_world_def)

lemma ref_ready_mach:
  "ref_ready p (b, w) \<Longrightarrow> mach v = mach w \<Longrightarrow> ref_ready p (b, v)"
  by (simp add: ref_ready_def)

lemma ref_cspace:
  assumes "ref_ready 100 (b, w)"
  shows "\<exists>cs c v. cspace_create ref_sel4 3 [delegated_new 7 5 RightsAll 0] None (b, w) = (Ok cs, (c, v)) \<and>
    cs_size_bits cs = 3 \<and> ref_ready 101 (c, v)"
proof -
  from ref_ready_allocate [OF assms, of "CNodeBp 3"] obtain c u where
    a: "bootstrap_allocate_variable_object ref_sel4 CNodeBp 3 (b, w) = (Ok 100, (c, u))" "ref_ready 101 (c, u)"
    by (auto simp: bootstrap_allocate_variable_object_def bootstrap_allocate_blueprint_def
        object_allocate_variable_def ref_sel4_def)
  have occ: "7 \<in> set (rk_occ (kstate (mach u)))" using a(2) by (simp add: ref_ready_def)
  have ok: "cspace_validate ref_sel4 3 [delegated_new 7 5 RightsAll 0] None = Ok ()"
    by (simp add: cspace_validate_eq delegations_ok_def delegated_new_def)
  show ?thesis
    using a occ ok ref_ready_mach [OF a(2)]
    by (simp add: cspace_create_def pbind_def pres_def pret_def on_world_def cspace_capacity_eq try_new_eq
        fresh_cell_def pmodify_def Let_def cspace_install_def delegated_new_def try_into_word_def
        pmap_err_def syscall_def slot_tracker_mark_occupied_def slot_tracker_state_mut_def)
qed

lemma ref_thread:
  assumes "ref_ready p (b, w)" and "100 \<le> p" and "p < 130" and "cs_size_bits cs = 3" 
    and "length (tc_arguments cfg) \<le> 31"
  shows "\<exists>c v. thread_create ref_sel4 cs vs cfg (b, w) = (Ok (Thread p), (c, v)) \<and> ref_ready (p + 1) (c, v)"
proof -
  from ref_ready_allocate [OF assms(1-3), of TcbBp] obtain c u where
    a: "bootstrap_allocate_object ref_sel4 TcbBp (b, w) = (Ok p, (c, u))" "ref_ready (p + 1) (c, u)"
    by (auto simp: bootstrap_allocate_object_def bootstrap_allocate_blueprint_def object_allocate_def ref_sel4_def)
  have "\<exists>ctx. set_arguments 0 (tc_arguments cfg) (default_context ref_sel4\<lparr>uc_pc := x, uc_sp := y\<rparr>) = Ok ctx" for x y
    using assms(5) by (subst set_arguments_run) (simp_all add: ref_sel4_def)
  then obtain ctx where "set_arguments 0 (tc_arguments cfg)
      (default_context ref_sel4\<lparr>uc_pc := tc_entry cfg, uc_sp := tc_stack_pointer cfg\<rparr>) = Ok ctx" by blast
  with a assms(4) show ?thesis
    by (simp add: thread_create_def pbind_def pres_def pret_def try_into_word_def on_world_def
        pmap_err_def syscall_def cspace_root_data_def checked_sub_def)
qed

lemma ref_inner:
  "\<exists>t c v. create_task_inner ref_sel4 ref_config layout 100 (ref_boot 100 130, ref_world [7] (\<lambda>_. [])) = (Ok t, (c, v)) \<and>
     ref_ready 114 (c, v)"
proof -
  from ref_cspace [OF ref_ready_start] obtain cs b1 w1 where
    s1: "cspace_create ref_sel4 3 [delegated_new 7 5 RightsAll 0] None (ref_boot 100 130, ref_world [7] (\<lambda>_. [])) = (Ok cs, (b1, w1))"
      "cs_size_bits cs = 3" "ref_ready 101 (b1, w1)" by blast
  from ref_ready_vspace [OF s1(3), where pages = "[0x1000, 0x2000, 0x3000, 0x4000]" and reserved = "[0x200000]"] ref_plan obtain vs b2 w2 where
    s2: "vspace_create ref_sel4 [0x1000, 0x2000, 0x3000, 0x4000] [0x200000] (b1, w1) = (Ok vs, (b2, w2))"
      "ref_ready 106 (b2, w2)" by (auto simp: ref_config_def)
  from ref_ready_map [OF s2(2), where src = 7 and address = "0x1000" and vs = vs and rights = RightsReadOnly] obtain b3 w3 where
    s3: "vspace_map_frame ref_sel4 vs (Frame 7) 0x1000 RightsReadOnly (b2, w2) = (Ok 106, (b3, w3))" "ref_ready 107 (b3, w3)"
    by auto
  from ref_ready_frame [OF s3(2)] obtain b4 w4 where
    s4: "bootstrap_allocate_frame ref_sel4 (b3, w3) = (Ok 107, (b4, w4))" "ref_ready 108 (b4, w4)" by auto
  from ref_ready_map [OF s4(2), where src = 107 and address = "0x2000" and vs = vs and rights = RightsReadWrite] obtain b5 w5 where
    s5: "vspace_map_frame ref_sel4 vs (Frame 107) 0x2000 RightsReadWrite (b4, w4) = (Ok 108, (b5, w5))" "ref_ready 109 (b5, w5)"
    by auto
  from ref_ready_frame [OF s5(2)] obtain b6 w6 where
    s6: "bootstrap_allocate_frame ref_sel4 (b5, w5) = (Ok 109, (b6, w6))" "ref_ready 110 (b6, w6)" by auto
  from ref_ready_map [OF s6(2), where src = 109 and address = "0x3000" and vs = vs and rights = RightsReadWrite] obtain b7 w7 where
    s7: "vspace_map_frame ref_sel4 vs (Frame 109) 0x3000 RightsReadWrite (b6, w6) = (Ok 110, (b7, w7))" "ref_ready 111 (b7, w7)"
    by auto
  from ref_ready_frame [OF s7(2)] obtain b8 w8 where
    s8: "bootstrap_allocate_frame ref_sel4 (b7, w7) = (Ok 111, (b8, w8))" "ref_ready 112 (b8, w8)" by auto
  from ref_ready_map [OF s8(2), where src = 111 and address = "0x4000" and vs = vs and rights = RightsReadWrite] obtain b9 w9 where
    s9: "vspace_map_frame ref_sel4 vs (Frame 111) 0x4000 RightsReadWrite (b8, w8) = (Ok 112, (b9, w9))" "ref_ready 113 (b9, w9)"
    by auto
  let ?cfg = "\<lparr>tc_ipc_buffer_address = 0x4000, tc_ipc_buffer_mapping = 112, tc_entry = 0x1000,
    tc_stack_pointer = tl_stack_pointer layout, tc_arguments = [1, 2, 3, 4], tc_fault_endpoint = null_cptr ref_sel4\<rparr>"
  from ref_thread [OF s9(2) _ _ s1(2), where cfg = ?cfg and vs = vs] obtain b10 w10 where
    s10: "thread_create ref_sel4 cs vs ?cfg (b9, w9) = (Ok (Thread 113), (b10, w10))" "ref_ready 114 (b10, w10)" by auto
  then have "committed_since 100 (b10, w10) = (Ok \<lparr>range_start = 100, range_end = 114\<rparr>, (b10, w10))"
    by (simp add: committed_since_def bootstrap_committed_slots_def free_slots_allocated_since_def ref_ready_def)
  with s1 s2 s3 s4 s5 s6 s7 s8 s9 s10 show ?thesis
    by (simp add: create_task_inner_def ref_config_def pbind_def pres_def pret_def task_fault_cptr_def Let_def)
qed

lemma ref_create_task:
  "\<exists>t c v. create_task ref_sel4 ref_config (ref_boot 100 130, ref_world [7] (\<lambda>_. [])) = (Ok t, (c, v)) \<and>
     create_task_inner ref_sel4 ref_config \<lparr>tl_stack_pointer = 0x4000\<rparr> 100
       (ref_boot 100 130, ref_world [7] (\<lambda>_. [])) = (Ok t, (c, v)) \<and> ref_ready 114 (c, v)"
  using ref_inner [of "\<lparr>tl_stack_pointer = 0x4000\<rparr>"] ref_layout
  by (auto simp: create_task_run ref_config_def bootstrap_checkpoint_def free_slots_checkpoint_def ref_boot_def)

section \<open>Properties\<close>

text \<open>
  C1. Task construction is all or nothing: started with its unallocated root slots empty, it either
  succeeds on a valid layout, and then the task's root slots are exactly the slots consumed, every
  one of them now holds a capability and no other root slot changed; or it fails, and then either
  rollback failed and says so, or the allocator is as it was and exactly the same root slots are
  occupied as before, whichever step failed.
\<close>

theorem create_task_all_or_nothing:
  assumes "root_slot_laws K occ" and "fs_first (bt_slots b) \<le> fs_start (bt_slots b)"
    and "occupied_slots occ w \<inter> {fs_start (bt_slots b) ..< fs_end (bt_slots b)} = {}"
    and "create_task K config (b, w) = (r, (c, v))"
  shows "case r of
      Ok t \<Rightarrow> tsk_root_slots t = \<lparr>range_start = bootstrap_checkpoint b, range_end = bootstrap_checkpoint c\<rparr> \<and>
        occupied_slots occ v = occupied_slots occ w \<union> {bootstrap_checkpoint b ..< bootstrap_checkpoint c} \<and>
        (\<exists>l. layout_validate (GRANULE_BYTES K) (sc_address (tk_code config)) (sc_entry (tk_code config))
          (tk_private_memory_address config) (tk_stack_address config) (tk_ipc_buffer_address config)
          (tk_reserved_pages config) = Ok l)
    | Err e \<Rightarrow> e = RollbackFailed \<or> (c = b \<and> occupied_slots occ v = occupied_slots occ w)
    | Panic \<Rightarrow> True"
proof (cases r)
  case (Ok t)
  with assms(4) obtain l where layout: "layout_validate (GRANULE_BYTES K) (sc_address (tk_code config))
      (sc_entry (tk_code config)) (tk_private_memory_address config) (tk_stack_address config)
      (tk_ipc_buffer_address config) (tk_reserved_pages config) = Ok l"
    and "create_task_inner K config l (bootstrap_checkpoint b) (b, w) = (Ok t, (c, v))"
    by (auto simp: create_task_run split: res.splits prod.splits)
  with create_task_inner_Ok accounted_create_task [OF assms] Ok show ?thesis
    by (simp add: accounted_def Let_def)
qed (use accounted_create_task [OF assms] in \<open>auto simp: accounted_def Let_def split: if_splits\<close>)

theorem create_task_all_or_nothing_witness:
  "\<exists>t c v. create_task ref_sel4 ref_config (ref_boot 100 130, ref_world [7] (\<lambda>_. [])) = (Ok t, (c, v)) \<and>
     tsk_root_slots t = \<lparr>range_start = 100, range_end = 114\<rparr>"
proof -
  let ?b = "ref_boot 100 130" and ?w = "ref_world [7] (\<lambda>_. [])"
  from ref_create_task obtain t c v where run: "create_task ref_sel4 ref_config (?b, ?w) = (Ok t, (c, v))"
    and ready: "ref_ready 114 (c, v)" by blast
  have inv: "fs_first (bt_slots ?b) \<le> fs_start (bt_slots ?b)"
    "occupied_slots ref_occ ?w \<inter> {fs_start (bt_slots ?b) ..< fs_end (bt_slots ?b)} = {}"
    by (simp_all add: ref_boot_def ref_occ_def ref_world_def)
  from create_task_all_or_nothing [OF ref_root_slot_laws inv run] ready
  have "tsk_root_slots t = \<lparr>range_start = 100, range_end = 114\<rparr>"
    by (simp add: bootstrap_checkpoint_def free_slots_checkpoint_def ref_boot_def ref_ready_def)
  with run show ?thesis by blast
qed

text \<open>
  C9. A task's resources are its own: a constructed task consumed ten root slots and one for each
  distinct translation table of its pages; counted from the first of them, the CSpace is in slot
  0, the VSpace in slot 1, then come the tables and the code mapping, and then the private memory,
  the stack and the IPC buffer, each followed by its mapping, and the TCB last; so no two of its
  resources share a slot.
\<close>

theorem create_task_resources:
  assumes "root_slot_laws K occ" and "levels_ok K" and "create_task K config (b, w) = (Ok t, (c, v))"
  shows "let p = bootstrap_checkpoint b; n = length (table_plan K (task_pages config)) in
    tsk_root_slots t = \<lparr>range_start = p, range_end = bootstrap_checkpoint c\<rparr> \<and>
    range_len (tsk_root_slots t) = 10 + n \<and>
    cs_root (tsk_cspace t) = slot_cptr K p \<and> vs_root (tsk_vspace t) = slot_cptr K (p + 1) \<and>
    frame_cap (tsk_private_memory t) = slot_cptr K (p + of_nat (n + 3)) \<and>
    frame_cap (tsk_stack t) = slot_cptr K (p + of_nat (n + 5)) \<and>
    frame_cap (tsk_ipc_buffer t) = slot_cptr K (p + of_nat (n + 7)) \<and>
    thread_tcb (tsk_thread t) = slot_cptr K (p + of_nat (n + 9))"
proof -
  from assms(3) obtain l where inner: "create_task_inner K config l (bootstrap_checkpoint b) (b, w) = (Ok t, (c, v))"
    by (auto simp: create_task_run split: res.splits prod.splits)
  let ?n = "length (table_plan K (task_pages config))"
  have "unat (bootstrap_checkpoint c) = unat (bootstrap_checkpoint b) + (10 + ?n)"
    using advances_create_task_inner [OF assms(2), of config l "bootstrap_checkpoint b"] inner
    unfolding advances_def by blast
  then have "range_len \<lparr>range_start = bootstrap_checkpoint b, range_end = bootstrap_checkpoint c\<rparr> = 10 + ?n"
    by (simp add: range_len_def word_less_nat_alt)
  with create_task_inner_Ok [OF inner] task_slots [OF assms(1,2) inner] show ?thesis
    by (simp only: Let_def simp_thms)
qed

theorem create_task_resources_witness:
  "\<exists>t c v. create_task ref_sel4 ref_config (ref_boot 100 130, ref_world [7] (\<lambda>_. [])) = (Ok t, (c, v)) \<and>
     cs_root (tsk_cspace t) = 100 \<and> frame_cap (tsk_stack t) = 109 \<and> thread_tcb (tsk_thread t) = 113"
proof -
  from ref_create_task obtain t c v
    where run: "create_task ref_sel4 ref_config (ref_boot 100 130, ref_world [7] (\<lambda>_. [])) = (Ok t, (c, v))" by blast
  have levels: "levels_ok ref_sel4" by (auto simp: levels_ok_def ref_sel4_def)
  from create_task_resources [OF ref_root_slot_laws levels run, unfolded Let_def ref_plan] run show ?thesis
    by (simp add: bootstrap_checkpoint_def free_slots_checkpoint_def ref_boot_def)
qed

text \<open>
  Mapping a recovery frame is all or nothing as well: success derives one mapping, in the next
  root slot, which is the slot recorded for it, and fills exactly that slot; a failure other than
  of the rollback itself leaves the allocator and the occupied root slots as they were.
\<close>

lemma map_recovery_frame_atomic:
  assumes "root_slot_laws K occ" and "fs_first (bt_slots b) \<le> fs_start (bt_slots b)"
    and "occupied_slots occ w \<inter> {fs_start (bt_slots b) ..< fs_end (bt_slots b)} = {}"
    and "task_map_recovery_frame K t f address (b, w) = (r, (c, v))"
  shows "case r of
      Ok m \<Rightarrow> tm_root_slot m = bootstrap_checkpoint b \<and> tm_mapping m = slot_cptr K (tm_root_slot m) \<and>
        unat (bootstrap_checkpoint c) = Suc (unat (bootstrap_checkpoint b)) \<and>
        occupied_slots occ v = insert (bootstrap_checkpoint b) (occupied_slots occ w)
    | Err e \<Rightarrow> e = RollbackFailed \<or> (c = b \<and> occupied_slots occ v = occupied_slots occ w)
    | Panic \<Rightarrow> True"
proof (cases r)
  case (Ok m)
  from map_recovery_frame_Ok [OF assms(1) assms(4) [unfolded Ok]]
  have m: "tm_root_slot m = bootstrap_checkpoint b" "tm_mapping m = slot_cptr K (tm_root_slot m)"
    "unat (bootstrap_checkpoint c) = Suc (unat (bootstrap_checkpoint b))" by simp_all
  then have "{bootstrap_checkpoint b ..< bootstrap_checkpoint c} = {bootstrap_checkpoint b}"
    by (auto simp: word_le_nat_alt word_less_nat_alt word_unat_eq_iff)
  with m Ok accounted_map_recovery [OF assms] show ?thesis by (simp add: accounted_def)
qed (use accounted_map_recovery [OF assms] in \<open>auto simp: accounted_def Let_def split: if_splits\<close>)

lemma map_recovery_frame_atomic_example:
  "let t = \<lparr>tsk_thread = Thread 1, tsk_cspace = \<lparr>cs_root = 4, cs_size_bits = 3, cs_slots = 0\<rparr>,
        tsk_vspace = \<lparr>vs_root = 5\<rparr>, tsk_private_memory = Frame 8, tsk_stack = Frame 9,
        tsk_ipc_buffer = Frame 10, tsk_root_slots = \<lparr>range_start = 4, range_end = 20\<rparr>\<rparr>
   in \<exists>m c v. task_map_recovery_frame ref_sel4 t (Frame 7) 0x200000 (ref_boot 100 130, ref_world [7] (\<lambda>_. [])) =
        (Ok m, (c, v)) \<and> tm_root_slot m = 100 \<and> occupied_slots ref_occ v = {7, 100}"
proof -
  let ?t = "\<lparr>tsk_thread = Thread 1, tsk_cspace = \<lparr>cs_root = 4, cs_size_bits = 3, cs_slots = 0\<rparr>,
        tsk_vspace = \<lparr>vs_root = 5\<rparr>, tsk_private_memory = Frame 8, tsk_stack = Frame 9,
        tsk_ipc_buffer = Frame 10, tsk_root_slots = \<lparr>range_start = 4, range_end = 20\<rparr>\<rparr>"
  let ?b = "ref_boot 100 130" and ?w = "ref_world [7] (\<lambda>_. [])"
  have inv: "fs_first (bt_slots ?b) \<le> fs_start (bt_slots ?b)"
    "occupied_slots ref_occ ?w \<inter> {fs_start (bt_slots ?b) ..< fs_end (bt_slots ?b)} = {}"
    by (simp_all add: ref_boot_def ref_occ_def ref_world_def)
  from ref_ready_map [OF ref_ready_start, where src = 7 and address = "0x200000" and vs = "\<lparr>vs_root = 5\<rparr>"
      and rights = RightsReadWrite]
  obtain d u where map: "vspace_map_frame ref_sel4 \<lparr>vs_root = 5\<rparr> (Frame 7) 0x200000 RightsReadWrite (?b, ?w) =
      (Ok 100, (d, u))" and ready: "ref_ready 101 (d, u)" by auto
  then have "\<exists>m c v. task_map_recovery_frame ref_sel4 ?t (Frame 7) 0x200000 (?b, ?w) = (Ok m, (c, v))"
    by (simp add: task_map_recovery_frame_def Let_def pbind_def pres_def pret_def committed_since_def
        bootstrap_committed_slots_def free_slots_allocated_since_def bootstrap_checkpoint_def
        free_slots_checkpoint_def ref_ready_def single_slot_def range_is_empty_def range_len_def ref_boot_def)
  then obtain m c v where run: "task_map_recovery_frame ref_sel4 ?t (Frame 7) 0x200000 (?b, ?w) = (Ok m, (c, v))"
    by blast
  from map_recovery_frame_atomic [OF ref_root_slot_laws inv run]
  have "tm_root_slot m = 100 \<and> occupied_slots ref_occ v = {7, 100}"
    by (simp add: bootstrap_checkpoint_def free_slots_checkpoint_def ref_boot_def ref_occ_def ref_world_def
        insert_commute)
  with run show ?thesis unfolding Let_def by blast
qed

end
