(* ===== verification/Accessors.thy ===== *)
theory Accessors
  imports Task
begin

text \<open>
  The read access the crate gives to its values (ipc.rs, cspace.rs, vspace.rs, task.rs, fault.rs):
  what a holder of a message, a mapping, a received fault or a task can learn from it, and the
  capabilities of a task that its creator may use.
\<close>

section \<open>Messages, endpoints and notifications\<close>

definition badge_get_raw :: "badge \<Rightarrow> u64" where
  "badge_get_raw b = badge_raw b"

definition message_label :: "message \<Rightarrow> u64" where
  "message_label m = msg_label m"

definition message_extra_caps :: "message \<Rightarrow> nat" where
  "message_extra_caps m = msg_extra_caps m"

definition message_caps_unwrapped :: "message \<Rightarrow> nat" where
  "message_caps_unwrapped m = msg_caps_unwrapped m"

definition endpoint_get_cap :: "endpoint \<Rightarrow> cptr" where
  "endpoint_get_cap ep = ep_cap ep"

definition notification_get_cap :: "notification \<Rightarrow> cptr" where
  "notification_get_cap n = ntfn_cap n"

definition received_message_badge :: "received_message \<Rightarrow> badge option" where
  "received_message_badge rm = rm_badge rm"

definition received_message_message :: "received_message \<Rightarrow> message" where
  "received_message_message rm = rm_message rm"

section \<open>Faults\<close>

definition fault_route_delegated :: "fault_route \<Rightarrow> delegated_capability" where
  "fault_route_delegated r = fault_route_delegation r"

definition received_fault_source :: "received_fault \<Rightarrow> badge" where
  "received_fault_source f = rf_source f"

definition received_fault_fault :: "received_fault \<Rightarrow> fault" where
  "received_fault_fault f = rf_fault f"

section \<open>CSpaces, address spaces and tasks\<close>

definition delegated_destination :: "delegated_capability \<Rightarrow> usize" where
  "delegated_destination c = dc_destination c"

definition cspace_root :: "cspace \<Rightarrow> cptr" where
  "cspace_root cs = cs_root cs"

definition frame_bytes :: "'k sel4 \<Rightarrow> usize" where
  "frame_bytes K = GRANULE_BYTES K"

definition frame_get_cap :: "frame \<Rightarrow> cptr" where
  "frame_get_cap f = frame_cap f"

definition vspace_root :: "vspace \<Rightarrow> cptr" where
  "vspace_root vs = vs_root vs"

definition task_mapping_new :: "cptr \<Rightarrow> usize \<Rightarrow> task_mapping" where
  "task_mapping_new mapping root_slot = \<lparr>tm_mapping = mapping, tm_root_slot = root_slot\<rparr>"

definition task_mapping_root_slot :: "task_mapping \<Rightarrow> usize" where
  "task_mapping_root_slot m = tm_root_slot m"

definition task_cspace :: "task \<Rightarrow> cptr" where
  "task_cspace t = cspace_root (tsk_cspace t)"

definition task_vspace :: "task \<Rightarrow> cptr" where
  "task_vspace t = vspace_root (tsk_vspace t)"

definition task_private_memory :: "task \<Rightarrow> frame" where
  "task_private_memory t = tsk_private_memory t"

definition task_stack :: "task \<Rightarrow> frame" where
  "task_stack t = tsk_stack t"

definition task_ipc_buffer :: "task \<Rightarrow> frame" where
  "task_ipc_buffer t = tsk_ipc_buffer t"

definition task_root_slots :: "task \<Rightarrow> usize_range" where
  "task_root_slots t = tsk_root_slots t"

section \<open>What a creator gets\<close>

text \<open>
  The capabilities a created task gives out are pairwise different capabilities, in root slots of
  the range the task reports.
\<close>

lemma offsets_distinct:
  fixes x :: usize
  assumes "unat x + m < 2 ^ 64" and "\<forall>k \<in> set ks. k \<le> m" and "distinct ks"
  shows "distinct (map (\<lambda>k. x + of_nat k) ks) \<and> (\<forall>k \<in> set ks. unat (x + of_nat k) = unat x + k)"
proof -
  have at: "unat (x + of_nat k) = unat x + k" if "k \<in> set ks" for k
  proof -
    have "k \<le> m" using assms(2) that by blast
    then have "unat (of_nat k :: usize) = k" using assms(1) by (intro unat_of_nat_lt) linarith
    moreover have "unat x + k < 2 ^ 64" using assms(1) \<open>k \<le> m\<close> by linarith
    ultimately show ?thesis by (simp add: unat_word_ariths)
  qed
  then have "inj_on (\<lambda>k. x + of_nat k) (set ks)" by (intro inj_onI) (metis add_left_cancel)
  with assms(3) at show ?thesis by (simp add: distinct_map)
qed

lemma task_accessors_distinct:
  assumes laws: "root_slot_laws K occ" and levels: "levels_ok K" and inj: "inj (slot_cptr K)"
    and run: "create_task K config (b, w) = (Ok t, (c, v))"
  defines "caps \<equiv> [task_cspace t, task_vspace t, frame_get_cap (task_private_memory t),
    frame_get_cap (task_stack t), frame_get_cap (task_ipc_buffer t)]"
  shows "distinct caps \<and> set caps \<subseteq> slot_cptr K ` set (range_list (task_root_slots t))"
proof -
  let ?n = "length (table_plan K (task_pages config))" and ?p = "bootstrap_checkpoint b"
  from run obtain layout where inner: "create_task_inner K config layout ?p (b, w) = (Ok t, (c, v))"
    by (auto simp: create_task_run split: res.splits prod.splits)
  from advances_create_task_inner [OF levels, of config layout ?p] inner
  have stop: "unat (bootstrap_checkpoint c) = unat ?p + (10 + ?n)" unfolding advances_def by blast
  let ?ks = "[0, 1, ?n + 3, ?n + 5, ?n + 7]"
  have "unat ?p + (9 + ?n) < 2 ^ 64" using stop unat_lt_64 [of "bootstrap_checkpoint c"] by linarith
  from offsets_distinct [OF this, of ?ks]
  have off: "distinct (map (\<lambda>k. ?p + of_nat k) ?ks)" "\<forall>k \<in> set ?ks. unat (?p + of_nat k) = unat ?p + k" by simp_all
  have caps: "caps = map (slot_cptr K) (map (\<lambda>k. ?p + of_nat k) ?ks)"
    using task_slots [OF laws levels inner]
    by (simp add: caps_def task_cspace_def cspace_root_def task_vspace_def vspace_root_def frame_get_cap_def
        task_private_memory_def task_stack_def task_ipc_buffer_def)
  have "?p + of_nat k \<in> set (range_list (task_root_slots t))" if "k \<in> set ?ks" for k
  proof -
    from that have "k < 10 + ?n" by auto
    with bspec [OF off(2) that] stop
    have "?p \<le> ?p + of_nat k" "?p + of_nat k < bootstrap_checkpoint c"
      by (simp_all only: word_le_nat_alt word_less_nat_alt)
    then show ?thesis
      using create_task_inner_Ok [OF inner] by (simp add: task_root_slots_def set_range_list)
  qed
  then have "set (map (\<lambda>k. ?p + of_nat k) ?ks) \<subseteq> set (range_list (task_root_slots t))"
    unfolding set_map by blast
  from image_mono [OF this, of "slot_cptr K"]
  have "set caps \<subseteq> slot_cptr K ` set (range_list (task_root_slots t))" unfolding caps set_map .
  moreover have "distinct caps"
    unfolding caps by (subst distinct_map) (use off(1) inj in \<open>simp only: inj_on_subset [OF inj subset_UNIV] simp_thms\<close>)
  ultimately show ?thesis by blast
qed

end
