(* ===== verification/Kernel_Contract.thy ===== *)
theory Kernel_Contract
  imports Task
begin

text \<open>
  When the kernel does not refuse. A view reads off a kernel state which capabilities the root
  CNode holds, what each child CNode, page table and address space contains, and how many address
  space identifiers are left; \<open>room\<close> is a number of objects that are sure to fit in an untyped
  region. Under the contract \<open>obliging\<close> an invocation whose documented preconditions hold in the
  view succeeds and has its documented effect on the view.
\<close>

section \<open>Views of the kernel\<close>

text \<open>
  Capabilities with the state the kernel keeps beside them: whether a frame, a table or an address
  space is mapped, the size of a CNode, the badge of an endpoint or a notification.
\<close>

datatype kcap =
    FrameCap bool
  | TableCap nat bool
  | VSpaceCap bool
  | CNodeCap usize
  | TcbCap
  | SignalCap u64

record kview =
  kv_caps :: "cptr \<Rightarrow> kcap option"
  kv_children :: "cptr \<Rightarrow> u64 set"
  kv_tables :: "cptr \<Rightarrow> (nat \<times> usize) set"
  kv_pages :: "cptr \<Rightarrow> usize set"
  kv_asids :: nat
  kv_user_top :: usize

fun new_cap :: "blueprint \<Rightarrow> kcap" where
  "new_cap GranuleBp = FrameCap False"
| "new_cap VSpaceBp = VSpaceCap False"
| "new_cap TcbBp = TcbCap"
| "new_cap EndpointBp = SignalCap 0"
| "new_cap NotificationBp = SignalCap 0"
| "new_cap (CNodeBp size_bits) = CNodeCap size_bits"
| "new_cap (TableBp table_type) = TableCap table_type False"

definition hold :: "cptr \<Rightarrow> kcap \<Rightarrow> kview \<Rightarrow> kview" where
  "hold c x V = V\<lparr>kv_caps := (kv_caps V)(c := Some x)\<rparr>"

text \<open>A new object is empty, whatever its slot held before.\<close>

definition fresh :: "blueprint \<Rightarrow> cptr \<Rightarrow> kview \<Rightarrow> kview" where
  "fresh bp c V = (hold c (new_cap bp) V)\<lparr>kv_children := (kv_children V)(c := {}),
     kv_tables := (kv_tables V)(c := {}), kv_pages := (kv_pages V)(c := {})\<rparr>"

section \<open>Preconditions and effects of the invocations\<close>

text \<open>The part of the address space a table of a level covers.\<close>

definition region :: "'k sel4 \<Rightarrow> nat \<Rightarrow> usize \<Rightarrow> usize" where
  "region K level address = address div push_bit (unat (span_bits K level)) 1"

definition covered :: "'k sel4 \<Rightarrow> nat \<Rightarrow> usize \<Rightarrow> (nat \<times> usize) set \<Rightarrow> bool" where
  "covered K n address T \<longleftrightarrow> (\<forall>level \<in> {1 ..< n}. (level, region K level address) \<in> T)"

definition can_copy :: "cptr \<Rightarrow> cptr \<Rightarrow> kview \<Rightarrow> bool" where
  "can_copy dest source V \<longleftrightarrow> kv_caps V dest = None \<and> (\<exists>x. kv_caps V source = Some (FrameCap x))"

definition can_mint :: "cptr \<Rightarrow> u64 \<Rightarrow> usize \<Rightarrow> cptr \<Rightarrow> kview \<Rightarrow> bool" where
  "can_mint root index depth source V \<longleftrightarrow> kv_caps V root = Some (CNodeCap depth) \<and>
     unat index < 2 ^ unat depth \<and> index \<notin> kv_children V root \<and> kv_caps V source = Some (SignalCap 0)"

definition minted :: "cptr \<Rightarrow> u64 \<Rightarrow> kview \<Rightarrow> kview" where
  "minted root index V = V\<lparr>kv_children := (kv_children V)(root := insert index (kv_children V root))\<rparr>"

definition can_assign :: "cptr \<Rightarrow> kview \<Rightarrow> bool" where
  "can_assign vs V \<longleftrightarrow> kv_caps V vs = Some (VSpaceCap False) \<and> 0 < kv_asids V"

definition assigned :: "cptr \<Rightarrow> kview \<Rightarrow> kview" where
  "assigned vs V = (hold vs (VSpaceCap True) V)\<lparr>kv_asids := kv_asids V - 1\<rparr>"

text \<open>A table is mapped below the tables of the coarser levels, where there is none yet.\<close>

definition can_map_table :: "'k sel4 \<Rightarrow> nat \<Rightarrow> cptr \<Rightarrow> nat \<Rightarrow> cptr \<Rightarrow> usize \<Rightarrow> kview \<Rightarrow> bool" where
  "can_map_table K level c table_type vs address V \<longleftrightarrow>
     kv_caps V c = Some (TableCap table_type False) \<and> kv_caps V vs = Some (VSpaceCap True) \<and>
     address < kv_user_top V \<and> covered K level address (kv_tables V vs) \<and>
     (level, region K level address) \<notin> kv_tables V vs"

definition mapped_table :: "'k sel4 \<Rightarrow> nat \<Rightarrow> cptr \<Rightarrow> nat \<Rightarrow> cptr \<Rightarrow> usize \<Rightarrow> kview \<Rightarrow> kview" where
  "mapped_table K level c table_type vs address V = (hold c (TableCap table_type True) V)\<lparr>kv_tables :=
     (kv_tables V)(vs := insert (level, region K level address) (kv_tables V vs))\<rparr>"

text \<open>A frame is mapped at a free aligned address below tables of all levels.\<close>

definition can_map_frame :: "'k sel4 \<Rightarrow> cptr \<Rightarrow> cptr \<Rightarrow> usize \<Rightarrow> kview \<Rightarrow> bool" where
  "can_map_frame K c vs address V \<longleftrightarrow>
     kv_caps V c = Some (FrameCap False) \<and> kv_caps V vs = Some (VSpaceCap True) \<and>
     is_multiple_of address (GRANULE_BYTES K) \<and> address < kv_user_top V \<and>
     covered K (NUM_LEVELS K) address (kv_tables V vs) \<and> address \<notin> kv_pages V vs"

definition mapped_frame :: "cptr \<Rightarrow> cptr \<Rightarrow> usize \<Rightarrow> kview \<Rightarrow> kview" where
  "mapped_frame c vs address V = (hold c (FrameCap True) V)\<lparr>kv_pages :=
     (kv_pages V)(vs := insert address (kv_pages V vs))\<rparr>"

definition can_configure :: "'k sel4 \<Rightarrow> cptr \<Rightarrow> cptr \<Rightarrow> cnode_cap_data \<Rightarrow> cptr \<Rightarrow> u64 \<Rightarrow> cptr \<Rightarrow> kview \<Rightarrow> bool" where
  "can_configure K tcb root data vs address buffer V \<longleftrightarrow> kv_caps V tcb = Some TcbCap \<and>
     (\<exists>n. kv_caps V root = Some (CNodeCap n) \<and> data = CNodeCapData 0 (WORD_SIZE K - n)) \<and>
     kv_caps V vs = Some (VSpaceCap True) \<and> kv_caps V buffer = Some (FrameCap True) \<and>
     is_multiple_of address (GRANULE_BYTES K)"

section \<open>The contract\<close>

definition performs :: "('k \<Rightarrow> kview) \<Rightarrow> ('k \<Rightarrow> cptr \<Rightarrow> nat) \<Rightarrow> (kview \<Rightarrow> bool) \<Rightarrow> (kview \<Rightarrow> kview) \<Rightarrow>
    ('k, unit) kcall \<Rightarrow> bool" where
  "performs view room pre upd f \<longleftrightarrow> (\<forall>m. pre (view (kstate m)) \<longrightarrow>
     (\<exists>n. f m = (Ok (), n) \<and> view (kstate n) = upd (view (kstate m)) \<and> room (kstate n) = room (kstate m)))"

text \<open>
  A retype into an empty slot either creates the object, and takes no more than its place, or
  reports that memory is short, which it may do only when no object was sure to fit.
\<close>

definition retypes :: "('k \<Rightarrow> kview) \<Rightarrow> ('k \<Rightarrow> cptr \<Rightarrow> nat) \<Rightarrow> blueprint \<Rightarrow> cptr \<Rightarrow> cptr \<Rightarrow>
    ('k, unit) kcall \<Rightarrow> bool" where
  "retypes view room bp ut dest f \<longleftrightarrow> (\<forall>m. kv_caps (view (kstate m)) dest = None \<longrightarrow>
     (case f m of
        (Ok _, n) \<Rightarrow> view (kstate n) = fresh bp dest (view (kstate m)) \<and>
          (\<forall>u. room (kstate m) u \<le> room (kstate n) u + (if u = ut then 1 else 0))
      | (Err e, n) \<Rightarrow> e = NotEnoughMemory \<and> room (kstate m) ut = 0 \<and>
          view (kstate n) = view (kstate m) \<and> room (kstate n) = room (kstate m)
      | (Panic, n) \<Rightarrow> False))"

text \<open>The contract for the object types \<open>B\<close>, to which \<open>room\<close> refers.\<close>

definition obliging :: "'k sel4 \<Rightarrow> bootinfo \<Rightarrow> blueprint set \<Rightarrow> ('k \<Rightarrow> kview) \<Rightarrow> ('k \<Rightarrow> cptr \<Rightarrow> nat) \<Rightarrow> bool" where
  "obliging K bi B view room \<longleftrightarrow>
     (\<forall>bp i j d. bp \<in> B \<longrightarrow> (j, d) \<in> set (untyped_candidates bi) \<longrightarrow> suitable K bp d \<longrightarrow>
        retypes view room bp (bi_untyped_cap bi j) (slot_cptr K i)
          (untyped_retype K (bi_untyped_cap bi j) bp (AbsSelf (init_cnode K)) i 1)) \<and>
     (\<forall>i source rights. performs view room (can_copy (slot_cptr K i) source) (hold (slot_cptr K i) (FrameCap False))
        (cnode_copy K (AbsCPtr (init_cnode K) (slot_cptr K i)) (AbsCPtr (init_cnode K) source) rights)) \<and>
     (\<forall>root index depth source rights badge. performs view room (can_mint root index depth source) (minted root index)
        (cnode_mint K (AbsBits root index depth) (AbsCPtr (init_cnode K) source) rights badge)) \<and>
     (\<forall>vs. performs view room (can_assign vs) (assigned vs) (asid_pool_assign K (init_asid_pool K) vs)) \<and>
     (\<forall>level c ty vs a at. level \<in> {1 ..< NUM_LEVELS K} \<longrightarrow> table_from_level K level = Some ty \<longrightarrow>
        performs view room (can_map_table K level c ty vs a) (mapped_table K level c ty vs a)
          (table_map K c ty vs a at)) \<and>
     (\<forall>c vs a rights at. performs view room (can_map_frame K c vs a) (mapped_frame c vs a)
        (frame_map K c vs a rights at)) \<and>
     (\<forall>tcb ep root data vs a buf. performs view room (can_configure K tcb root data vs a buf) id
        (tcb_configure K tcb ep root data vs a buf)) \<and>
     (\<forall>tcb u. performs view room (\<lambda>V. kv_caps V tcb = Some TcbCap) id (tcb_write_all_registers K tcb False u))"

lemma obligingD:
  assumes "obliging K bi B view room"
  shows obliging_retype: "bp \<in> B \<Longrightarrow> (j, d) \<in> set (untyped_candidates bi) \<Longrightarrow> suitable K bp d \<Longrightarrow>
      retypes view room bp (bi_untyped_cap bi j) (slot_cptr K i)
        (untyped_retype K (bi_untyped_cap bi j) bp (AbsSelf (init_cnode K)) i 1)"
    and obliging_copy: "performs view room (can_copy (slot_cptr K i) source) (hold (slot_cptr K i) (FrameCap False))
      (cnode_copy K (AbsCPtr (init_cnode K) (slot_cptr K i)) (AbsCPtr (init_cnode K) source) rights)"
    and obliging_mint: "performs view room (can_mint root index depth source) (minted root index)
      (cnode_mint K (AbsBits root index depth) (AbsCPtr (init_cnode K) source) rights badge)"
    and obliging_assign: "performs view room (can_assign vs) (assigned vs) (asid_pool_assign K (init_asid_pool K) vs)"
    and obliging_table: "level \<in> {1 ..< NUM_LEVELS K} \<Longrightarrow> table_from_level K level = Some ty \<Longrightarrow>
      performs view room (can_map_table K level c ty vs a) (mapped_table K level c ty vs a) (table_map K c ty vs a at)"
    and obliging_frame: "performs view room (can_map_frame K c vs a) (mapped_frame c vs a) (frame_map K c vs a rights at)"
    and obliging_configure: "performs view room (can_configure K tcb root data vs a buf) id
      (tcb_configure K tcb ep root data vs a buf)"
    and obliging_registers: "performs view room (\<lambda>V. kv_caps V tcb = Some TcbCap) id
      (tcb_write_all_registers K tcb False u)"
  using assms unfolding obliging_def by (elim conjE; metis)+

lemma performs_syscall:
  assumes "performs view room pre upd f" and "pre (view (kstate (mach w)))"
  shows "\<exists>v. syscall f w = (Ok (), v) \<and> view (kstate (mach v)) = upd (view (kstate (mach w))) \<and>
    room (kstate (mach v)) = room (kstate (mach w)) \<and> tracker_cells v = tracker_cells w"
proof -
  from assms obtain n where "f (mach w) = (Ok (), n)" and "view (kstate n) = upd (view (kstate (mach w)))"
    and "room (kstate n) = room (kstate (mach w))" by (auto simp: performs_def)
  then show ?thesis by (simp add: syscall_def)
qed

section \<open>A kernel that keeps the contract\<close>

text \<open>
  The kernel whose state is a view, with a number of objects for each region: every invocation
  checks its preconditions, and has its effect or fails.
\<close>

type_synonym view_kernel = "kview \<times> (cptr \<Rightarrow> nat)"

definition act :: "(kview \<Rightarrow> bool) \<Rightarrow> (kview \<Rightarrow> kview) \<Rightarrow> (view_kernel, unit) kcall" where
  "act pre upd m = (if pre (fst (kstate m))
     then (Ok (), m\<lparr>kstate := (upd (fst (kstate m)), snd (kstate m))\<rparr>) else (Err FailedLookup, m))"

fun view_retype :: "cptr \<Rightarrow> blueprint \<Rightarrow> abs_cptr \<Rightarrow> usize \<Rightarrow> usize \<Rightarrow> (view_kernel, unit) kcall" where
  "view_retype ut bp dest i n m =
     (if kv_caps (fst (kstate m)) i \<noteq> None then (Err (OtherError 8), m)
      else if snd (kstate m) ut = 0 then (Err NotEnoughMemory, m)
      else (Ok (), m\<lparr>kstate := (fresh bp i (fst (kstate m)),
        (snd (kstate m))(ut := snd (kstate m) ut - 1))\<rparr>))"

fun view_copy :: "abs_cptr \<Rightarrow> abs_cptr \<Rightarrow> cap_rights \<Rightarrow> (view_kernel, unit) kcall" where
  "view_copy (AbsCPtr r dest) (AbsCPtr q source) rights m =
     act (can_copy dest source) (hold dest (FrameCap False)) m"
| "view_copy _ _ rights m = (Err FailedLookup, m)"

fun view_mint :: "abs_cptr \<Rightarrow> abs_cptr \<Rightarrow> cap_rights \<Rightarrow> u64 \<Rightarrow> (view_kernel, unit) kcall" where
  "view_mint (AbsBits root index depth) (AbsCPtr q source) rights badge m =
     act (can_mint root index depth source) (minted root index) m"
| "view_mint _ _ rights badge m = (Err FailedLookup, m)"

fun view_delete :: "abs_cptr \<Rightarrow> (view_kernel, unit) kcall" where
  "view_delete (AbsCPtr r c) m = act (\<lambda>_. True) (\<lambda>V. V\<lparr>kv_caps := (kv_caps V)(c := None)\<rparr>) m"
| "view_delete _ m = (Err FailedLookup, m)"

text \<open>The geometry is the one of the reference kernel: four levels, a type of table for each.\<close>

definition view_sel4 :: "view_kernel sel4" where
  "view_sel4 = \<lparr>
     WORD_SIZE = 64,
     NUM_MESSAGE_REGISTERS = 4,
     GRANULE_BYTES = 4096,
     IPC_BUFFER_SIZE = 1024,
     IPC_BUFFER_ALIGN = 512,
     NUM_LEVELS = 4,
     span_bits = span_bits ref_sel4,
     table_from_level = (\<lambda>l. if l < 4 then Some l else None),
     physical_size_bits = physical_size_bits ref_sel4,
     slot_cptr = (\<lambda>i. i),
     init_cnode = root_task_cnode,
     init_vspace = 3,
     init_asid_pool = 6,
     null_cptr = 0,
     default_context = default_context ref_sel4,
     message_info = packed_info,
     untyped_retype = view_retype,
     cnode_mint = view_mint,
     cnode_copy = view_copy,
     cnode_delete = view_delete,
     cnode_save_caller = (\<lambda>d m. (Err FailedLookup, m)),
     asid_pool_assign = (\<lambda>p v. act (can_assign v) (assigned v)),
     table_map = (\<lambda>c ty v a at. act (can_map_table ref_sel4 ty c ty v a) (mapped_table ref_sel4 ty c ty v a)),
     frame_map = (\<lambda>c v a r at. act (can_map_frame ref_sel4 c v a) (mapped_frame c v a)),
     frame_unmap = (\<lambda>c m. (Err FailedLookup, m)),
     tcb_configure = (\<lambda>t e r d v a b. act (can_configure ref_sel4 t r d v a b) id),
     tcb_write_all_registers = (\<lambda>t b u. act (\<lambda>V. kv_caps V t = Some TcbCap) id),
     tcb_read_all_registers = (\<lambda>t b m. (Err FailedLookup, m)),
     tcb_resume = (\<lambda>t. act (\<lambda>V. kv_caps V t = Some TcbCap) id),
     tcb_suspend = (\<lambda>t. act (\<lambda>V. kv_caps V t = Some TcbCap) id),
     cap_send = (\<lambda>c info m. ((), m)),
     ep_nb_send = (\<lambda>c info m. ((), m)),
     ep_call = (\<lambda>c info m. (empty_info, m)),
     ep_recv = (\<lambda>c m. ((empty_info, 0), m)),
     ep_nb_recv = (\<lambda>c m. ((empty_info, 0), m)),
     sys_reply = (\<lambda>info m. ((), m)),
     ntfn_signal = (\<lambda>c m. ((), m)),
     ntfn_wait = (\<lambda>c m. (1, m)),
     ntfn_poll = (\<lambda>c m. (0, m))\<rparr>"

lemma view_geometry:
  "region view_sel4 = region ref_sel4" "covered view_sel4 = covered ref_sel4"
  "can_map_table view_sel4 = can_map_table ref_sel4" "mapped_table view_sel4 = mapped_table ref_sel4"
  "can_map_frame view_sel4 = can_map_frame ref_sel4" "can_configure view_sel4 = can_configure ref_sel4"
  by (simp_all add: region_def covered_def can_map_table_def mapped_table_def can_map_frame_def
      can_configure_def fun_eq_iff view_sel4_def)

lemma performs_act: "performs fst snd pre upd (act pre upd)"
  by (simp add: performs_def act_def)

lemma view_sel4_obliging: "obliging view_sel4 bi B fst snd"
  unfolding obliging_def view_geometry
  by (auto simp: view_sel4_def performs_act retypes_def split: if_splits)
    (simp_all add: performs_def act_def)

end
