(* ===== verification/Progress.thy ===== *)
theory Progress
  imports Kernel_Contract
begin

text \<open>
  Construction succeeds. With a kernel that keeps the contract, enough empty root slots and enough
  memory, each construction step returns its result, and its effect on the view of the kernel is
  what the next step needs: the tables before the frames below them, the CNode before the mints,
  the mapped buffer before the thread that uses it.
\<close>

section \<open>Enough slots and memory\<close>

text \<open>
  The bootstrap stands past the checkpoint \<open>cp\<close> at the view \<open>V\<close> with \<open>n\<close> more slots, all unallocated slots empty, and an
  untyped region good for every object type of \<open>B\<close> in which \<open>k\<close> more objects fit.
\<close>

definition stands :: "'k sel4 \<Rightarrow> bootinfo \<Rightarrow> blueprint set \<Rightarrow> ('k \<Rightarrow> kview) \<Rightarrow> ('k \<Rightarrow> cptr \<Rightarrow> nat) \<Rightarrow>
    usize \<Rightarrow> nat \<Rightarrow> nat \<Rightarrow> kview \<Rightarrow> 'k boot_state \<Rightarrow> bool" where
  "stands K bi B view room cp n k V = (\<lambda>(b, w).
     bt_bootinfo b = bi \<and> view (kstate (mach w)) = V \<and>
     fs_first (bt_slots b) \<le> cp \<and> cp \<le> fs_start (bt_slots b) \<and>
     unat (fs_start (bt_slots b)) + n \<le> unat (fs_end (bt_slots b)) \<and>
     (\<forall>i \<in> {fs_start (bt_slots b) ..< fs_end (bt_slots b)}. kv_caps V (slot_cptr K i) = None) \<and>
     (\<exists>(j, d) \<in> set (untyped_candidates bi). (\<forall>bp \<in> B. suitable K bp d) \<and>
        k \<le> room (kstate (mach w)) (bi_untyped_cap bi j)))"

lemma retype_succeeds:
  assumes kernel: "obliging K bi B view room" and bp: "bp \<in> B"
  shows "set ds \<subseteq> set (untyped_candidates bi) \<Longrightarrow> kv_caps (view (kstate (mach w))) (slot_cptr K slot) = None \<Longrightarrow>
    \<exists>(j, d) \<in> set ds. suitable K bp d \<and> 0 < room (kstate (mach w)) (bi_untyped_cap bi j) \<Longrightarrow>
    \<exists>v. retype_candidates K bi bp slot ds w = (Ok (slot_cptr K slot), v) \<and>
      view (kstate (mach v)) = fresh bp (slot_cptr K slot) (view (kstate (mach w))) \<and>
      (\<forall>u. room (kstate (mach w)) u \<le> Suc (room (kstate (mach v)) u))"
proof (induction ds arbitrary: w)
  case (Cons c ds)
  obtain i d where c: "c = (i, d)" by fastforce
  show ?case
  proof (cases "suitable K bp d")
    case False
    with Cons c show ?thesis by (simp add: retype_candidates_Cons)
  next
    case True
    obtain r m where call: "untyped_retype K (bi_untyped_cap bi i) bp (AbsSelf (init_cnode K)) slot 1 (mach w) = (r, m)"
      by fastforce
    then have run: "retype_into K bi bp slot i w = (r, w\<lparr>mach := m\<rparr>)" by (simp add: syscall_def)
    have law: "case r of
        Ok _ \<Rightarrow> view (kstate m) = fresh bp (slot_cptr K slot) (view (kstate (mach w))) \<and>
          (\<forall>u. room (kstate (mach w)) u \<le> room (kstate m) u + (if u = bi_untyped_cap bi i then 1 else 0))
      | Err e \<Rightarrow> e = NotEnoughMemory \<and> room (kstate (mach w)) (bi_untyped_cap bi i) = 0 \<and>
          view (kstate m) = view (kstate (mach w)) \<and> room (kstate m) = room (kstate (mach w))
      | Panic \<Rightarrow> False"
      using spec [OF obliging_retype [OF kernel bp _ True, of i slot, unfolded retypes_def], of "mach w"]
        Cons.prems(1,2) c call by (cases r) simp_all
    show ?thesis
    proof (cases r)
      case (Ok a)
      with law have view: "view (kstate m) = fresh bp (slot_cptr K slot) (view (kstate (mach w)))"
        and fit: "\<forall>u. room (kstate (mach w)) u \<le> room (kstate m) u + (if u = bi_untyped_cap bi i then 1 else 0)"
        by simp_all
      have room: "room (kstate (mach w)) u \<le> Suc (room (kstate m) u)" for u
        using spec [OF fit, of u] by (simp split: if_splits)
      from Ok run c True have "retype_candidates K bi bp slot (c # ds) w = (Ok (slot_cptr K slot), w\<lparr>mach := m\<rparr>)"
        by (simp add: retype_candidates_Cons)
      with view room show ?thesis by auto
    next
      case (Err e)
      with law c Cons.prems(3) have "\<exists>(j, d) \<in> set ds. suitable K bp d \<and> 0 < room (kstate m) (bi_untyped_cap bi j)"
        by auto
      with Cons.IH [of "w\<lparr>mach := m\<rparr>"] Cons.prems(1,2) law Err run c True show ?thesis
        by (simp add: retype_candidates_Cons)
    qed (use law in simp)
  qed
qed simp

lemma allocate_is_blueprint:
  "bootstrap_allocate_frame K = bootstrap_allocate_blueprint K GranuleBp"
  "bootstrap_allocate_object K bp = bootstrap_allocate_blueprint K bp"
  "bootstrap_allocate_variable_object K mk n = bootstrap_allocate_blueprint K (mk n)"
  by (simp_all add: fun_eq_iff bootstrap_allocate_frame_def bootstrap_allocate_object_def
      bootstrap_allocate_variable_object_def bootstrap_allocate_blueprint_def object_allocate_def
      object_allocate_variable_def)

text \<open>Committing a slot moves on past it.\<close>

lemma stands_commit:
  assumes inj: "inj (slot_cptr K)" and st: "stands K bi B view room cp (Suc n) k V (b, w)"
    and view: "view (kstate (mach v)) = V'" "\<And>c. c \<noteq> slot_cptr K (fs_start (bt_slots b)) \<Longrightarrow>
      kv_caps V c = None \<Longrightarrow> kv_caps V' c = None"
    and room: "\<And>u. l + room (kstate (mach w)) u \<le> k + room (kstate (mach v)) u"
  shows "stands K bi B view room cp n l V' (b\<lparr>bt_slots := set_start (fs_start (bt_slots b) + 1) (bt_slots b)\<rparr>, v)"
proof -
  let ?i = "fs_start (bt_slots b)" and ?e = "fs_end (bt_slots b)"
  from st have here: "bt_bootinfo b = bi" "fs_first (bt_slots b) \<le> cp" "cp \<le> ?i" "unat ?i + Suc n \<le> unat ?e"
    and region: "\<exists>(j, d) \<in> set (untyped_candidates bi). (\<forall>bp \<in> B. suitable K bp d) \<and>
      k \<le> room (kstate (mach w)) (bi_untyped_cap bi j)"
    and empty: "\<And>i. ?i \<le> i \<Longrightarrow> i < ?e \<Longrightarrow> kv_caps V (slot_cptr K i) = None"
    by (simp_all add: stands_def)
  have "?i < ?e" using here(4) by (simp add: word_less_nat_alt)
  from checked_succ_below [OF this] have succ: "unat (?i + 1) = Suc (unat ?i)" by simp
  have "kv_caps V' (slot_cptr K i) = None" if "?i + 1 \<le> i" "i < ?e" for i
  proof -
    have "?i \<le> i" "i \<noteq> ?i" using that(1) succ by (auto simp: word_le_nat_alt)
    then have "slot_cptr K i \<noteq> slot_cptr K ?i" using inj by (auto dest: injD)
    then show ?thesis using view(2) empty [OF \<open>?i \<le> i\<close> that(2)] by simp
  qed
  moreover
  from region obtain j d where mem: "(j, d) \<in> set (untyped_candidates bi)" "\<forall>bp \<in> B. suitable K bp d"
    "k \<le> room (kstate (mach w)) (bi_untyped_cap bi j)" by blast
  moreover have "l \<le> room (kstate (mach v)) (bi_untyped_cap bi j)"
    using room [of "bi_untyped_cap bi j"] mem(3) by linarith
  with mem have "\<exists>(j, d) \<in> set (untyped_candidates bi). (\<forall>bp \<in> B. suitable K bp d) \<and>
      l \<le> room (kstate (mach v)) (bi_untyped_cap bi j)" by (intro bexI [of _ "(j, d)"]) simp_all
  moreover have "cp \<le> ?i + 1" using here(3) succ by (simp add: word_le_nat_alt)
  ultimately show ?thesis using here succ view(1) by (simp add: stands_def)
qed

lemma stands_here:
  assumes "stands K bi B view room cp (Suc n) k V (b, w)"
  shows "bt_bootinfo b = bi" "fs_start (bt_slots b) < fs_end (bt_slots b)" "view (kstate (mach w)) = V"
    "kv_caps V (slot_cptr K (fs_start (bt_slots b))) = None"
proof -
  from assms show "bt_bootinfo b = bi" and "view (kstate (mach w)) = V" unfolding stands_def prod.case by simp_all
  from assms have "unat (fs_start (bt_slots b)) + Suc n \<le> unat (fs_end (bt_slots b))"
    unfolding stands_def prod.case by (elim conjE)
  then show below: "fs_start (bt_slots b) < fs_end (bt_slots b)" unfolding word_less_nat_alt by linarith
  from assms have "\<forall>i \<in> {fs_start (bt_slots b) ..< fs_end (bt_slots b)}. kv_caps V (slot_cptr K i) = None"
    unfolding stands_def prod.case by (elim conjE)
  moreover from below have "fs_start (bt_slots b) \<in> {fs_start (bt_slots b) ..< fs_end (bt_slots b)}" by simp
  ultimately show "kv_caps V (slot_cptr K (fs_start (bt_slots b))) = None" by (rule bspec)
qed

lemma stands_memory:
  assumes "stands K bi B view room cp n (Suc k) V (b, w)" and "bp \<in> B"
  shows "\<exists>(j, d) \<in> set (untyped_candidates bi). suitable K bp d \<and> 0 < room (kstate (mach w)) (bi_untyped_cap bi j)"
proof -
  from assms(1) have "\<exists>(j, d) \<in> set (untyped_candidates bi). (\<forall>bp \<in> B. suitable K bp d) \<and>
      Suc k \<le> room (kstate (mach w)) (bi_untyped_cap bi j)" by (simp add: stands_def)
  then obtain j d where "(j, d) \<in> set (untyped_candidates bi)" "\<forall>bp \<in> B. suitable K bp d"
    "Suc k \<le> room (kstate (mach w)) (bi_untyped_cap bi j)" by blast
  moreover have "0 < room (kstate (mach w)) (bi_untyped_cap bi j)" using calculation(3) by linarith
  ultimately show ?thesis using assms(2) by (intro bexI [of _ "(j, d)"]) simp_all
qed

lemma allocate_succeeds:
  assumes kernel: "obliging K bi B view room" and inj: "inj (slot_cptr K)" and bp: "bp \<in> B"
    and st: "stands K bi B view room cp (Suc n) (Suc k) V s"
  shows "\<exists>cap t. bootstrap_allocate_blueprint K bp s = (Ok cap, t) \<and> kv_caps V cap = None \<and>
    cap = slot_cptr K (bootstrap_checkpoint (fst s)) \<and> stands K bi B view room cp n k (fresh bp cap V) t"
proof -
  obtain b w where s: "s = (b, w)" by fastforce
  let ?i = "fs_start (bt_slots b)"
  note here = stands_here [OF st [unfolded s]]
  from retype_succeeds [OF kernel bp order_refl _ stands_memory [OF st [unfolded s] bp], of ?i] here(3,4) obtain v where
    run: "retype_candidates K bi bp ?i (untyped_candidates bi) w = (Ok (slot_cptr K ?i), v)"
    and view: "view (kstate (mach v)) = fresh bp (slot_cptr K ?i) V"
    and room: "\<forall>u. room (kstate (mach w)) u \<le> Suc (room (kstate (mach v)) u)" by auto
  have "bootstrap_allocate_blueprint K bp s =
      (Ok (slot_cptr K ?i), (b\<lparr>bt_slots := set_start (?i + 1) (bt_slots b)\<rparr>, v))"
    using run here(1,2) by (simp add: s bootstrap_allocate_blueprint_def on_slots_def
        object_allocate_blueprint_def pbind_def pres_def try_allocate_cases)
  moreover have "stands K bi B view room cp n k (fresh bp (slot_cptr K ?i) V)
      (b\<lparr>bt_slots := set_start (?i + 1) (bt_slots b)\<rparr>, v)"
    using room by (intro stands_commit [OF inj st [unfolded s] view]) (simp_all add: fresh_def hold_def)
  moreover have "bootstrap_checkpoint (fst s) = ?i" by (simp add: s bootstrap_checkpoint_def free_slots_checkpoint_def)
  ultimately show ?thesis using here(4) by auto
qed

lemma copy_succeeds:
  assumes kernel: "obliging K bi B view room" and inj: "inj (slot_cptr K)"
    and st: "stands K bi B view room cp (Suc n) k V s" and source: "kv_caps V source = Some (FrameCap x)"
  shows "\<exists>cap t. bootstrap_copy_cap K source rights s = (Ok cap, t) \<and> kv_caps V cap = None \<and>
    stands K bi B view room cp n k (hold cap (FrameCap False) V) t"
proof -
  obtain b w where s: "s = (b, w)" by fastforce
  let ?i = "fs_start (bt_slots b)"
  note here = stands_here [OF st [unfolded s]]
  from performs_syscall [OF obliging_copy [OF kernel, of ?i source rights], of w] here(3,4) source obtain v where
    run: "syscall (cnode_copy K (AbsCPtr (init_cnode K) (slot_cptr K ?i)) (AbsCPtr (init_cnode K) source) rights) w = (Ok (), v)"
    and view: "view (kstate (mach v)) = hold (slot_cptr K ?i) (FrameCap False) V"
    and room: "room (kstate (mach v)) = room (kstate (mach w))" by (auto simp: can_copy_def)
  have "bootstrap_copy_cap K source rights s =
      (Ok (slot_cptr K ?i), (b\<lparr>bt_slots := set_start (?i + 1) (bt_slots b)\<rparr>, v))"
    using run here(2) by (simp add: s bootstrap_copy_cap_def on_slots_def copy_to_root_def pbind_def
        pres_def pret_def pmap_err_def try_allocate_cases)
  moreover have "stands K bi B view room cp n k (hold (slot_cptr K ?i) (FrameCap False) V)
      (b\<lparr>bt_slots := set_start (?i + 1) (bt_slots b)\<rparr>, v)"
    using room by (intro stands_commit [OF inj st [unfolded s] view]) (simp_all add: hold_def)
  ultimately show ?thesis using here(4) by blast
qed

lemma call_succeeds:
  assumes "performs view room pre upd f" and "stands K bi B view room cp n k V s" and "pre V"
    and "\<And>c. kv_caps V c = None \<Longrightarrow> kv_caps (upd V) c = None"
  shows "\<exists>t. on_world (pmap_err g (syscall f)) s = (Ok (), t) \<and> stands K bi B view room cp n k (upd V) t"
proof -
  obtain b w where s: "s = (b, w)" by fastforce
  with assms(2,3) performs_syscall [OF assms(1), of w] obtain v where "syscall f w = (Ok (), v)"
    and "view (kstate (mach v)) = upd V" and "room (kstate (mach v)) = room (kstate (mach w))"
    by (auto simp: stands_def)
  with assms(2,4) s show ?thesis by (auto simp: on_world_def pmap_err_def stands_def)
qed

section \<open>Address spaces\<close>

text \<open>Capabilities held stay held, in the state they are in.\<close>

definition retains :: "kview \<Rightarrow> kview \<Rightarrow> bool" where
  "retains V V' \<longleftrightarrow> (\<forall>c x. kv_caps V c = Some x \<longrightarrow> kv_caps V' c = Some x) \<and> kv_user_top V' = kv_user_top V"

text \<open>The same with no address space identifier used.\<close>

definition grows :: "kview \<Rightarrow> kview \<Rightarrow> bool" where
  "grows V V' \<longleftrightarrow> retains V V' \<and> kv_asids V' = kv_asids V"

lemma retains_trans: "retains V V' \<Longrightarrow> retains V' W \<Longrightarrow> retains V W"
  by (simp add: retains_def)

lemma retains_caps: "retains V V' \<Longrightarrow> kv_caps V c = Some x \<Longrightarrow> kv_caps V' c = Some x"
  by (simp add: retains_def)

lemma retains_None: "retains V V' \<Longrightarrow> kv_caps V' c = None \<Longrightarrow> kv_caps V c = None"
  by (cases "kv_caps V c") (simp_all add: retains_def)

lemma grows_retains: "grows V V' \<Longrightarrow> retains V V'"
  by (simp add: grows_def)

lemma grows_trans: "grows V V' \<Longrightarrow> grows V' W \<Longrightarrow> grows V W"
  by (simp add: grows_def retains_def)

lemma grows_caps: "grows V V' \<Longrightarrow> kv_caps V c = Some x \<Longrightarrow> kv_caps V' c = Some x"
  by (simp add: grows_def retains_def)

lemma grows_refl: "grows V V"
  by (simp add: grows_def retains_def)

lemma grows_fresh: "kv_caps V c = None \<Longrightarrow> grows V (fresh bp c V)"
  by (auto simp: grows_def retains_def fresh_def hold_def)

text \<open>A VSpace with tables for the pages \<open>P\<close> and exactly the pages \<open>A\<close> mapped.\<close>

definition aspace :: "'k sel4 \<Rightarrow> usize set \<Rightarrow> cptr \<Rightarrow> usize set \<Rightarrow> kview \<Rightarrow> bool" where
  "aspace K P vs A V \<longleftrightarrow> kv_caps V vs = Some (VSpaceCap True) \<and> kv_pages V vs = A \<and>
     (\<forall>a \<in> P. a < kv_user_top V \<and> covered K (NUM_LEVELS K) a (kv_tables V vs))"

lemma aspace_fresh: "aspace K P vs A V \<Longrightarrow> kv_caps V c = None \<Longrightarrow> aspace K P vs A (fresh bp c V)"
  by (auto simp: aspace_def fresh_def hold_def)

definition tables_to :: "cptr \<Rightarrow> (nat \<times> usize) set \<Rightarrow> kview \<Rightarrow> kview \<Rightarrow> bool" where
  "tables_to vs T V V' \<longleftrightarrow> grows V V' \<and> kv_tables V' vs = T \<and> kv_pages V' vs = kv_pages V vs"

lemma create_table_succeeds:
  assumes kernel: "obliging K bi B view room" and inj: "inj (slot_cptr K)" and bp: "TableBp ty \<in> B"
    and level: "level \<in> {1 ..< NUM_LEVELS K}" "table_from_level K level = Some ty"
    and st: "stands K bi B view room cp (Suc n) (Suc k) V s"
    and vs: "kv_caps V (vs_root vs) = Some (VSpaceCap True)" and top: "a < kv_user_top V"
    and parents: "covered K level a (kv_tables V (vs_root vs))"
    and absent: "(level, region K level a) \<notin> kv_tables V (vs_root vs)"
  shows "\<exists>t V'. create_table K vs (ty, a) s = (Ok (), t) \<and> stands K bi B view room cp n k V' t \<and>
    tables_to (vs_root vs) (insert (level, region K level a) (kv_tables V (vs_root vs))) V V'"
proof -
  from allocate_succeeds [OF kernel inj bp st] obtain c t where
    alloc: "bootstrap_allocate_blueprint K (TableBp ty) s = (Ok c, t)" and new: "kv_caps V c = None"
    and st': "stands K bi B view room cp n k (fresh (TableBp ty) c V) t" by blast
  let ?W = "fresh (TableBp ty) c V"
  from new vs have ne: "vs_root vs \<noteq> c" by auto
  then have pre: "can_map_table K level c ty (vs_root vs) a ?W"
    using vs top parents absent by (simp add: can_map_table_def fresh_def hold_def)
  have keep: "kv_caps (mapped_table K level c ty (vs_root vs) a ?W) x = None" if "kv_caps ?W x = None" for x
    using that by (auto simp: mapped_table_def fresh_def hold_def split: if_splits)
  from call_succeeds [OF obliging_table [OF kernel level] st' pre keep] obtain u where
    call: "on_world (pmap_err (\<lambda>_. VSpaceCreationFailed) (syscall (table_map K c ty (vs_root vs) a DefaultVmAttributes))) t = (Ok (), u)"
    and "stands K bi B view room cp n k (mapped_table K level c ty (vs_root vs) a ?W) u"
    by blast
  moreover have "create_table K vs (ty, a) s = (Ok (), u)"
    using alloc call by (simp add: create_table_def pbind_def)
  moreover have "tables_to (vs_root vs) (insert (level, region K level a) (kv_tables V (vs_root vs))) V
      (mapped_table K level c ty (vs_root vs) a ?W)"
    using new ne by (auto simp: tables_to_def grows_def retains_def mapped_table_def fresh_def hold_def)
  ultimately show ?thesis by blast
qed

text \<open>One level: a table for each first use, below the tables of the coarser levels.\<close>

lemma level_succeeds:
  assumes kernel: "obliging K bi B view room" and inj: "inj (slot_cptr K)" and bp: "TableBp ty \<in> B"
    and level: "level \<in> {1 ..< NUM_LEVELS K}" "table_from_level K level = Some ty"
    and span: "span = push_bit (unat (span_bits K level)) 1"
  shows "stands K bi B view room cp (length (first_uses span prior pages) + n) (length (first_uses span prior pages) + k) V s \<Longrightarrow>
    kv_caps V (vs_root vs) = Some (VSpaceCap True) \<Longrightarrow> \<forall>a \<in> set pages. a < kv_user_top V \<Longrightarrow>
    kv_tables V (vs_root vs) = below \<union> (\<lambda>a. (level, region K level a)) ` set prior \<Longrightarrow>
    (\<forall>(l, r) \<in> below. l < level) \<Longrightarrow> \<forall>a \<in> set pages. covered K level a below \<Longrightarrow>
    \<exists>t V'. pfor (map (Pair ty) (first_uses span prior pages)) (create_table K vs) s = (Ok (), t) \<and>
      stands K bi B view room cp n k V' t \<and>
      tables_to (vs_root vs) (below \<union> (\<lambda>a. (level, region K level a)) ` (set prior \<union> set pages)) V V'"
proof (induction pages arbitrary: prior V s)
  case Nil
  then show ?case by (auto simp: pret_def tables_to_def grows_refl)
next
  case (Cons a pages)
  have region: "region K level p = p div span" for p by (simp add: region_def span)
  let ?T = "\<lambda>ps. below \<union> (\<lambda>a. (level, region K level a)) ` ps"
  have union: "?T (set (prior @ [a]) \<union> set pages) = ?T (set prior \<union> set (a # pages))" by auto
  show ?case
  proof (cases "a div span \<in> (\<lambda>p. p div span) ` set prior")
    case True
    then have "?T (set (prior @ [a])) = ?T (set prior)" by (auto simp: region)
    with Cons.IH [of "prior @ [a]" V s, unfolded union] Cons.prems True show ?thesis by simp
  next
    case False
    let ?rest = "first_uses span (prior @ [a]) pages"
    have first: "first_uses span prior (a # pages) = a # ?rest" using False by simp
    have st: "stands K bi B view room cp (Suc (length ?rest + n)) (Suc (length ?rest + k)) V s"
      using Cons.prems(1) unfolding first by simp
    have absent: "(level, region K level a) \<notin> kv_tables V (vs_root vs)"
      using False Cons.prems(4,5) by (auto simp: region)
    have parents: "covered K level a (kv_tables V (vs_root vs))"
      using Cons.prems(4,6) by (auto simp: covered_def)
    from create_table_succeeds [OF kernel inj bp level st Cons.prems(2) _ parents absent] Cons.prems(3)
    obtain t W where step: "create_table K vs (ty, a) s = (Ok (), t)"
      and st': "stands K bi B view room cp (length ?rest + n) (length ?rest + k) W t"
      and W: "tables_to (vs_root vs) (insert (level, region K level a) (kv_tables V (vs_root vs))) V W" by auto
    from W Cons.prems(2-4) have "kv_caps W (vs_root vs) = Some (VSpaceCap True)"
      "\<forall>a \<in> set pages. a < kv_user_top W" "kv_tables W (vs_root vs) = ?T (set (prior @ [a]))"
      by (auto simp: tables_to_def grows_def retains_def)
    from Cons.IH [OF st' this Cons.prems(5), unfolded union] Cons.prems(6) obtain u V' where
      rest: "pfor (map (Pair ty) ?rest) (create_table K vs) t = (Ok (), u)" "stands K bi B view room cp n k V' u"
      "tables_to (vs_root vs) (?T (set prior \<union> set (a # pages))) W V'" by auto
    have "tables_to (vs_root vs) (?T (set prior \<union> set (a # pages))) V V'"
      using W rest(3) by (auto simp: tables_to_def intro: grows_trans)
    with step rest(1,2) show ?thesis unfolding first by (auto simp: pbind_def)
  qed
qed

text \<open>The tables of the levels below \<open>m\<close>, as a plan and as a set.\<close>

abbreviation plan_to :: "'k sel4 \<Rightarrow> nat \<Rightarrow> usize list \<Rightarrow> (nat \<times> usize) list" where
  "plan_to K m pages \<equiv> concat (map (\<lambda>level. map (Pair (the (table_from_level K level)))
     (first_uses (push_bit (unat (span_bits K level)) 1) [] pages)) [1 ..< m])"

definition tables_upto :: "'k sel4 \<Rightarrow> nat \<Rightarrow> usize list \<Rightarrow> (nat \<times> usize) set" where
  "tables_upto K m pages = {(level, region K level a) | level a. level \<in> {1 ..< m} \<and> a \<in> set pages}"

lemma levels_succeed:
  assumes kernel: "obliging K bi B view room" and inj: "inj (slot_cptr K)" and levels: "levels_ok K"
    and B: "\<forall>level \<in> {1 ..< NUM_LEVELS K}. TableBp (the (table_from_level K level)) \<in> B"
    and vs: "kv_caps V (vs_root vs) = Some (VSpaceCap True)" "kv_tables V (vs_root vs) = {}"
    and top: "\<forall>a \<in> set pages. a < kv_user_top V"
  shows "m \<le> NUM_LEVELS K \<Longrightarrow>
    stands K bi B view room cp (length (plan_to K m pages) + n) (length (plan_to K m pages) + k) V s \<Longrightarrow>
    \<exists>t V'. pfor (plan_to K m pages) (create_table K vs) s = (Ok (), t) \<and>
      stands K bi B view room cp n k V' t \<and> tables_to (vs_root vs) (tables_upto K m pages) V V'"
proof (induction m arbitrary: n k)
  case 0
  then show ?case using vs by (auto simp: pret_def tables_to_def grows_refl tables_upto_def)
next
  case (Suc m)
  show ?case
  proof (cases "m = 0")
    case True
    with Suc.prems vs show ?thesis by (auto simp: pret_def tables_to_def grows_refl tables_upto_def)
  next
    case False
    then have level: "m \<in> {1 ..< NUM_LEVELS K}" using Suc.prems(1) by simp
    with levels have "table_from_level K m \<noteq> None" unfolding levels_ok_def by blast
    then obtain ty where ty: "table_from_level K m = Some ty" by blast
    let ?span = "push_bit (unat (span_bits K m)) 1"
    let ?step = "map (Pair ty) (first_uses ?span [] pages)"
    have plan: "plan_to K (Suc m) pages = plan_to K m pages @ ?step" using False ty by simp
    have "m \<le> NUM_LEVELS K" using Suc.prems(1) by simp
    from Suc.IH [OF this, of "length (first_uses ?span [] pages) + n" "length (first_uses ?span [] pages) + k"]
      Suc.prems(2) [unfolded plan] obtain t W where
      run: "pfor (plan_to K m pages) (create_table K vs) s = (Ok (), t)"
      and st: "stands K bi B view room cp (length (first_uses ?span [] pages) + n) (length (first_uses ?span [] pages) + k) W t"
      and W: "tables_to (vs_root vs) (tables_upto K m pages) V W" by (auto simp: add.assoc)
    have bp: "TableBp ty \<in> B" using B level ty by fastforce
    from W vs(1) top have "kv_caps W (vs_root vs) = Some (VSpaceCap True)"
      "\<forall>a \<in> set pages. a < kv_user_top W" by (auto simp: tables_to_def grows_def retains_def)
    moreover have "kv_tables W (vs_root vs) = tables_upto K m pages \<union> (\<lambda>a. (m, region K m a)) ` set []"
      using W by (simp add: tables_to_def)
    moreover have "\<forall>(l, r) \<in> tables_upto K m pages. l < m" by (auto simp: tables_upto_def)
    moreover have "\<forall>a \<in> set pages. covered K m a (tables_upto K m pages)"
      by (auto simp: covered_def tables_upto_def)
    ultimately obtain u V' where rest: "pfor ?step (create_table K vs) t = (Ok (), u)" "stands K bi B view room cp n k V' u"
      "tables_to (vs_root vs) (tables_upto K m pages \<union> (\<lambda>a. (m, region K m a)) ` (set [] \<union> set pages)) W V'"
      using level_succeeds [OF kernel inj bp level ty refl st] by metis
    have "tables_upto K m pages \<union> (\<lambda>a. (m, region K m a)) ` (set [] \<union> set pages) = tables_upto K (Suc m) pages"
      using False by (auto simp: tables_upto_def less_Suc_eq)
    with rest(3) W have "tables_to (vs_root vs) (tables_upto K (Suc m) pages) V V'"
      by (auto simp: tables_to_def intro: grows_trans)
    with run rest(1,2) show ?thesis unfolding plan pfor_append by (auto simp: pbind_def)
  qed
qed

lemma vspace_succeeds:
  assumes kernel: "obliging K bi B view room" and inj: "inj (slot_cptr K)" and levels: "levels_ok K"
    and B: "VSpaceBp \<in> B" "\<forall>level \<in> {1 ..< NUM_LEVELS K}. TableBp (the (table_from_level K level)) \<in> B"
    and st: "stands K bi B view room cp (Suc (length (table_plan K (pages @ reserved)) + n))
      (Suc (length (table_plan K (pages @ reserved)) + k)) V s"
    and asids: "0 < kv_asids V" and top: "\<forall>a \<in> set (pages @ reserved). a < kv_user_top V"
  shows "\<exists>vs t V'. vspace_create K pages reserved s = (Ok vs, t) \<and> stands K bi B view room cp n k V' t \<and>
    retains V V' \<and> kv_asids V = Suc (kv_asids V') \<and> kv_caps V (vs_root vs) = None \<and>
    aspace K (set (pages @ reserved)) (vs_root vs) {} V'"
proof -
  from allocate_succeeds [OF kernel inj B(1) st] obtain c t where
    alloc: "bootstrap_allocate_blueprint K VSpaceBp s = (Ok c, t)" and new: "kv_caps V c = None"
    and st1: "stands K bi B view room cp (length (table_plan K (pages @ reserved)) + n)
      (length (table_plan K (pages @ reserved)) + k) (fresh VSpaceBp c V) t" by blast
  let ?W = "fresh VSpaceBp c V"
  have "can_assign c ?W" using asids by (simp add: can_assign_def fresh_def hold_def)
  moreover have "kv_caps (assigned c ?W) x = None" if "kv_caps ?W x = None" for x
    using that by (auto simp: assigned_def fresh_def hold_def split: if_splits)
  ultimately obtain u where
    call: "on_world (pmap_err (\<lambda>_. VSpaceCreationFailed) (syscall (asid_pool_assign K (init_asid_pool K) c))) t = (Ok (), u)"
    and st2: "stands K bi B view room cp (length (table_plan K (pages @ reserved)) + n)
      (length (table_plan K (pages @ reserved)) + k) (assigned c ?W) u"
    using call_succeeds [OF obliging_assign [OF kernel] st1] by blast
  have at: "kv_caps (assigned c ?W) c = Some (VSpaceCap True)" "kv_tables (assigned c ?W) c = {}"
    "kv_pages (assigned c ?W) c = {}" "kv_user_top (assigned c ?W) = kv_user_top V"
    by (simp_all add: assigned_def fresh_def hold_def)
  from levels_succeed [OF kernel inj levels B(2), of "assigned c ?W" "\<lparr>vs_root = c\<rparr>" "pages @ reserved" "NUM_LEVELS K",
      folded table_plan_def, OF _ _ _ order_refl st2] at top obtain v V' where
    run: "pfor (table_plan K (pages @ reserved)) (create_table K \<lparr>vs_root = c\<rparr>) u = (Ok (), v)"
    and st3: "stands K bi B view room cp n k V' v"
    and V': "tables_to c (tables_upto K (NUM_LEVELS K) (pages @ reserved)) (assigned c ?W) V'"
    by (auto simp del: push_bit_of_1)
  have "vspace_create K pages reserved s = (Ok \<lparr>vs_root = c\<rparr>, v)"
    using alloc call run by (simp add: vspace_create_def allocate_is_blueprint pbind_def pret_def Let_def
        map_translation_tables_plan [OF levels])
  moreover have "retains V (assigned c ?W)" "kv_asids V = Suc (kv_asids (assigned c ?W))"
    using new asids by (auto simp: retains_def assigned_def fresh_def hold_def)
  then have "retains V V'" "kv_asids V = Suc (kv_asids V')"
    using V' by (auto simp: tables_to_def grows_def intro: retains_trans)
  moreover have "aspace K (set (pages @ reserved)) c {} V'"
    using V' at top by (auto simp: tables_to_def aspace_def grows_def retains_def covered_def tables_upto_def)
  ultimately show ?thesis using st3 new by auto
qed

lemma frame_succeeds:
  assumes kernel: "obliging K bi B view room" and inj: "inj (slot_cptr K)" and B: "GranuleBp \<in> B"
    and st: "stands K bi B view room cp (Suc n) (Suc k) V s" and vs: "aspace K P vs A V"
  shows "\<exists>c t V'. bootstrap_allocate_frame K s = (Ok c, t) \<and> stands K bi B view room cp n k V' t \<and>
    grows V V' \<and> aspace K P vs A V' \<and> kv_caps V' c = Some (FrameCap False)"
proof -
  from allocate_succeeds [OF kernel inj B st] obtain c t where
    run: "bootstrap_allocate_frame K s = (Ok c, t)" and new: "kv_caps V c = None"
    and st': "stands K bi B view room cp n k (fresh GranuleBp c V) t" by (auto simp: allocate_is_blueprint)
  moreover have "kv_caps (fresh GranuleBp c V) c = Some (FrameCap False)" by (simp add: fresh_def hold_def)
  ultimately show ?thesis using grows_fresh [OF new] aspace_fresh [OF vs new] by blast
qed

lemma map_frame_succeeds:
  assumes kernel: "obliging K bi B view room" and inj: "inj (slot_cptr K)"
    and st: "stands K bi B view room cp (Suc n) k V s" and vs: "aspace K P (vs_root vs) A V"
    and owner: "kv_caps V (frame_cap f) = Some (FrameCap x)"
    and a: "a \<in> P" "a \<notin> A" "is_multiple_of a (GRANULE_BYTES K)"
  shows "\<exists>m t V'. vspace_map_frame K vs f a rights s = (Ok m, t) \<and> stands K bi B view room cp n k V' t \<and>
    grows V V' \<and> aspace K P (vs_root vs) (insert a A) V' \<and> kv_caps V' m = Some (FrameCap True)"
proof -
  from copy_succeeds [OF kernel inj st owner] obtain c t where
    copy: "bootstrap_copy_cap K (frame_cap f) rights s = (Ok c, t)" and new: "kv_caps V c = None"
    and st': "stands K bi B view room cp n k (hold c (FrameCap False) V) t" by blast
  let ?W = "hold c (FrameCap False) V"
  let ?V' = "mapped_frame c (vs_root vs) a ?W"
  from new vs have ne: "vs_root vs \<noteq> c" by (auto simp: aspace_def)
  have "can_map_frame K c (vs_root vs) a ?W"
    using vs a ne by (auto simp: can_map_frame_def hold_def aspace_def)
  moreover have "kv_caps ?V' x = None" if "kv_caps ?W x = None" for x
    using that by (auto simp: mapped_frame_def hold_def split: if_splits)
  ultimately obtain u where
    call: "on_world (pmap_err (\<lambda>_. FrameMappingFailed) (syscall (frame_map K c (vs_root vs) a rights DefaultVmAttributes))) t = (Ok (), u)"
    and st'': "stands K bi B view room cp n k ?V' u"
    using call_succeeds [OF obliging_frame [OF kernel] st'] by blast
  have "vspace_map_frame K vs f a rights s = (Ok c, u)"
    using a(3) copy call by (simp add: vspace_map_frame_def pbind_def pret_def)
  moreover have "grows V ?V'" using new by (auto simp: grows_def retains_def mapped_frame_def hold_def)
  moreover have "aspace K P (vs_root vs) (insert a A) ?V'"
    using vs ne by (auto simp: aspace_def mapped_frame_def hold_def)
  moreover have "kv_caps ?V' c = Some (FrameCap True)" by (simp add: mapped_frame_def hold_def)
  ultimately show ?thesis using st'' by blast
qed

section \<open>CSpaces and threads\<close>

definition with_children :: "cptr \<Rightarrow> u64 set \<Rightarrow> kview \<Rightarrow> kview" where
  "with_children root S V = V\<lparr>kv_children := (kv_children V)(root := S)\<rparr>"

lemma with_children_simps [simp]:
  "with_children r S (with_children r T V) = with_children r S V"
  "with_children r (kv_children V r) V = V"
  "kv_caps (with_children r S V) = kv_caps V" "kv_children (with_children r S V) r = S"
  "kv_asids (with_children r S V) = kv_asids V" "kv_user_top (with_children r S V) = kv_user_top V"
  by (simp_all add: with_children_def)

lemma install_all_succeeds:
  assumes kernel: "obliging K bi B view room"
  shows "tracker_wf (tracker_cells w (cs_slots cs)) \<Longrightarrow>
    \<forall>c \<in> set caps. dc_destination c \<noteq> 0 \<and> dc_destination c < st_capacity (tracker_cells w (cs_slots cs)) \<and>
      unat (dc_destination c) < 2 ^ unat (cs_size_bits cs) \<Longrightarrow>
    distinct (map dc_destination caps) \<Longrightarrow> tracker_view (tracker_cells w (cs_slots cs)) = owned_view S \<Longrightarrow>
    S \<inter> dc_destination ` set caps = {} \<Longrightarrow>
    kv_caps (view (kstate (mach w))) (cs_root cs) = Some (CNodeCap (cs_size_bits cs)) \<Longrightarrow>
    kv_children (view (kstate (mach w))) (cs_root cs) = S \<Longrightarrow>
    \<forall>c \<in> set caps. kv_caps (view (kstate (mach w))) (dc_source c) = Some (SignalCap 0) \<Longrightarrow>
    \<exists>v. pfor caps (cspace_install K cs) w = (Ok (), v) \<and> room (kstate (mach v)) = room (kstate (mach w)) \<and>
      view (kstate (mach v)) = with_children (cs_root cs) (S \<union> dc_destination ` set caps) (view (kstate (mach w)))"
proof (induction caps arbitrary: w S)
  case Nil
  then show ?case by (auto simp: pret_def)
next
  case (Cons c caps)
  let ?V = "view (kstate (mach w))"
  obtain r u where step: "cspace_install K cs c w = (r, u)" by fastforce
  have "tracker_view (tracker_cells w (cs_slots cs)) (dc_destination c) = SFree"
    using Cons.prems(4,5) by (auto simp: owned_view_def)
  note run = install_run [OF Cons.prems(1) _ _ this step]
  have "can_mint (cs_root cs) (dc_destination c) (cs_size_bits cs) (dc_source c) ?V"
    using Cons.prems by (auto simp: can_mint_def)
  with obliging_mint [OF kernel] obtain m where
    mint: "cnode_mint K (AbsBits (cs_root cs) (dc_destination c) (cs_size_bits cs))
      (AbsCPtr (init_cnode K) (dc_source c)) (dc_rights c) (dc_badge c) (mach w) = (Ok (), m)"
    and m: "view (kstate m) = with_children (cs_root cs) (insert (dc_destination c) S) ?V" "room (kstate m) = room (kstate (mach w))"
    using Cons.prems(7) unfolding performs_def minted_def with_children_def by blast
  from run Cons.prems(2) mint have u: "mach u = m" "r = Ok ()" "tracker_wf (tracker_cells u (cs_slots cs))"
    "st_capacity (tracker_cells u (cs_slots cs)) = st_capacity (tracker_cells w (cs_slots cs))"
    "tracker_view (tracker_cells u (cs_slots cs)) = (tracker_view (tracker_cells w (cs_slots cs)))(dc_destination c := SOwned)"
    by simp_all
  have view: "tracker_view (tracker_cells u (cs_slots cs)) = owned_view (insert (dc_destination c) S)"
    using u(5) Cons.prems(4) by (auto simp: owned_view_def)
  have disj: "insert (dc_destination c) S \<inter> dc_destination ` set caps = {}" using Cons.prems(3,5) by auto
  have now: "kv_caps (view (kstate (mach u))) = kv_caps ?V"
    "kv_children (view (kstate (mach u))) (cs_root cs) = insert (dc_destination c) S"
    using u(1) m(1) by simp_all
  from Cons.IH [OF u(3) _ _ view disj _ now(2)] Cons.prems(2,3,6,8) u(4) now(1) obtain v where
    rest: "pfor caps (cspace_install K cs) u = (Ok (), v)" "room (kstate (mach v)) = room (kstate (mach u))"
    "view (kstate (mach v)) = with_children (cs_root cs) (insert (dc_destination c) S \<union> dc_destination ` set caps)
      (view (kstate (mach u)))" by auto
  have "pfor (c # caps) (cspace_install K cs) w = (Ok (), v)" using step u(2) rest(1) by (simp add: pbind_def)
  moreover have "insert (dc_destination c) S \<union> dc_destination ` set caps = S \<union> dc_destination ` set (c # caps)"
    by simp
  ultimately show ?case using rest(2,3) u(1) m by (intro exI [of _ v]) simp
qed

lemma cspace_succeeds:
  assumes kernel: "obliging K bi B view room" and inj: "inj (slot_cptr K)" and B: "CNodeBp bits \<in> B"
    and st: "stands K bi B view room cp (Suc n) (Suc k) V s"
    and ok: "delegations_ok K bits (caps @ route_list route)" and small: "bits \<le> 8"
    and sources: "\<forall>c \<in> set (caps @ route_list route). kv_caps V (dc_source c) = Some (SignalCap 0)"
  shows "\<exists>cs t V'. cspace_create K bits caps route s = (Ok cs, t) \<and> stands K bi B view room cp n k V' t \<and>
    grows V V' \<and> cs_size_bits cs = bits \<and> kv_caps V (cs_root cs) = None \<and>
    kv_caps V' (cs_root cs) = Some (CNodeCap bits)"
proof -
  let ?all = "caps @ route_list route"
  from allocate_succeeds [OF kernel inj B st] obtain root b u where
    alloc: "bootstrap_allocate_variable_object K CNodeBp bits s = (Ok root, (b, u))" and new: "kv_caps V root = None"
    and st': "stands K bi B view room cp n k (fresh (CNodeBp bits) root V) (b, u)"
    by (auto simp: allocate_is_blueprint)
  let ?W = "fresh (CNodeBp bits) root V" and ?cap = "push_bit (unat bits) 1 :: usize"
  let ?cs = "\<lparr>cs_root = root, cs_size_bits = bits, cs_slots = next_cell u\<rparr>"
  let ?t = "\<lparr>st_capacity = ?cap, st_states = replicate 256 FREE\<rparr>"
  let ?w = "set_tracker (next_cell u) ?t (u\<lparr>next_cell := Suc (next_cell u)\<rparr>)"
  from ok have s: "0 < bits" "bits < WORD_SIZE K" "bits < 64" "unat bits < 64"
    by (auto simp: delegations_ok_def word_less_nat_alt)
  have capacity: "cspace_capacity K bits = Ok ?cap" using s by (simp add: cspace_capacity_eq)
  have "(2 :: nat) ^ unat bits \<le> 2 ^ 8"
    using small by (intro power_increasing) (simp_all add: word_le_nat_alt)
  then have "?cap \<le> 256" by (simp add: word_le_nat_alt unat_shl_1 [OF s(4)] del: push_bit_of_1)
  then have tracker: "slot_tracker_try_new ?cap = Ok ?t" by (simp add: try_new_eq del: push_bit_of_1)
  from try_new_wf [OF tracker] have t: "tracker_wf ?t" "tracker_view ?t = owned_view {}"
    by (simp_all add: owned_view_def)
  have W: "view (kstate (mach u)) = ?W" using st' by (simp add: stands_def)
  have cell: "tracker_cells ?w (cs_slots ?cs) = ?t" "mach ?w = mach u" by simp_all
  have dests: "\<forall>c \<in> set ?all. dc_destination c \<noteq> 0 \<and> dc_destination c < st_capacity ?t \<and>
      unat (dc_destination c) < 2 ^ unat (cs_size_bits ?cs)"
    using delegations_in_range [OF ok] ok by (auto simp: delegations_ok_def simp del: push_bit_of_1)
  have sources': "\<forall>c \<in> set ?all. kv_caps ?W (dc_source c) = Some (SignalCap 0)"
    using sources new by (auto simp: fresh_def hold_def)
  have "distinct (map dc_destination ?all)" using ok by (simp add: delegations_ok_def)
  from install_all_succeeds [OF kernel, of ?w ?cs ?all "{}", unfolded cell W, OF t(1) dests this t(2) _ _ _ sources']
  obtain v where loop: "pfor ?all (cspace_install K ?cs) ?w = (Ok (), v)"
    and v: "room (kstate (mach v)) = room (kstate (mach u))"
      "view (kstate (mach v)) = with_children root (dc_destination ` set ?all) ?W"
    by (auto simp: fresh_def hold_def)
  let ?V' = "with_children root (dc_destination ` set ?all) ?W"
  have "cspace_create K bits caps route s = (Ok ?cs, (b, v))"
    using alloc loop by (simp add: cspace_create_def Let_def install_route pbind_Ok pres_def cspace_validate_eq ok
        capacity tracker on_world_Ok fresh_cell_def pmodify_def pret_def del: push_bit_of_1)
  moreover have "stands K bi B view room cp n k ?V' (b, v)" using st' v by (simp add: stands_def)
  moreover have "grows V ?V'" using grows_fresh [OF new] by (simp add: grows_def retains_def)
  moreover have "kv_asids ?V' = kv_asids V" "kv_caps ?V' root = Some (CNodeCap bits)"
    by (simp_all add: fresh_def hold_def)
  ultimately show ?thesis using new by (intro exI [of _ ?cs] exI [of _ "(b, v)"] exI [of _ ?V']) simp
qed

lemma thread_succeeds:
  assumes kernel: "obliging K bi B view room" and inj: "inj (slot_cptr K)" and B: "TcbBp \<in> B"
    and st: "stands K bi B view room cp (Suc n) (Suc k) V s"
    and ctxt: "context_wf (default_context K)" "length (tc_arguments config) \<le> 31"
    and cs: "kv_caps V (cs_root cs) = Some (CNodeCap (cs_size_bits cs))" "cs_size_bits cs \<le> WORD_SIZE K"
    and vs: "aspace K P (vs_root vs) A V"
    and buf: "kv_caps V (tc_ipc_buffer_mapping config) = Some (FrameCap True)"
      "is_multiple_of (tc_ipc_buffer_address config) (GRANULE_BYTES K)"
  shows "\<exists>th t V'. thread_create K cs vs config s = (Ok th, t) \<and> stands K bi B view room cp n k V' t \<and>
    grows V V' \<and> aspace K P (vs_root vs) A V' \<and> kv_caps V' (thread_tcb th) = Some TcbCap"
proof -
  from allocate_succeeds [OF kernel inj B st] obtain c t where
    alloc: "bootstrap_allocate_object K TcbBp s = (Ok c, t)" and new: "kv_caps V c = None"
    and st1: "stands K bi B view room cp n k (fresh TcbBp c V) t" by (auto simp: allocate_is_blueprint)
  let ?W = "fresh TcbBp c V" and ?data = "CNodeCapData 0 (WORD_SIZE K - cs_size_bits cs)"
  have grow: "kv_caps V x = Some y \<Longrightarrow> kv_caps ?W x = Some y" for x y using grows_fresh [OF new] by (simp add: grows_def retains_def)
  have tcb: "kv_caps ?W c = Some TcbCap" by (simp add: fresh_def hold_def)
  then have pre: "can_configure K c (cs_root cs) ?data (vs_root vs) (tc_ipc_buffer_address config)
      (tc_ipc_buffer_mapping config) ?W"
    using cs vs buf by (auto simp: can_configure_def aspace_def intro: grow)
  have data: "cspace_root_data K cs = (Ok ?data :: (cnode_cap_data, bootstrap_error) res)" using cs(2) by (simp add: cspace_root_data_def checked_sub_def)
  from call_succeeds [OF obliging_configure [OF kernel] st1 pre] obtain u where
    conf: "on_world (pmap_err (\<lambda>_. ThreadConfigurationFailed) (syscall (tcb_configure K c (tc_fault_endpoint config)
      (cs_root cs) ?data (vs_root vs) (tc_ipc_buffer_address config) (tc_ipc_buffer_mapping config)))) t = (Ok (), u)"
    and st2: "stands K bi B view room cp n k ?W u" by (metis id_apply)
  let ?ctx = "(default_context K)\<lparr>uc_pc := tc_entry config, uc_sp := tc_stack_pointer config\<rparr>"
  have "\<exists>ctx. set_arguments 0 (tc_arguments config) ?ctx = Ok ctx"
    using ctxt by (subst set_arguments_run) (simp_all add: context_wf_def)
  then obtain ctx where args: "set_arguments 0 (tc_arguments config) ?ctx = Ok ctx" by blast
  from call_succeeds [OF obliging_registers [OF kernel] st2 tcb] obtain v where
    regs: "on_world (pmap_err (\<lambda>_. ThreadConfigurationFailed) (syscall (tcb_write_all_registers K c False ctx))) u = (Ok (), v)"
    and st3: "stands K bi B view room cp n k ?W v" by (metis id_apply)
  have "thread_create K cs vs config s = (Ok (Thread c), v)"
    using alloc data conf args regs by (simp add: thread_create_def pbind_def pres_def pret_def try_into_word_def)
  with st3 grows_fresh [OF new] aspace_fresh [OF vs new] tcb show ?thesis by (metis thread.sel)
qed

section \<open>Tasks\<close>

lemma private_page_succeeds:
  assumes kernel: "obliging K bi B view room" and inj: "inj (slot_cptr K)" and B: "GranuleBp \<in> B"
    and st: "stands K bi B view room cp (Suc (Suc n)) (Suc k) V s" and vs: "aspace K P (vs_root vs) A V"
    and a: "a \<in> P" "a \<notin> A" "is_multiple_of a (GRANULE_BYTES K)"
  shows "\<exists>c t m u V'. bootstrap_allocate_frame K s = (Ok c, t) \<and>
    vspace_map_frame K vs (Frame c) a rights t = (Ok m, u) \<and> stands K bi B view room cp n k V' u \<and>
    grows V V' \<and> aspace K P (vs_root vs) (insert a A) V' \<and> kv_caps V' m = Some (FrameCap True) \<and>
    kv_caps V' c = Some (FrameCap False)"
proof -
  from frame_succeeds [OF kernel inj B st vs] obtain c t W where
    frame: "bootstrap_allocate_frame K s = (Ok c, t)" "stands K bi B view room cp (Suc n) k W t"
      "grows V W" "aspace K P (vs_root vs) A W" "kv_caps W c = Some (FrameCap False)" by blast
  have "kv_caps W (frame_cap (Frame c)) = Some (FrameCap False)" using frame(5) by simp
  from map_frame_succeeds [OF kernel inj frame(2,4) this a] frame(1,3,5) show ?thesis
    by (blast intro: grows_trans grows_caps)
qed

text \<open>The object types a task is made of.\<close>

definition task_objects :: "'k sel4 \<Rightarrow> task_config \<Rightarrow> blueprint set" where
  "task_objects K config = {CNodeBp (tk_cspace_size_bits config), VSpaceBp, GranuleBp, TcbBp} \<union>
     (\<lambda>level. TableBp (the (table_from_level K level))) ` {1 ..< NUM_LEVELS K}"

text \<open>A checkpoint may be taken anew.\<close>

lemma stands_anew:
  "stands K bi B view room cp n k V (b, w) \<Longrightarrow> stands K bi B view room (bootstrap_checkpoint b) n k V (b, w)"
  by (auto simp: stands_def bootstrap_checkpoint_def free_slots_checkpoint_def)

text \<open>
  A configuration the kernel has no reason to refuse: a sound layout below the end of user space,
  valid delegations of unbadged endpoints and notifications, a shared code frame, and an address
  space identifier to spare.
\<close>

definition acceptable :: "'k sel4 \<Rightarrow> task_config \<Rightarrow> kview \<Rightarrow> bool" where
  "acceptable K config V \<longleftrightarrow>
     (\<exists>l. layout_validate (GRANULE_BYTES K) (sc_address (tk_code config)) (sc_entry (tk_code config))
        (tk_private_memory_address config) (tk_stack_address config) (tk_ipc_buffer_address config)
        (tk_reserved_pages config) = Ok l) \<and>
     (\<forall>a \<in> set (task_pages config). a < kv_user_top V) \<and>
     delegations_ok K (tk_cspace_size_bits config) (tk_delegated_capabilities config @ route_list (tk_fault_route config)) \<and>
     tk_cspace_size_bits config \<le> 8 \<and>
     (\<forall>c \<in> set (tk_delegated_capabilities config @ route_list (tk_fault_route config)).
        kv_caps V (dc_source c) = Some (SignalCap 0)) \<and>
     (\<exists>x. kv_caps V (frame_cap (sc_frame (tk_code config))) = Some (FrameCap x)) \<and>
     0 < kv_asids V \<and> length (tk_initial_arguments config) = 4"

lemma layout_all_pages:
  assumes "layout_validate (GRANULE_BYTES K) code entry priv stack ipc reserved = Ok l"
  shows "distinct ([code, priv, stack, ipc] @ reserved) \<and>
    (\<forall>a \<in> set ([code, priv, stack, ipc] @ reserved). is_multiple_of a (GRANULE_BYTES K))"
proof -
  from assms have page: "is_power_of_two (GRANULE_BYTES K)"
    by (auto simp: layout_validate_eq split: if_splits)
  from assms have "check_pages (GRANULE_BYTES K) [] [] ([code, priv, stack, ipc] @ reserved) = Ok ()"
    by (cases "check_pages (GRANULE_BYTES K) [] [] (code # priv # stack # ipc # reserved)",
        auto simp: layout_validate_eq split: if_splits)
  with power_of_two_nonzero [OF page] show ?thesis
    by (simp add: check_pages_Ok pages_ok_def is_multiple_of_unat)
qed

lemma layout_pages:
  assumes "layout_validate (GRANULE_BYTES K) code entry priv stack ipc reserved = Ok l"
  shows "distinct [code, priv, stack, ipc]" "\<forall>a \<in> {code, priv, stack, ipc}. is_multiple_of a (GRANULE_BYTES K)"
  using layout_all_pages [OF assms] by auto

lemma committed_since_succeeds:
  "stands K bi B view room cp n k V s \<Longrightarrow> \<exists>slots. committed_since cp s = (Ok slots, s)"
  by (cases s) (simp add: stands_def committed_since_def bootstrap_committed_slots_def free_slots_allocated_since_def)

lemma fault_cptr_succeeds: "\<exists>c. task_fault_cptr K route = Ok c"
  by (simp add: task_fault_cptr_def try_into_word_def split: option.splits)

text \<open>
  A constructed task as the view shows it: its four pages mapped and no others, tables for the
  reserved ones, and a capability of the right type for each of its resources.
\<close>

definition task_ready :: "'k sel4 \<Rightarrow> task_config \<Rightarrow> task \<Rightarrow> kview \<Rightarrow> bool" where
  "task_ready K config t V \<longleftrightarrow>
     aspace K (set (task_pages config)) (vs_root (tsk_vspace t)) {tk_ipc_buffer_address config,
       tk_stack_address config, tk_private_memory_address config, sc_address (tk_code config)} V \<and>
     kv_caps V (cs_root (tsk_cspace t)) = Some (CNodeCap (tk_cspace_size_bits config)) \<and>
     kv_caps V (thread_tcb (tsk_thread t)) = Some TcbCap \<and>
     kv_caps V (frame_cap (tsk_private_memory t)) = Some (FrameCap False) \<and>
     kv_caps V (frame_cap (tsk_stack t)) = Some (FrameCap False) \<and>
     kv_caps V (frame_cap (tsk_ipc_buffer t)) = Some (FrameCap False)"

lemma create_task_inner_succeeds:
  fixes config :: task_config and K :: "'k sel4"
  defines "p \<equiv> length (table_plan K (task_pages config))"
  assumes kernel: "obliging K bi B view room" and objects: "task_objects K config \<subseteq> B"
    and inj: "inj (slot_cptr K)" and levels: "levels_ok K" and ctxt: "context_wf (default_context K)"
    and config: "acceptable K config V"
    and st: "stands K bi B view room cp (10 + p + n) (6 + p + k) V s"
  shows "\<exists>t u V'. create_task_inner K config layout cp s = (Ok t, u) \<and> stands K bi B view room cp n k V' u \<and>
    retains V V' \<and> kv_asids V = Suc (kv_asids V') \<and> task_ready K config t V' \<and>
    kv_caps V (cs_root (tsk_cspace t)) = None \<and> kv_caps V (vs_root (tsk_vspace t)) = None"
proof -
  let ?caps = "tk_delegated_capabilities config" and ?route = "tk_fault_route config"
  let ?code = "sc_address (tk_code config)" and ?priv = "tk_private_memory_address config"
  let ?stack = "tk_stack_address config" and ?ipc = "tk_ipc_buffer_address config"
  let ?stands = "stands K bi B view room cp"
  have B: "CNodeBp (tk_cspace_size_bits config) \<in> B" "VSpaceBp \<in> B" "GranuleBp \<in> B" "TcbBp \<in> B"
    "\<forall>level \<in> {1 ..< NUM_LEVELS K}. TableBp (the (table_from_level K level)) \<in> B"
    using objects by (auto simp: task_objects_def)
  from config obtain l x where layout: "layout_validate (GRANULE_BYTES K) ?code (sc_entry (tk_code config)) ?priv
      ?stack ?ipc (tk_reserved_pages config) = Ok l"
    and top: "\<forall>a \<in> set (task_pages config). a < kv_user_top V"
    and deleg: "delegations_ok K (tk_cspace_size_bits config) (?caps @ route_list ?route)"
      "tk_cspace_size_bits config \<le> 8"
      "\<forall>c \<in> set (?caps @ route_list ?route). kv_caps V (dc_source c) = Some (SignalCap 0)"
    and code: "kv_caps V (frame_cap (sc_frame (tk_code config))) = Some (FrameCap x)"
    and asids: "0 < kv_asids V" and args: "length (tk_initial_arguments config) = 4"
    unfolding acceptable_def by blast
  note pages = layout_pages [OF layout]
  have st0: "?stands (Suc (Suc (p + Suc (Suc (Suc (Suc (Suc (Suc (Suc (Suc n))))))))))
      (Suc (Suc (p + Suc (Suc (Suc (Suc k)))))) V s" using st by (simp add: eval_nat_numeral)
  from cspace_succeeds [OF kernel inj B(1) st0 deleg] obtain cs s1 V1 where
    cs: "cspace_create K (tk_cspace_size_bits config) ?caps ?route s = (Ok cs, s1)"
      "cs_size_bits cs = tk_cspace_size_bits config" "kv_caps V1 (cs_root cs) = Some (CNodeCap (tk_cspace_size_bits config))"
      "kv_caps V (cs_root cs) = None"
    and g1: "grows V V1"
    and st1: "?stands (Suc (p + Suc (Suc (Suc (Suc (Suc (Suc (Suc (Suc n)))))))))
      (Suc (p + Suc (Suc (Suc (Suc k))))) V1 s1" by blast
  have "0 < kv_asids V1" "\<forall>a \<in> set (task_pages config). a < kv_user_top V1"
    using top asids g1 by (simp_all add: grows_def retains_def)
  from vspace_succeeds [OF kernel inj levels B(2,5) st1 [unfolded p_def] this]
  obtain vs s2 V2 where
    vs: "vspace_create K [?code, ?priv, ?stack, ?ipc] (tk_reserved_pages config) s1 = (Ok vs, s2)"
    and st2: "?stands (Suc (Suc (Suc (Suc (Suc (Suc (Suc (Suc n)))))))) (Suc (Suc (Suc (Suc k)))) V2 s2"
    and g2: "retains V1 V2" "kv_asids V1 = Suc (kv_asids V2)" "kv_caps V1 (vs_root vs) = None"
    and a2: "aspace K (set (task_pages config)) (vs_root vs) {} V2" by auto
  have "kv_caps V2 (frame_cap (sc_frame (tk_code config))) = Some (FrameCap x)"
    using retains_caps [OF g2(1) grows_caps [OF g1 code]] .
  from map_frame_succeeds [OF kernel inj st2 a2 this, of ?code RightsReadOnly] pages(2)
  obtain m3 s3 V3 where
    map3: "vspace_map_frame K vs (sc_frame (tk_code config)) ?code RightsReadOnly s2 = (Ok m3, s3)"
    and st3: "?stands (Suc (Suc (Suc (Suc (Suc (Suc (Suc n))))))) (Suc (Suc (Suc (Suc k)))) V3 s3"
    and g3: "grows V2 V3" and a3: "aspace K (set (task_pages config)) (vs_root vs) {?code} V3" by auto
  from private_page_succeeds [OF kernel inj B(3) st3 a3, of ?priv RightsReadWrite] pages
  obtain c4 t4 m4 s4 V4 where
    page4: "bootstrap_allocate_frame K s3 = (Ok c4, t4)"
      "vspace_map_frame K vs (Frame c4) ?priv RightsReadWrite t4 = (Ok m4, s4)" "kv_caps V4 c4 = Some (FrameCap False)"
    and st4: "?stands (Suc (Suc (Suc (Suc (Suc n))))) (Suc (Suc (Suc k))) V4 s4"
    and g4: "grows V3 V4" and a4: "aspace K (set (task_pages config)) (vs_root vs) {?priv, ?code} V4" by auto
  from private_page_succeeds [OF kernel inj B(3) st4 a4, of ?stack RightsReadWrite] pages
  obtain c5 t5 m5 s5 V5 where
    page5: "bootstrap_allocate_frame K s4 = (Ok c5, t5)"
      "vspace_map_frame K vs (Frame c5) ?stack RightsReadWrite t5 = (Ok m5, s5)" "kv_caps V5 c5 = Some (FrameCap False)"
    and st5: "?stands (Suc (Suc (Suc n))) (Suc (Suc k)) V5 s5"
    and g5: "grows V4 V5" and a5: "aspace K (set (task_pages config)) (vs_root vs) {?stack, ?priv, ?code} V5" by auto
  from private_page_succeeds [OF kernel inj B(3) st5 a5, of ?ipc RightsReadWrite] pages
  obtain c6 t6 m6 s6 V6 where
    page6: "bootstrap_allocate_frame K s5 = (Ok c6, t6)"
      "vspace_map_frame K vs (Frame c6) ?ipc RightsReadWrite t6 = (Ok m6, s6)" "kv_caps V6 c6 = Some (FrameCap False)"
    and st6: "?stands (Suc n) (Suc k) V6 s6" and g6: "grows V5 V6"
    and a6: "aspace K (set (task_pages config)) (vs_root vs) {?ipc, ?stack, ?priv, ?code} V6"
    and m6: "kv_caps V6 m6 = Some (FrameCap True)" by auto
  obtain ep where ep: "task_fault_cptr K ?route = Ok ep" using fault_cptr_succeeds by blast
  let ?tc = "\<lparr>tc_ipc_buffer_address = ?ipc, tc_ipc_buffer_mapping = m6, tc_entry = sc_entry (tk_code config),
    tc_stack_pointer = tl_stack_pointer layout, tc_arguments = tk_initial_arguments config, tc_fault_endpoint = ep\<rparr>"
  have root: "kv_caps V6 (cs_root cs) = Some (CNodeCap (cs_size_bits cs))"
    using cs(2,3) g2 g3 g4 g5 g6 by (simp add: grows_caps retains_caps)
  moreover have "tk_cspace_size_bits config < WORD_SIZE K" using deleg(1) unfolding delegations_ok_def by blast
  then have "cs_size_bits cs \<le> WORD_SIZE K" using cs(2) by simp
  ultimately obtain th s7 V7 where thread: "thread_create K cs vs ?tc s6 = (Ok th, s7)"
    and st7: "?stands n k V7 s7" and g7: "grows V6 V7"
    and a7: "aspace K (set (task_pages config)) (vs_root vs) {?ipc, ?stack, ?priv, ?code} V7"
    and tcb: "kv_caps V7 (thread_tcb th) = Some TcbCap"
    using thread_succeeds [OF kernel inj B(4) st6 ctxt _ _ _ a6, of ?tc cs] m6 args pages(2) by auto
  from committed_since_succeeds [OF st7] obtain slots where slots: "committed_since cp s7 = (Ok slots, s7)" by blast
  let ?t = "\<lparr>tsk_thread = th, tsk_cspace = cs, tsk_vspace = vs, tsk_private_memory = Frame c4, tsk_stack = Frame c5,
    tsk_ipc_buffer = Frame c6, tsk_root_slots = slots\<rparr>"
  have "create_task_inner K config layout cp s = (Ok ?t, s7)"
    using cs(1) vs map3 page4 page5 page6 ep thread slots
    by (simp add: create_task_inner_def pbind_def pres_def pret_def Let_def)
  moreover have "retains V V7" using g1 g2(1) g3 g4 g5 g6 g7 by (meson grows_retains retains_trans)
  moreover have "kv_asids V = Suc (kv_asids V7)" using g1 g2(2) g3 g4 g5 g6 g7 by (simp add: grows_def)
  moreover have "task_ready K config ?t V7"
    using a7 tcb cs(2) grows_caps [OF g7 root] page4(3) page5(3) page6(3) g5 g6 g7
    by (simp add: task_ready_def grows_caps)
  moreover have "kv_caps V (vs_root vs) = None" using retains_None [OF grows_retains [OF g1] g2(3)] .
  ultimately show ?thesis using st7 cs(4) by (intro exI [of _ ?t] exI [of _ s7] exI [of _ V7]) simp
qed

lemma create_task_runs:
  fixes config :: task_config and K :: "'k sel4"
  defines "p \<equiv> length (table_plan K (task_pages config))"
  assumes "obliging K bi B view room" and "task_objects K config \<subseteq> B"
    and "inj (slot_cptr K)" and "levels_ok K" and "context_wf (default_context K)"
    and "acceptable K config V"
    and "stands K bi B view room (bootstrap_checkpoint b) (10 + p + n) (6 + p + k) V (b, w)"
  shows "\<exists>t c v V'. create_task K config (b, w) = (Ok t, (c, v)) \<and>
    stands K bi B view room (bootstrap_checkpoint c) n k V' (c, v) \<and>
    retains V V' \<and> kv_asids V = Suc (kv_asids V') \<and> task_ready K config t V' \<and>
    kv_caps V (cs_root (tsk_cspace t)) = None \<and> kv_caps V (vs_root (tsk_vspace t)) = None"
proof -
  from assms(7) obtain l where layout: "layout_validate (GRANULE_BYTES K) (sc_address (tk_code config))
      (sc_entry (tk_code config)) (tk_private_memory_address config) (tk_stack_address config)
      (tk_ipc_buffer_address config) (tk_reserved_pages config) = Ok l"
    unfolding acceptable_def by blast
  from create_task_inner_succeeds [OF assms(2-7) assms(8) [unfolded p_def]] obtain t c v V' where
    run: "create_task_inner K config l (bootstrap_checkpoint b) (b, w) = (Ok t, (c, v))"
    and st: "stands K bi B view room (bootstrap_checkpoint b) n k V' (c, v)"
    and post: "retains V V'" "kv_asids V = Suc (kv_asids V')" "task_ready K config t V'"
      "kv_caps V (cs_root (tsk_cspace t)) = None" "kv_caps V (vs_root (tsk_vspace t)) = None" by (metis prod.exhaust)
  from stands_anew [OF st] run post layout show ?thesis by (auto simp: create_task_run)
qed

section \<open>The reference task\<close>

text \<open>
  The reference task with a delegated endpoint and a fault route, on the kernel that checks every
  precondition.
\<close>

definition view_config :: task_config where
  "view_config = ref_config\<lparr>tk_delegated_capabilities := [delegated_new 8 5 RightsAll 9],
     tk_fault_route := Some (FaultRoute (delegated_new 8 6 RightsWriteOnly 11))\<rparr>"

definition view_start :: kview where
  "view_start = \<lparr>kv_caps = [7 \<mapsto> FrameCap False, 8 \<mapsto> SignalCap 0], kv_children = (\<lambda>_. {}),
     kv_tables = (\<lambda>_. {}), kv_pages = (\<lambda>_. {}), kv_asids = 4, kv_user_top = 0x800000000000\<rparr>"

definition view_world :: "view_kernel world" where
  "view_world = \<lparr>
     mach = \<lparr>kstate = (view_start, \<lambda>_. 40), ipcbuf = ipcbuf (mach (ref_world [] (\<lambda>_. [])))\<rparr>,
     flag_cells = (\<lambda>_. False), mask_cells = (\<lambda>_. 0),
     tracker_cells = (\<lambda>_. \<lparr>st_capacity = 0, st_states = []\<rparr>), next_cell = 0\<rparr>"

definition view_objects :: "blueprint set" where
  "view_objects = {GranuleBp, EndpointBp, NotificationBp} \<union> task_objects view_sel4 view_config"

lemma view_basics: "inj (slot_cptr view_sel4)" "levels_ok view_sel4" "context_wf (default_context view_sel4)"
  by (auto simp: levels_ok_def context_wf_def inj_def view_sel4_def ref_sel4_def)

lemma view_objects_in: "task_objects view_sel4 view_config \<subseteq> view_objects"
  unfolding view_objects_def by (rule Un_upper2)

lemma view_plan: "length (table_plan view_sel4 (task_pages view_config)) = 4"
  by (simp add: table_plan_def view_sel4_def ref_sel4_def view_config_def ref_config_def upt_conv_Cons)

lemma view_acceptable:
  assumes "retains view_start V" and "0 < kv_asids V"
  shows "acceptable view_sel4 view_config V"
proof -
  have "GRANULE_BYTES view_sel4 = GRANULE_BYTES ref_sel4" "WORD_SIZE view_sel4 = 64" by (simp_all add: view_sel4_def)
  moreover have "kv_caps V 7 = Some (FrameCap False)" "kv_caps V 8 = Some (SignalCap 0)"
    "kv_user_top V = 0x800000000000" using assms(1) by (simp_all add: retains_def view_start_def)
  ultimately show ?thesis
    using ref_layout assms(2) by (simp add: acceptable_def view_config_def ref_config_def
        delegations_ok_def delegated_new_def) (rule exI [of _ False], simp)
qed

lemma view_suitable: "\<forall>bp \<in> view_objects. suitable view_sel4 bp \<lparr>ud_is_device = False, ud_size_bits = 30\<rparr>"
  by (auto simp: view_objects_def task_objects_def suitable_def view_sel4_def ref_sel4_def view_config_def ref_config_def)

lemma view_stands_for:
  assumes "unat stop = 100 + n" and "k \<le> 40"
    and "\<forall>bp \<in> B. suitable view_sel4 bp \<lparr>ud_is_device = False, ud_size_bits = 30\<rparr>"
  shows "stands view_sel4 (bt_bootinfo (ref_boot 100 stop)) B fst snd
    (bootstrap_checkpoint (ref_boot 100 stop)) n k view_start (ref_boot 100 stop, view_world)"
proof -
  have "slot_cptr view_sel4 = (\<lambda>i. i)" by (simp add: view_sel4_def)
  moreover have "\<forall>i \<in> {100 ..< stop}. i \<noteq> 7 \<and> i \<noteq> 8" by auto
  ultimately show ?thesis using assms
    by (simp add: stands_def ref_boot_def ref_bootinfo_def untyped_candidates_def view_world_def view_start_def
        bootstrap_checkpoint_def free_slots_checkpoint_def free_slots_new_def)
qed

lemmas view_stands = view_stands_for [OF _ _ view_suitable]

lemma retains_refl: "retains V V"
  by (simp add: retains_def)

section \<open>Properties\<close>

text \<open>
  C10. Construction succeeds when nothing stands in its way: with a kernel that honours the
  documented preconditions of its invocations, an acceptable configuration, ten empty root slots
  and memory for six objects, each more by one for every distinct translation table, creating a
  task returns the task. So every step of the construction runs where its precondition holds. The
  task is ready: exactly its four pages are mapped, below tables for the reserved ones, every
  capability held before is still held, its CSpace and address space are new, one address space identifier is used, and whatever slots
  and memory there were beyond these are left for what comes next.
\<close>

theorem create_task_succeeds:
  fixes config :: task_config and K :: "'k sel4"
  defines "p \<equiv> length (table_plan K (task_pages config))"
  assumes "obliging K bi B view room" and "task_objects K config \<subseteq> B"
    and "inj (slot_cptr K)" and "levels_ok K" and "context_wf (default_context K)"
    and "acceptable K config V"
    and "stands K bi B view room (bootstrap_checkpoint b) (10 + p + n) (6 + p + k) V (b, w)"
  shows "\<exists>t c v V'. create_task K config (b, w) = (Ok t, (c, v)) \<and>
    stands K bi B view room (bootstrap_checkpoint c) n k V' (c, v) \<and>
    retains V V' \<and> kv_asids V = Suc (kv_asids V') \<and> task_ready K config t V' \<and>
    kv_caps V (cs_root (tsk_cspace t)) = None \<and> kv_caps V (vs_root (tsk_vspace t)) = None"
  unfolding p_def by (rule create_task_runs [OF assms(2-7) assms(8) [unfolded p_def]])

theorem create_task_succeeds_witness:
  "\<exists>t s. create_task view_sel4 view_config (ref_boot 100 114, view_world) = (Ok t, s)"
proof -
  have start: "acceptable view_sel4 view_config view_start"
    by (rule view_acceptable [OF retains_refl]) (simp add: view_start_def)
  from create_task_succeeds [OF view_sel4_obliging view_objects_in view_basics start, unfolded view_plan, where n = 0 and k = 0]
    view_stands [of 114 14 10] show ?thesis by fastforce
qed

end
