(* ===== verification/Panic_Freedom.thy ===== *)
theory Panic_Freedom
  imports Task
begin

text \<open>
  Construction never panics: with a kernel whose invocations return, no slice bound, register
  index, shift or division of the construction code can fail, on any configuration and in any
  state. \<open>returns m\<close> is that contract for a program; it is closed under composition.
\<close>

section \<open>Programs that return\<close>

definition returns :: "('s, 'a, 'e) prog \<Rightarrow> bool" where
  "returns m \<longleftrightarrow> (\<forall>s. fst (m s) \<noteq> Panic)"

named_theorems returns_intros "programs that never panic"

lemma returnsD: "returns m \<Longrightarrow> m s \<noteq> (Panic, t)"
  by (metis fst_conv returns_def)

lemma returns_basic [returns_intros]:
  "returns (pret a)" "returns (pfail e)" "r \<noteq> Panic \<Longrightarrow> returns (pres r)"
  by (simp_all add: returns_def pret_def pfail_def pres_def)

text \<open>The continuation only has to return on the values the first program can return.\<close>

lemma returns_pbind_value:
  assumes "returns m" and "\<And>a s t. m s = (Ok a, t) \<Longrightarrow> returns (f a)"
  shows "returns (pbind m f)"
  unfolding returns_def
proof
  fix s
  obtain r t where run: "m s = (r, t)" by fastforce
  with assms show "fst (pbind m f s) \<noteq> Panic"
    by (cases r) (auto simp: pbind_def returns_def dest!: spec [of _ s])
qed

lemma returns_pbind [returns_intros]: "returns m \<Longrightarrow> (\<And>a. returns (f a)) \<Longrightarrow> returns (pbind m f)"
  by (rule returns_pbind_value)

lemma map_res_Panic [simp]: "map_err f r = Panic \<longleftrightarrow> r = Panic" "map_ok g r = Panic \<longleftrightarrow> r = Panic"
  by (cases r; simp)+

lemma returns_pmap [returns_intros]:
  "returns m \<Longrightarrow> returns (pmap_err f m)" "returns m \<Longrightarrow> returns (pmap g m)"
  by (auto simp: returns_def pmap_err_def pmap_def split: prod.splits) (metis fst_conv)+

lemma returns_pfor [returns_intros]: "(\<And>x. returns (body x)) \<Longrightarrow> returns (pfor xs body)"
  by (induction xs) (auto intro: returns_intros)

lemma returns_lifted [returns_intros]:
  "returns m \<Longrightarrow> returns (on_world m)" "returns n \<Longrightarrow> returns (on_slots n)"
  "(\<And>bi. returns (k bi)) \<Longrightarrow> returns (\<lambda>(b, w). on_slots (k (bt_bootinfo b)) (b, w))"
  by (auto simp: returns_def on_world_def on_slots_def split: prod.splits) (metis fst_conv)+

lemma returns_syscall: "(\<And>m. fst (f m) \<noteq> Panic) \<Longrightarrow> returns (syscall f)"
  by (auto simp: returns_def syscall_def split: prod.splits) (metis fst_conv)

lemma returns_state [returns_intros]: "returns fresh_cell" "returns (pmodify f)"
  by (simp_all add: returns_def fresh_cell_def pmodify_def)

lemma returns_try_allocate [returns_intros]:
  "(\<And>i. returns (create i)) \<Longrightarrow> returns (free_slots_try_allocate create)"
  by (auto simp: returns_def try_allocate_cases split: prod.splits res.splits) (metis fst_conv)

section \<open>The kernel's part\<close>

text \<open>Every invocation used by construction returns with a result or an error code.\<close>

definition kernel_returns :: "'k sel4 \<Rightarrow> bool" where
  "kernel_returns K \<longleftrightarrow>
     (\<forall>ut bp d i n m. fst (untyped_retype K ut bp d i n m) \<noteq> Panic) \<and>
     (\<forall>d s r b m. fst (cnode_mint K d s r b m) \<noteq> Panic) \<and>
     (\<forall>d s r m. fst (cnode_copy K d s r m) \<noteq> Panic) \<and>
     (\<forall>d m. fst (cnode_delete K d m) \<noteq> Panic) \<and>
     (\<forall>p v m. fst (asid_pool_assign K p v m) \<noteq> Panic) \<and>
     (\<forall>c ty v a at m. fst (table_map K c ty v a at m) \<noteq> Panic) \<and>
     (\<forall>c v a r at m. fst (frame_map K c v a r at m) \<noteq> Panic) \<and>
     (\<forall>t e r d v a b m. fst (tcb_configure K t e r d v a b m) \<noteq> Panic) \<and>
     (\<forall>t b u m. fst (tcb_write_all_registers K t b u m) \<noteq> Panic)"

lemma kernel_returnsD:
  assumes "kernel_returns K"
  shows "returns (syscall (untyped_retype K ut bp dest i n))" "returns (syscall (cnode_mint K dest src r b))"
    "returns (syscall (cnode_copy K dest src r))" "returns (syscall (cnode_delete K dest))"
    "returns (syscall (asid_pool_assign K p v))" "returns (syscall (table_map K c ty v a at))"
    "returns (syscall (frame_map K c v a r at))" "returns (syscall (tcb_configure K t e croot d v a buf))"
    "returns (syscall (tcb_write_all_registers K t resume u))"
  using assms by (simp_all add: kernel_returns_def returns_syscall)

section \<open>The construction steps\<close>

lemma returns_retype:
  assumes "kernel_returns K"
  shows "returns (retype_candidates K bi bp slot ds)"
proof -
  have "fst (retype_candidates K bi bp slot ds w) \<noteq> Panic" for w
  proof (induction ds arbitrary: w)
    case (Cons c ds)
    obtain i d where c: "c = (i, d)" by fastforce
    obtain r v where att: "retype_into K bi bp slot i w = (r, v)" by fastforce
    with kernel_returnsD(1) [OF assms] have "r \<noteq> Panic" by (metis returnsD)
    with att c Cons.IH show ?case
      by (simp add: retype_candidates_Cons split: res.splits sel4_error.splits)
  qed simp
  then show ?thesis by (simp add: returns_def)
qed

lemma returns_allocations:
  assumes "kernel_returns K"
  shows "returns (bootstrap_allocate_frame K)" "returns (bootstrap_allocate_object K bp)"
    "returns (bootstrap_allocate_variable_object K mk n)" "returns (bootstrap_allocate_blueprint K bp)"
    "returns (bootstrap_copy_cap K source rights)"
  unfolding bootstrap_allocate_frame_def bootstrap_allocate_object_def
    bootstrap_allocate_variable_object_def bootstrap_allocate_blueprint_def bootstrap_copy_cap_def
    object_allocate_def object_allocate_variable_def object_allocate_blueprint_def copy_to_root_def
  by (intro returns_intros returns_retype kernel_returnsD assms ok_or_not_Panic)+

lemma returns_delete_root_slots: "kernel_returns K \<Longrightarrow> returns (delete_root_slots K slots)"
  unfolding delete_root_slots_def by (intro returns_intros kernel_returnsD)

lemma returns_committed: "returns (\<lambda>(b, w). (bootstrap_committed_slots b cp, (b, w)))"
  by (auto simp: returns_def bootstrap_committed_slots_def)

lemma returns_rollback: "kernel_returns K \<Longrightarrow> returns (bootstrap_rollback K cp)"
proof -
  have "returns (\<lambda>(b, w). case free_slots_rewind cp (bt_slots b) of
         (rewound, f) \<Rightarrow>
           if \<not> rewound then (Err RollbackFailed, (b\<lparr>bt_slots := f\<rparr>, w))
           else (Ok (), (b\<lparr>bt_slots := f\<rparr>, w)))"
    by (auto simp: returns_def split: prod.splits)
  then show "kernel_returns K \<Longrightarrow> returns (bootstrap_rollback K cp)"
    unfolding bootstrap_rollback_def
    by (intro returns_intros returns_committed returns_delete_root_slots)
qed

lemma returns_install:
  assumes "kernel_returns K"
  shows "returns (cspace_install K cs c)"
proof -
  have "fst (slot_tracker_mark_occupied i t) \<noteq> Panic" for i t
    by (auto simp: slot_tracker_mark_occupied_def slot_tracker_state_mut_def split: if_splits)
  then have "returns (\<lambda>w. case slot_tracker_mark_occupied (dc_destination c) (tracker_cells w (cs_slots cs)) of
        (r, t) \<Rightarrow> (map_err (\<lambda>_. InvalidTaskConfiguration) r, set_tracker (cs_slots cs) t w))"
    by (auto simp: returns_def split: prod.splits) (metis fst_conv)
  then show ?thesis
    unfolding cspace_install_def
    by (intro returns_intros kernel_returnsD assms) (simp_all add: try_into_word_def)
qed

lemma returns_cspace_create:
  assumes "kernel_returns K"
  shows "returns (cspace_create K s caps route)"
proof -
  have "cspace_validate K s caps route \<noteq> Panic" "cspace_capacity K s \<noteq> Panic"
    by (simp_all add: cspace_validate_eq cspace_capacity_eq)
  moreover have "map_err (\<lambda>_. InvalidTaskConfiguration) (slot_tracker_try_new c) \<noteq> Panic" for c
    by (simp add: try_new_eq)
  moreover have "returns (case route of
       Some r \<Rightarrow> on_world (cspace_install K cs (fault_route_delegation r)) | None \<Rightarrow> pret ())" for cs
    by (cases route) (auto intro!: returns_intros returns_install assms)
  ultimately show ?thesis
    unfolding cspace_create_def Let_def
    by (intro returns_intros returns_allocations returns_install assms)
qed

lemma returns_tables_at:
  assumes "kernel_returns K" and "span \<noteq> 0"
  shows "returns (map_tables_at K vs level span prior pages)"
proof (induction pages arbitrary: prior)
  case (Cons page pages)
  with assms show ?case
    by (auto intro!: returns_intros returns_allocations kernel_returnsD)
qed (simp add: returns_intros)

lemma returns_vspace_create:
  assumes "kernel_returns K"
  shows "returns (vspace_create K pages reserved)"
proof -
  have "returns (pbind (pres (ok_or e (checked_shl 1 shift))) (\<lambda>span. map_tables_at K vs level span [] ps))"
    for e shift vs level ps
  proof (rule returns_pbind_value)
    fix span s t
    assume "pres (ok_or e (checked_shl 1 shift)) s = (Ok span, t)"
    then have "span \<noteq> 0"
      using push_bit_1_nonzero [of shift] by (auto simp: pres_def checked_shl_def split: if_splits)
    then show "returns (map_tables_at K vs level span [] ps)" by (rule returns_tables_at [OF assms])
  qed (simp add: returns_intros)
  note span = this
  have "returns (map_translation_tables K vs pages reserved)" for vs
    unfolding map_translation_tables_def
  proof (rule returns_pfor, rule returns_pbind)
    show "returns (pres (if unat (span_bits K level) < 2 ^ 32 then Ok (unat (span_bits K level))
        else Err InvalidTaskConfiguration))" for level
      by (rule returns_basic(3)) simp
  qed (rule span)
  then show ?thesis
    unfolding vspace_create_def Let_def by (intro returns_intros returns_allocations kernel_returnsD assms)
qed

lemma returns_map_frame:
  assumes "kernel_returns K"
  shows "returns (vspace_map_frame K vs f address rights)"
  unfolding vspace_map_frame_def
  by (auto intro!: returns_intros returns_allocations kernel_returnsD assms)

text \<open>The CNode is smaller than a word and the arguments fit in the register file.\<close>

lemma returns_thread_create:
  assumes "kernel_returns K" and "context_wf (default_context K)" and "length (tc_arguments config) \<le> 31"
    and "cs_size_bits cs \<le> WORD_SIZE K"
  shows "returns (thread_create K cs vs config)"
proof -
  have "cspace_root_data K cs \<noteq> Panic"
    using assms(4) by (simp add: cspace_root_data_def checked_sub_def)
  moreover have "set_arguments 0 (tc_arguments config)
      ((default_context K)\<lparr>uc_pc := entry, uc_sp := sp\<rparr>) \<noteq> Panic" for entry sp
    using assms(2,3) by (subst set_arguments_run) (simp_all add: context_wf_def)
  ultimately show ?thesis
    unfolding thread_create_def
    by (intro returns_intros returns_allocations kernel_returnsD assms(1)) (simp_all add: try_into_word_def)
qed

lemma cspace_create_size:
  assumes "cspace_create K s caps route t = (Ok cs, u)"
  shows "cs_size_bits cs \<le> WORD_SIZE K"
proof -
  from assms have "cspace_validate K s caps route = Ok ()" and "cs_size_bits cs = s"
    by (auto simp: cspace_create_def pbind_Ok pres_def pret_def Let_def)
  then show ?thesis by (simp add: cspace_validate_eq delegations_ok_def split: if_splits)
qed

lemma returns_create_task_inner:
  assumes "kernel_returns K" and "context_wf (default_context K)"
    and "length (tk_initial_arguments config) \<le> 31"
  shows "returns (create_task_inner K config layout checkpoint)"
proof -
  have "task_fault_cptr K route \<noteq> Panic" for route
    by (simp add: task_fault_cptr_def try_into_word_def split: option.splits)
  moreover have "returns (committed_since checkpoint)"
    unfolding committed_since_def by (rule returns_committed)
  ultimately show ?thesis
    unfolding create_task_inner_def Let_def
    by (intro returns_pbind_value [OF returns_cspace_create] returns_intros returns_vspace_create
        returns_map_frame returns_allocations returns_thread_create assms cspace_create_size)
      (simp_all add: assms)
qed

lemma layout_validate_no_panic:
  "layout_validate page code entry priv stack ipc reserved \<noteq> Panic"
proof -
  have bind: "res_bind r f \<noteq> Panic" if "r \<noteq> Panic" "\<And>a. f a \<noteq> Panic" for r :: "('a, layout_error) res"
    and f :: "'a \<Rightarrow> (task_layout, layout_error) res" using that by (cases r) simp_all
  have "(if c then Err e else r) \<noteq> Panic" if "r \<noteq> Panic" for c e and r :: "(task_layout, layout_error) res"
    using that by simp
  note guard = this
  show ?thesis
    unfolding layout_validate_def Let_def by (intro guard bind check_pages_no_panic ok_or_not_Panic res.distinct)
qed

lemma returns_create_task:
  assumes "kernel_returns K" and "context_wf (default_context K)"
    and "length (tk_initial_arguments config) \<le> 31"
  shows "returns (create_task K config)"
  unfolding returns_def
proof
  fix s :: "'a boot_state"
  obtain b w where s: "s = (b, w)" by fastforce
  let ?layout = "layout_validate (GRANULE_BYTES K) (sc_address (tk_code config)) (sc_entry (tk_code config))
    (tk_private_memory_address config) (tk_stack_address config) (tk_ipc_buffer_address config)
    (tk_reserved_pages config)"
  show "fst (create_task K config s) \<noteq> Panic"
  proof (cases ?layout)
    case (Ok l)
    obtain r t where run: "create_task_inner K config l (bootstrap_checkpoint b) (b, w) = (r, t)"
      by (metis prod.exhaust)
    with returns_create_task_inner [OF assms] have "r \<noteq> Panic" by (metis returnsD)
    moreover obtain x u where roll: "bootstrap_rollback K (bootstrap_checkpoint b) t = (x, u)"
      by (metis prod.exhaust)
    with returns_rollback [OF assms(1)] have "x \<noteq> Panic" by (metis returnsD)
    ultimately show ?thesis
      unfolding s create_task_run Ok using run roll by (cases r; cases x) simp_all
  qed (simp_all add: s create_task_run layout_validate_no_panic)
qed

lemma returns_map_recovery_frame:
  assumes "kernel_returns K"
  shows "returns (task_map_recovery_frame K t f address)"
  unfolding returns_def
proof
  fix s :: "'a boot_state"
  obtain b w where s: "s = (b, w)" by fastforce
  obtain r u where run: "vspace_map_frame K (tsk_vspace t) f address RightsReadWrite (b, w) = (r, u)"
    by (metis prod.exhaust)
  with returns_map_frame [OF assms] have r: "r \<noteq> Panic" by (metis returnsD)
  have post: "returns (pbind (committed_since cp) (\<lambda>slots.
         pbind (pres (ok_or RollbackFailed (single_slot slots))) (\<lambda>root_slot.
         pret \<lparr>tm_mapping = mapping, tm_root_slot = root_slot\<rparr>)))" for cp and mapping :: cptr
    unfolding committed_since_def by (intro returns_intros returns_committed ok_or_not_Panic)
  have undo: "returns (pbind (bootstrap_rollback K cp) (\<lambda>_. pfail e))" for cp and e :: bootstrap_error
    by (intro returns_intros returns_rollback assms)
  show "fst (task_map_recovery_frame K t f address s) \<noteq> Panic"
    using run r by (cases r) (simp_all add: s task_map_recovery_frame_def Let_def
      post [unfolded returns_def, rule_format] undo [unfolded returns_def, rule_format])
qed

lemma returns_ipc_objects:
  "kernel_returns K \<Longrightarrow> returns (bootstrap_allocate_endpoint K)"
  "kernel_returns K \<Longrightarrow> returns (bootstrap_allocate_notification K)"
  "returns (bootstrap_allocate_reply_pool n)"
proof -
  show "kernel_returns K \<Longrightarrow> returns (bootstrap_allocate_endpoint K)"
    unfolding bootstrap_allocate_endpoint_def by (intro returns_intros returns_allocations)
  show "kernel_returns K \<Longrightarrow> returns (bootstrap_allocate_notification K)"
    unfolding bootstrap_allocate_notification_def by (intro returns_intros returns_allocations)
  have "returns (\<lambda>(b, w). case bootstrap_reserve_empty_slots n b of (r, c) \<Rightarrow> (ok_or NoFreeSlots r, (c, w)))"
    by (auto simp: returns_def split: prod.splits)
  then show "returns (bootstrap_allocate_reply_pool n)"
    unfolding bootstrap_allocate_reply_pool_def by (auto intro!: returns_intros)
qed

section \<open>Properties\<close>

text \<open>
  C26. Construction never panics: with a kernel whose invocations return, whatever the configuration,
  the address or the state, creating a task, mapping a recovery frame, rolling back and allocating
  a frame, an endpoint, a notification or a reply pool all return a result or an error.
\<close>

theorem construction_never_panics:
  assumes "kernel_returns K" and "context_wf (default_context K)"
    and "length (tk_initial_arguments config) = 4"
  shows "fst (create_task K config s) \<noteq> Panic \<and> fst (task_map_recovery_frame K t f address s) \<noteq> Panic \<and>
    fst (bootstrap_rollback K checkpoint s) \<noteq> Panic \<and> fst (bootstrap_allocate_frame K s) \<noteq> Panic \<and>
    fst (bootstrap_allocate_endpoint K s) \<noteq> Panic \<and> fst (bootstrap_allocate_notification K s) \<noteq> Panic \<and>
    fst (bootstrap_allocate_reply_pool capacity s) \<noteq> Panic"
proof -
  from assms(3) have "length (tk_initial_arguments config) \<le> 31" by simp
  note never = returns_create_task [OF assms(1,2) this] returns_map_recovery_frame [OF assms(1)]
    returns_rollback [OF assms(1)] returns_allocations(1) [OF assms(1)]
    returns_ipc_objects(1,2) [OF assms(1)] returns_ipc_objects(3)
  show ?thesis by (intro conjI never [unfolded returns_def, rule_format])
qed

theorem construction_never_panics_witness:
  "fst (create_task ref_sel4 (ref_config\<lparr>tk_reserved_pages := [0x1000], tk_stack_address := 3\<rparr>)
     (ref_boot 100 101, ref_world [] (\<lambda>_. []))) \<noteq> Panic"
proof -
  have "fst (ref_mint d src r badge m) \<noteq> Panic" "fst (ref_copy d src r m) \<noteq> Panic"
    "fst (ref_delete d m) \<noteq> Panic" "fst (ref_retype ut bp d i n m) \<noteq> Panic" for d src r badge m ut bp i n
    by (cases d; cases src; simp add: Let_def)+
  then have returns: "kernel_returns ref_sel4"
    unfolding kernel_returns_def by simp
  have regs: "context_wf (default_context ref_sel4)"
    by (simp add: context_wf_def ref_sel4_def)
  show ?thesis
    using construction_never_panics [OF returns regs,
        of "ref_config\<lparr>tk_reserved_pages := [0x1000], tk_stack_address := 3\<rparr>"]
    by (simp add: ref_config_def)
qed

end
