(* ===== verification/Bounded_Work.thy ===== *)
theory Bounded_Work
  imports Task
begin

text \<open>
  Construction ends after a bounded number of kernel invocations, whatever the kernel answers. A
  counter read off the kernel state goes up by at most one with each invocation; the bound adds
  the attempts to retype, the copies, the mappings, the mints, the calls on the TCB, and the
  deletions of a rollback.
\<close>

section \<open>Counting invocations\<close>

definition ticks_once :: "('k \<Rightarrow> nat) \<Rightarrow> ('k, 'a) kcall \<Rightarrow> bool" where
  "ticks_once ticks f \<longleftrightarrow> (\<forall>m. ticks (kstate (snd (f m))) \<le> Suc (ticks (kstate m)))"

definition counts :: "'k sel4 \<Rightarrow> ('k \<Rightarrow> nat) \<Rightarrow> bool" where
  "counts K ticks \<longleftrightarrow>
     (\<forall>ut bp d i n. ticks_once ticks (untyped_retype K ut bp d i n)) \<and>
     (\<forall>d s r b. ticks_once ticks (cnode_mint K d s r b)) \<and>
     (\<forall>d s r. ticks_once ticks (cnode_copy K d s r)) \<and>
     (\<forall>d. ticks_once ticks (cnode_delete K d)) \<and>
     (\<forall>p v. ticks_once ticks (asid_pool_assign K p v)) \<and>
     (\<forall>c ty v a at. ticks_once ticks (table_map K c ty v a at)) \<and>
     (\<forall>c v a r at. ticks_once ticks (frame_map K c v a r at)) \<and>
     (\<forall>t e r d v a b. ticks_once ticks (tcb_configure K t e r d v a b)) \<and>
     (\<forall>t b u. ticks_once ticks (tcb_write_all_registers K t b u))"

definition costs :: "('k \<Rightarrow> nat) \<Rightarrow> nat \<Rightarrow> ('k world, 'a, 'e) prog \<Rightarrow> bool" where
  "costs ticks n m \<longleftrightarrow> (\<forall>w. ticks (kstate (mach (snd (m w)))) \<le> ticks (kstate (mach w)) + n)"

lemma costsD: "costs ticks n m \<Longrightarrow> m w = (r, v) \<Longrightarrow> ticks (kstate (mach v)) \<le> ticks (kstate (mach w)) + n"
  unfolding costs_def by (drule spec [of _ w]) simp

lemma costsI: "(\<And>w r v. m w = (r, v) \<Longrightarrow> ticks (kstate (mach v)) \<le> ticks (kstate (mach w)) + n) \<Longrightarrow> costs ticks n m"
  by (simp add: costs_def) (metis prod.collapse)

lemma costs_basic: "costs ticks 0 (pret a)" "costs ticks 0 (pfail e)" "costs ticks 0 (pres r)"
  by (simp_all add: costs_def pret_def pfail_def pres_def)

lemma costs_syscall: "ticks_once ticks f \<Longrightarrow> costs ticks 1 (syscall f)"
  by (auto simp: costs_def ticks_once_def syscall_def dest: spec [of _ "mach _"] split: prod.splits)
    (metis snd_conv)

lemma costs_pmap_err: "costs ticks n m \<Longrightarrow> costs ticks n (pmap_err f m)"
  by (rule costsI) (auto simp: pmap_err_def dest: costsD split: prod.splits)

lemma costs_pbind:
  assumes "costs ticks n m" and "\<And>a. costs ticks k (f a)"
  shows "costs ticks (n + k) (pbind m f)"
proof (rule costsI)
  fix w r v
  assume run: "pbind m f w = (r, v)"
  obtain x u where m: "m w = (x, u)" by fastforce
  from costsD [OF assms(1) m] run m show "ticks (kstate (mach v)) \<le> ticks (kstate (mach w)) + (n + k)"
    by (cases x) (auto simp: pbind_def dest: costsD [OF assms(2)])
qed

lemma costs_pfor: "(\<And>x. costs ticks n (body x)) \<Longrightarrow> costs ticks (length xs * n) (pfor xs body)"
  by (induction xs) (auto intro: costs_basic costs_pbind)

text \<open>The same for programs over the bootstrap, with the number of slots they pass at most.\<close>

definition work :: "('k \<Rightarrow> nat) \<Rightarrow> bootinfo \<Rightarrow> nat \<Rightarrow> nat \<Rightarrow> ('k boot_state, 'a, 'e) prog \<Rightarrow> bool" where
  "work ticks bi n k m \<longleftrightarrow> (\<forall>b w r c v. bt_bootinfo b = bi \<longrightarrow> m (b, w) = (r, (c, v)) \<longrightarrow>
     bt_bootinfo c = bi \<and> ticks (kstate (mach v)) \<le> ticks (kstate (mach w)) + n \<and>
     unat (bootstrap_checkpoint c) \<le> unat (bootstrap_checkpoint b) + k)"

lemma workD:
  "work ticks bi n k m \<Longrightarrow> bt_bootinfo b = bi \<Longrightarrow> m (b, w) = (r, (c, v)) \<Longrightarrow> bt_bootinfo c = bi \<and>
     ticks (kstate (mach v)) \<le> ticks (kstate (mach w)) + n \<and>
     unat (bootstrap_checkpoint c) \<le> unat (bootstrap_checkpoint b) + k"
  unfolding work_def by blast

lemma work_basic: "work ticks bi 0 0 (pret a)" "work ticks bi 0 0 (pfail e)" "work ticks bi 0 0 (pres r)"
  by (simp_all add: work_def pret_def pfail_def pres_def)

lemma work_pbind:
  assumes "work ticks bi n k m" and "\<And>a. work ticks bi n' k' (f a)"
  shows "work ticks bi (n + n') (k + k') (pbind m f)"
  unfolding work_def
proof (intro allI impI)
  fix b w r c v
  assume b: "bt_bootinfo b = bi" and run: "pbind m f (b, w) = (r, (c, v))"
  obtain x d u where m: "m (b, w) = (x, (d, u))" by (metis prod.exhaust)
  note first = workD [OF assms(1) b m]
  show "bt_bootinfo c = bi \<and> ticks (kstate (mach v)) \<le> ticks (kstate (mach w)) + (n + n') \<and>
     unat (bootstrap_checkpoint c) \<le> unat (bootstrap_checkpoint b) + (k + k')"
  proof (cases x)
    case (Ok a)
    with run m have "f a (d, u) = (r, (c, v))" by (simp add: pbind_def)
    from workD [OF assms(2) _ this] first show ?thesis by auto
  qed (use run m first in \<open>auto simp: pbind_def\<close>)
qed

lemma work_pfor:
  "(\<And>x. work ticks bi n k (body x)) \<Longrightarrow> work ticks bi (length xs * n) (length xs * k) (pfor xs body)"
  by (induction xs) (auto intro: work_basic work_pbind)

lemma work_on_world: "costs ticks n m \<Longrightarrow> work ticks bi n 0 (on_world m)"
  by (auto simp: work_def on_world_def dest: costsD split: prod.splits)

lemma work_mono: "work ticks bi n k m \<Longrightarrow> n \<le> n' \<Longrightarrow> k \<le> k' \<Longrightarrow> work ticks bi n' k' m"
  unfolding work_def
proof (intro allI impI)
  fix b w r c v
  assume law: "\<forall>b w r c v. bt_bootinfo b = bi \<longrightarrow> m (b, w) = (r, (c, v)) \<longrightarrow>
     bt_bootinfo c = bi \<and> ticks (kstate (mach v)) \<le> ticks (kstate (mach w)) + n \<and>
     unat (bootstrap_checkpoint c) \<le> unat (bootstrap_checkpoint b) + k"
    and le: "n \<le> n'" "k \<le> k'" and run: "bt_bootinfo b = bi" "m (b, w) = (r, (c, v))"
  from law run have "bt_bootinfo c = bi" "ticks (kstate (mach v)) \<le> ticks (kstate (mach w)) + n"
    "unat (bootstrap_checkpoint c) \<le> unat (bootstrap_checkpoint b) + k" by blast+
  with le show "bt_bootinfo c = bi \<and> ticks (kstate (mach v)) \<le> ticks (kstate (mach w)) + n' \<and>
     unat (bootstrap_checkpoint c) \<le> unat (bootstrap_checkpoint b) + k'" by linarith
qed

section \<open>The construction steps\<close>

lemma countsD:
  assumes "counts K ticks"
  shows "costs ticks 1 (syscall (untyped_retype K ut bp dest i n))" "costs ticks 1 (syscall (cnode_mint K dest src r b))"
    "costs ticks 1 (syscall (cnode_copy K dest src r))" "costs ticks 1 (syscall (cnode_delete K dest))"
    "costs ticks 1 (syscall (asid_pool_assign K p v))" "costs ticks 1 (syscall (table_map K c ty v a at))"
    "costs ticks 1 (syscall (frame_map K c v a r at))" "costs ticks 1 (syscall (tcb_configure K t e croot d v a buf))"
    "costs ticks 1 (syscall (tcb_write_all_registers K t resume u))"
  using assms by (simp_all add: counts_def costs_syscall [unfolded One_nat_def])

lemma costs_retype:
  assumes "counts K ticks"
  shows "costs ticks (length ds) (retype_candidates K bi bp slot ds)"
proof -
  have "retype_candidates K bi bp slot ds w = (r, v) \<Longrightarrow>
      ticks (kstate (mach v)) \<le> ticks (kstate (mach w)) + length ds" for w r v
  proof (induction ds arbitrary: w)
    case (Cons c ds)
    obtain i d where c: "c = (i, d)" by fastforce
    obtain x u where att: "retype_into K bi bp slot i w = (x, u)" by fastforce
    from costsD [OF countsD(1) [OF assms] att]
    have one: "ticks (kstate (mach u)) \<le> Suc (ticks (kstate (mach w)))" by simp
    have "v = u \<or> retype_candidates K bi bp slot ds u = (r, v) \<or> retype_candidates K bi bp slot ds w = (r, v)"
      using Cons.prems unfolding c
      by (simp add: retype_candidates_Cons att split: if_splits res.splits sel4_error.splits)
    with Cons.IH [of u] Cons.IH [of w] one show ?case by auto
  qed simp
  then show ?thesis by (rule costsI)
qed

lemma work_try_allocate:
  assumes "\<And>i. costs ticks n (create i)"
  shows "work ticks bi n 1 (on_slots (pbind (free_slots_try_allocate create) (\<lambda>x. pres (ok_or e x))))"
  unfolding work_def
proof (intro allI impI)
  fix b w r c v
  assume b: "bt_bootinfo b = bi"
    and run: "on_slots (pbind (free_slots_try_allocate create) (\<lambda>x. pres (ok_or e x))) (b, w) = (r, (c, v))"
  obtain x u where create: "create (fs_start (bt_slots b)) w = (x, u)" by fastforce
  show "bt_bootinfo c = bi \<and> ticks (kstate (mach v)) \<le> ticks (kstate (mach w)) + n \<and>
      unat (bootstrap_checkpoint c) \<le> unat (bootstrap_checkpoint b) + 1"
  proof (cases "fs_start (bt_slots b) < fs_end (bt_slots b)")
    case True
    from checked_succ_below [OF True] have succ: "unat (fs_start (bt_slots b) + 1) = Suc (unat (fs_start (bt_slots b)))"
      by simp
    have "c = b \<or> c = b\<lparr>bt_slots := set_start (fs_start (bt_slots b) + 1) (bt_slots b)\<rparr>" and "v = u"
      using run create True
      by (cases x; simp add: on_slots_def pbind_def pres_def try_allocate_cases bootstrap_eta)+
    moreover have "unat (bootstrap_checkpoint (b\<lparr>bt_slots := set_start (fs_start (bt_slots b) + 1) (bt_slots b)\<rparr>)) =
        unat (bootstrap_checkpoint b) + 1"
      unfolding bootstrap_checkpoint_def free_slots_checkpoint_def using succ by simp
    ultimately show ?thesis using costsD [OF assms create] b by auto
  next
    case False
    with run b show ?thesis
      by (simp add: on_slots_def pbind_def pres_def try_allocate_cases bootstrap_eta)
  qed
qed

abbreviation attempts :: "bootinfo \<Rightarrow> nat" where
  "attempts bi \<equiv> length (untyped_candidates bi)"

lemma work_with_bootinfo:
  assumes "work ticks bi n k (m bi)"
  shows "work ticks bi n k (\<lambda>(b, w). m (bt_bootinfo b) (b, w))"
  unfolding work_def prod.case
proof (intro allI impI)
  fix b w r c v
  assume b: "bt_bootinfo b = bi" and "m (bt_bootinfo b) (b, w) = (r, (c, v))"
  then have "m bi (b, w) = (r, (c, v))" by (simp only: b)
  with workD [OF assms b] show "bt_bootinfo c = bi \<and> ticks (kstate (mach v)) \<le> ticks (kstate (mach w)) + n \<and>
     unat (bootstrap_checkpoint c) \<le> unat (bootstrap_checkpoint b) + k" by blast
qed

lemma work_allocations:
  assumes "counts K ticks"
  shows "work ticks bi (attempts bi) 1 (bootstrap_allocate_frame K)"
    "work ticks bi (attempts bi) 1 (bootstrap_allocate_object K bp)"
    "work ticks bi (attempts bi) 1 (bootstrap_allocate_variable_object K mk n)"
    "work ticks bi (attempts bi) 1 (bootstrap_allocate_blueprint K bp)"
  unfolding bootstrap_allocate_frame_def bootstrap_allocate_object_def
    bootstrap_allocate_variable_object_def bootstrap_allocate_blueprint_def object_allocate_def
    object_allocate_variable_def object_allocate_blueprint_def
  by (rule work_with_bootinfo, intro work_try_allocate costs_retype assms)+

lemma work_copy_cap:
  assumes "counts K ticks"
  shows "work ticks bi 1 1 (bootstrap_copy_cap K source rights)"
proof -
  have "costs ticks (1 + 0) (pbind (pmap_err g (syscall (cnode_copy K d s r))) (\<lambda>_. pret a))" for g d s r and a :: cptr
    by (intro costs_pbind costs_pmap_err countsD assms costs_basic)
  then show ?thesis unfolding bootstrap_copy_cap_def copy_to_root_def by (intro work_try_allocate) simp
qed

lemma work_map_frame:
  assumes "counts K ticks"
  shows "work ticks bi 2 1 (vspace_map_frame K vs f address rights)"
proof -
  have "work ticks bi (1 + (1 + 0)) (1 + (0 + 0)) (pbind (bootstrap_copy_cap K (frame_cap f) rights) (\<lambda>mapping.
        pbind (on_world (pmap_err (\<lambda>_. FrameMappingFailed)
          (syscall (frame_map K mapping (vs_root vs) address rights DefaultVmAttributes)))) (\<lambda>_.
        pret mapping)))"
    by (intro work_pbind work_copy_cap work_on_world costs_pmap_err countsD work_basic assms)
  then show ?thesis
    by (auto simp: vspace_map_frame_def eval_nat_numeral intro: work_mono [OF work_basic(2)])
qed

lemma work_vspace_create:
  assumes "counts K ticks" and "levels_ok K"
  defines "p \<equiv> \<lambda>pages reserved. length (table_plan K (pages @ reserved))"
  shows "work ticks bi (attempts bi + 1 + p pages reserved * (attempts bi + 1)) (1 + p pages reserved)
    (vspace_create K pages reserved)"
proof -
  have table: "work ticks bi (attempts bi + 1) (1 + 0) (create_table K vs x)" for vs x
    unfolding create_table_def case_prod_beta
    by (intro work_pbind work_allocations work_on_world costs_pmap_err countsD assms)
  have "work ticks bi (attempts bi + (1 + (p pages reserved * (attempts bi + 1) + 0)))
      (1 + (0 + (p pages reserved * (1 + 0) + 0))) (vspace_create K pages reserved)"
    unfolding vspace_create_def map_translation_tables_plan [OF assms(2)] Let_def p_def
    by (intro work_pbind work_allocations work_on_world costs_pmap_err countsD work_basic work_pfor table assms)
  then show ?thesis by (simp add: algebra_simps)
qed

lemma costs_install: "counts K ticks \<Longrightarrow> costs ticks 1 (cspace_install K cs c)"
proof -
  assume K: "counts K ticks"
  have mark: "costs ticks 0 (\<lambda>w. case slot_tracker_mark_occupied (dc_destination c) (tracker_cells w (cs_slots cs)) of
        (r, t) \<Rightarrow> (map_err (\<lambda>_. InvalidTaskConfiguration) r, set_tracker (cs_slots cs) t w))"
    by (auto simp: costs_def split: prod.splits)
  have "costs ticks (0 + (1 + 0)) (cspace_install K cs c)"
    unfolding cspace_install_def by (intro costs_pbind costs_basic costs_pmap_err countsD K mark)
  then show ?thesis by simp
qed

lemma work_cspace_create:
  assumes "counts K ticks"
  shows "work ticks bi (attempts bi + length caps + 1) 1 (cspace_create K s caps route)"
proof -
  have cell: "costs ticks 0 fresh_cell" "costs ticks 0 (pmodify (set_tracker cell t))" for cell t
    by (simp_all add: costs_def fresh_cell_def pmodify_def)
  have route: "work ticks bi 1 0 (case route of
         Some route \<Rightarrow> on_world (cspace_install K cs (fault_route_delegation route)) | None \<Rightarrow> pret ())" for cs
    using work_on_world [OF costs_install [OF assms]] work_mono [OF work_basic(1), of 1 0]
    by (cases route) simp_all
  have "work ticks bi (0 + (attempts bi + (0 + (0 + (0 + (0 + (length caps * 1 + (1 + 0))))))))
      (0 + (1 + (0 + (0 + (0 + (0 + (0 + (0 + 0)))))))) (cspace_create K s caps route)"
    unfolding cspace_create_def Let_def
    by (intro work_pbind work_basic work_allocations work_on_world cell costs_pfor costs_install route assms)
  then show ?thesis by simp
qed

lemma work_thread_create:
  assumes "counts K ticks"
  shows "work ticks bi (attempts bi + 2) 1 (thread_create K cs vs config)"
proof -
  have "work ticks bi (0 + (0 + (0 + (attempts bi + (0 + (1 + (0 + (1 + 0))))))))
      (0 + (0 + (0 + (1 + (0 + (0 + (0 + (0 + 0)))))))) (thread_create K cs vs config)"
    unfolding thread_create_def
    by (intro work_pbind work_basic work_allocations work_on_world costs_pmap_err countsD assms)
  then show ?thesis by (simp add: eval_nat_numeral)
qed

lemma work_create_task_inner:
  fixes config :: task_config and K :: "'k sel4"
  defines "p \<equiv> length (table_plan K (task_pages config))"
  assumes "counts K ticks" and "levels_ok K"
  shows "work ticks bi ((6 + p) * attempts bi + p + length (tk_delegated_capabilities config) + 12) (10 + p)
    (create_task_inner K config layout cp)"
proof -
  let ?c = "attempts bi" and ?n = "length (tk_delegated_capabilities config)"
  have since: "work ticks bi 0 0 (committed_since cp)" by (simp add: work_def committed_since_def)
  have "work ticks bi ((?c + ?n + 1) + ((?c + 1 + p * (?c + 1)) + (2 + (?c + (2 + (?c + (2 + (?c + (2 +
        (0 + ((?c + 2) + (0 + 0))))))))))))
      (1 + ((1 + p) + (1 + (1 + (1 + (1 + (1 + (1 + (1 + (0 + (1 + (0 + 0))))))))))))
      (create_task_inner K config layout cp)"
    unfolding create_task_inner_def Let_def p_def
    by (intro work_pbind work_cspace_create work_vspace_create work_map_frame work_allocations work_basic
        work_thread_create since assms)
  then show ?thesis by (rule work_mono) (simp_all add: algebra_simps)
qed

lemma rollback_costs:
  assumes K: "counts K ticks" and roll: "bootstrap_rollback K cp (b, w) = (r, (c, v))"
  shows "ticks (kstate (mach v)) \<le> ticks (kstate (mach w)) + (unat (bootstrap_checkpoint b) - unat cp)"
proof -
  let ?slots = "\<lparr>range_start = cp, range_end = fs_start (bt_slots b)\<rparr>"
  obtain x u where del: "delete_root_slots K ?slots w = (x, u)" by fastforce
  have "costs ticks (length (rev (range_list ?slots)) * 1) (delete_root_slots K ?slots)"
    unfolding delete_root_slots_def by (intro costs_pfor costs_pmap_err countsD K)
  from costsD [OF this del]
  have "ticks (kstate (mach u)) \<le> ticks (kstate (mach w)) + (unat (bootstrap_checkpoint b) - unat cp)"
    by (simp add: length_range_list range_len_def bootstrap_checkpoint_def free_slots_checkpoint_def split: if_splits)
  moreover have "v = w \<or> v = u"
    using roll del by (auto simp: bootstrap_rollback_def bootstrap_committed_slots_def
        free_slots_allocated_since_def pbind_def on_world_def split: if_splits res.splits prod.splits)
  ultimately show ?thesis by auto
qed

lemma length_first_uses: "length (first_uses span prior pages) \<le> length pages"
  by (induction pages arbitrary: prior) (simp_all add: le_SucI)

lemma length_plan: "length (table_plan K pages) \<le> (NUM_LEVELS K - 1) * length pages"
proof -
  have "(\<Sum>l \<leftarrow> levels. length (first_uses (f l) [] pages)) \<le> length levels * length pages" for levels :: "nat list" and f
    by (induction levels) (auto intro: add_mono length_first_uses)
  from this [of _ "[1 ..< NUM_LEVELS K]"] show ?thesis
    by (simp add: table_plan_def length_concat comp_def del: push_bit_of_1)
qed

section \<open>Properties\<close>

text \<open>
  A kernel with a counter: it answers as the given kernel does and counts the invocations.
\<close>

definition counted :: "('k machine \<Rightarrow> 'a \<times> 'k machine) \<Rightarrow> ('k \<times> nat) machine \<Rightarrow> 'a \<times> ('k \<times> nat) machine" where
  "counted f m = (case f \<lparr>kstate = fst (kstate m), ipcbuf = ipcbuf m\<rparr> of
     (r, n) \<Rightarrow> (r, \<lparr>kstate = (kstate n, Suc (snd (kstate m))), ipcbuf = ipcbuf n\<rparr>))"

definition counting :: "'k sel4 \<Rightarrow> ('k \<times> nat) sel4" where
  "counting K = \<lparr>
     WORD_SIZE = WORD_SIZE K, NUM_MESSAGE_REGISTERS = NUM_MESSAGE_REGISTERS K,
     GRANULE_BYTES = GRANULE_BYTES K, IPC_BUFFER_SIZE = IPC_BUFFER_SIZE K,
     IPC_BUFFER_ALIGN = IPC_BUFFER_ALIGN K, NUM_LEVELS = NUM_LEVELS K, span_bits = span_bits K,
     table_from_level = table_from_level K, physical_size_bits = physical_size_bits K,
     slot_cptr = slot_cptr K, init_cnode = init_cnode K, init_vspace = init_vspace K,
     init_asid_pool = init_asid_pool K, null_cptr = null_cptr K, default_context = default_context K,
     message_info = message_info K,
     untyped_retype = (\<lambda>ut bp d i n. counted (untyped_retype K ut bp d i n)),
     cnode_mint = (\<lambda>d s r b. counted (cnode_mint K d s r b)),
     cnode_copy = (\<lambda>d s r. counted (cnode_copy K d s r)),
     cnode_delete = (\<lambda>d. counted (cnode_delete K d)),
     cnode_save_caller = (\<lambda>d. counted (cnode_save_caller K d)),
     asid_pool_assign = (\<lambda>p v. counted (asid_pool_assign K p v)),
     table_map = (\<lambda>c ty v a at. counted (table_map K c ty v a at)),
     frame_map = (\<lambda>c v a r at. counted (frame_map K c v a r at)),
     frame_unmap = (\<lambda>c. counted (frame_unmap K c)),
     tcb_configure = (\<lambda>t e r d v a b. counted (tcb_configure K t e r d v a b)),
     tcb_write_all_registers = (\<lambda>t b u. counted (tcb_write_all_registers K t b u)),
     tcb_read_all_registers = (\<lambda>t b. counted (tcb_read_all_registers K t b)),
     tcb_resume = (\<lambda>t. counted (tcb_resume K t)), tcb_suspend = (\<lambda>t. counted (tcb_suspend K t)),
     cap_send = (\<lambda>c info. counted (cap_send K c info)), ep_nb_send = (\<lambda>c info. counted (ep_nb_send K c info)),
     ep_call = (\<lambda>c info. counted (ep_call K c info)), ep_recv = (\<lambda>c. counted (ep_recv K c)),
     ep_nb_recv = (\<lambda>c. counted (ep_nb_recv K c)), sys_reply = (\<lambda>info. counted (sys_reply K info)),
     ntfn_signal = (\<lambda>c. counted (ntfn_signal K c)), ntfn_wait = (\<lambda>c. counted (ntfn_wait K c)),
     ntfn_poll = (\<lambda>c. counted (ntfn_poll K c))\<rparr>"

lemma ticks_counted: "ticks_once snd (counted f)"
  by (simp add: ticks_once_def counted_def split: prod.splits)

lemma counts_counting: "counts (counting K) snd"
  by (simp add: counts_def counting_def ticks_counted)

text \<open>
  C27. Construction ends after a bounded number of kernel invocations, whatever the kernel answers
  and whether it succeeds, fails or rolls back: with \<open>p\<close> translation tables, at most one retype
  attempt for each of the six objects and the tables in each untyped region, and then one
  invocation for each capability, mapping and table, and one deletion for each slot rolled back;
  and there is at most one table for each page at each level.
\<close>

theorem create_task_bounded_work:
  fixes config :: task_config and K :: "'k sel4"
  defines "p \<equiv> length (table_plan K (task_pages config))"
  assumes "counts K ticks" and "levels_ok K"
  shows "ticks (kstate (mach (snd (snd (create_task K config (b, w)))))) \<le> ticks (kstate (mach w)) +
      (6 + p) * attempts (bt_bootinfo b) + 2 * p + length (tk_delegated_capabilities config) + 22 \<and>
    p \<le> (NUM_LEVELS K - 1) * length (task_pages config)"
proof -
  let ?N = "(6 + p) * attempts (bt_bootinfo b) + p + length (tk_delegated_capabilities config) + 12"
  have plan: "p \<le> (NUM_LEVELS K - 1) * length (task_pages config)" unfolding p_def by (rule length_plan)
  let ?layout = "layout_validate (GRANULE_BYTES K) (sc_address (tk_code config)) (sc_entry (tk_code config))
    (tk_private_memory_address config) (tk_stack_address config) (tk_ipc_buffer_address config)
    (tk_reserved_pages config)"
  show ?thesis
  proof (cases ?layout)
    case (Ok l)
    let ?cp = "bootstrap_checkpoint b"
    obtain x d u where inner: "create_task_inner K config l ?cp (b, w) = (x, (d, u))" by (metis prod.exhaust)
    from workD [OF work_create_task_inner [OF assms(2,3), of "bt_bootinfo b" config l ?cp, folded p_def] refl inner]
    have in_work: "ticks (kstate (mach u)) \<le> ticks (kstate (mach w)) + ?N"
      "unat (bootstrap_checkpoint d) \<le> unat ?cp + (10 + p)" by blast+
    obtain y e v where roll: "bootstrap_rollback K ?cp (d, u) = (y, (e, v))" by (metis prod.exhaust)
    from rollback_costs [OF assms(2) roll] in_work
    have "ticks (kstate (mach v)) \<le> ticks (kstate (mach w)) + ?N + (10 + p)" by linarith
    with in_work(1) inner roll Ok plan show ?thesis
      by (cases x; cases y) (simp_all add: create_task_run)
  qed (use plan in \<open>simp_all add: create_task_run\<close>)
qed

theorem create_task_bounded_work_witness:
  "snd (kstate (mach (snd (snd (create_task (counting ref_sel4) ref_config (ref_boot 100 130,
     \<lparr>mach = \<lparr>kstate = (kstate (mach (ref_world [7] (\<lambda>_. []))), 0), ipcbuf = ipcbuf (mach (ref_world [7] (\<lambda>_. [])))\<rparr>,
       flag_cells = (\<lambda>_. False), mask_cells = (\<lambda>_. 0),
       tracker_cells = (\<lambda>_. \<lparr>st_capacity = 0, st_states = []\<rparr>), next_cell = 0\<rparr>)))))) \<le> 41"
proof -
  have levels: "levels_ok (counting ref_sel4)" by (auto simp: levels_ok_def counting_def ref_sel4_def)
  have plan: "length (table_plan (counting ref_sel4) (task_pages ref_config)) = 4"
    by (simp add: table_plan_def counting_def ref_sel4_def ref_config_def upt_conv_Cons)
  have one: "attempts (bt_bootinfo (ref_boot 100 130)) = 1" "length (tk_delegated_capabilities ref_config) = 1"
    by (simp_all add: ref_boot_def ref_bootinfo_def untyped_candidates_def ref_config_def)
  show ?thesis
    using create_task_bounded_work [OF counts_counting levels, of ref_config "ref_boot 100 130"
      "\<lparr>mach = \<lparr>kstate = (kstate (mach (ref_world [7] (\<lambda>_. []))), 0), ipcbuf = ipcbuf (mach (ref_world [7] (\<lambda>_. [])))\<rparr>,
       flag_cells = (\<lambda>_. False), mask_cells = (\<lambda>_. 0),
       tracker_cells = (\<lambda>_. \<lparr>st_capacity = 0, st_states = []\<rparr>), next_cell = 0\<rparr>"]
    unfolding plan one by simp
qed

end
