(* ===== verification/System.thy ===== *)
theory System
  imports Panic_Freedom
begin

text \<open>
  The components together: any sequence of constructions through one bootstrap, interleaved with
  whatever the rest of the system does. The invariant is the ownership of root slots: the slots
  the allocator has passed are partitioned among what was constructed, each resource holds its
  slots, and no capability is held twice.
\<close>

section \<open>What can be constructed\<close>

datatype asset =
    ATask task
  | AMapping task_mapping
  | AFrame frame
  | AEndpoint endpoint
  | AFaultEndpoint fault_endpoint
  | ANotification notification
  | APool reply_pool
  | ALost

text \<open>The public constructors of the bootstrap, with what they return made an asset.\<close>

inductive construction :: "'k sel4 \<Rightarrow> ('k boot_state, asset, bootstrap_error) prog \<Rightarrow> bool"
  for K :: "'k sel4" where
  con_task: "construction K (pmap ATask (create_task K config))"
| con_mapping: "construction K (pmap AMapping (task_map_recovery_frame K t f address))"
| con_frame: "construction K (pmap (\<lambda>c. AFrame (Frame c)) (bootstrap_allocate_frame K))"
| con_endpoint: "construction K (pmap AEndpoint (bootstrap_allocate_endpoint K))"
| con_fault: "construction K (pmap AFaultEndpoint (bootstrap_allocate_fault_endpoint K))"
| con_notification: "construction K (pmap ANotification (bootstrap_allocate_notification K))"
| con_pool: "construction K (pmap APool (bootstrap_allocate_reply_pool capacity))"

text \<open>The root-held capabilities an asset carries, and the assets whose slots are filled.\<close>

fun asset_caps :: "asset \<Rightarrow> cptr list" where
  "asset_caps (ATask t) = [cs_root (tsk_cspace t), vs_root (tsk_vspace t),
     frame_cap (tsk_private_memory t), frame_cap (tsk_stack t), frame_cap (tsk_ipc_buffer t),
     thread_tcb (tsk_thread t)]"
| "asset_caps (AMapping m) = [tm_mapping m]"
| "asset_caps (AFrame f) = [frame_cap f]"
| "asset_caps (AEndpoint ep) = [ep_cap ep]"
| "asset_caps (AFaultEndpoint ep) = [ep_cap (fe_endpoint ep)]"
| "asset_caps (ANotification n) = [ntfn_cap n]"
| "asset_caps (APool p) = []"
| "asset_caps ALost = []"

fun filled :: "asset \<Rightarrow> bool" where
  "filled (APool p) = False"
| "filled ALost = False"
| "filled _ = True"

text \<open>What an asset says about its own slots: a task's and a pool's range, a mapping's slot.\<close>

fun declares :: "asset \<Rightarrow> usize_range \<Rightarrow> bool" where
  "declares (ATask t) r = (tsk_root_slots t = r)"
| "declares (AMapping m) r = (set (range_list r) = {tm_root_slot m})"
| "declares (APool p) r = (rp_slots p = r)"
| "declares _ r = True"

section \<open>The system\<close>

text \<open>
  A state has the assets with the slots that were passed while each was constructed, newest first.
  A construction that fails with a failed rollback leaves slots nobody owns; they are recorded as
  \<open>ALost\<close>. \<open>sys_other\<close> is everything else that runs: it may fill and empty the slots of reply pools
  (deferring and answering) and of lost constructions, and change anything outside the root slots.
\<close>

type_synonym 'k system = "'k boot_state \<times> (asset \<times> usize_range) list"

definition loose_slots :: "(asset \<times> usize_range) list \<Rightarrow> usize set" where
  "loose_slots owned = (\<Union>(a, r) \<in> set owned. if filled a then {} else set (range_list r))"

abbreviation passed :: "bootstrap \<Rightarrow> bootstrap \<Rightarrow> usize_range" where
  "passed b c \<equiv> \<lparr>range_start = bootstrap_checkpoint b, range_end = bootstrap_checkpoint c\<rparr>"

inductive system_step :: "'k sel4 \<Rightarrow> ('k \<Rightarrow> usize set) \<Rightarrow> 'k system \<Rightarrow> 'k system \<Rightarrow> bool"
  for K :: "'k sel4" and occ where
  sys_built: "construction K m \<Longrightarrow> m (b, w) = (Ok a, (c, v)) \<Longrightarrow>
     system_step K occ ((b, w), owned) ((c, v), (a, passed b c) # owned)"
| sys_refused: "construction K m \<Longrightarrow> m (b, w) = (Err e, (c, v)) \<Longrightarrow> e \<noteq> RollbackFailed \<Longrightarrow>
     system_step K occ ((b, w), owned) ((c, v), owned)"
| sys_lost: "construction K m \<Longrightarrow> m (b, w) = (Err RollbackFailed, (c, v)) \<Longrightarrow>
     system_step K occ ((b, w), owned) ((c, v), (ALost, passed b c) # owned)"
| sys_other: "occupied_slots occ v - loose_slots owned = occupied_slots occ w - loose_slots owned \<Longrightarrow>
     system_step K occ ((b, w), owned) ((b, v), owned)"

section \<open>Every construction is accounted for\<close>

lemma accounted_pmap:
  assumes "\<And>x t. m s = (x, t) \<Longrightarrow> accounted occ s x t" and "pmap f m s = (r, t)"
  shows "accounted occ s r t"
proof -
  obtain x u where run: "m s = (x, u)" by (metis prod.exhaust)
  with assms(2) have r: "r = map_ok f x" "t = u" by (simp_all add: pmap_def)
  from assms(1) [OF run] r show ?thesis by (cases x; cases s; cases u) (simp_all add: accounted_def)
qed

lemma ledger_same:
  assumes "boot_ledger view (b, w) (c, v)" and "bootstrap_checkpoint c = bootstrap_checkpoint b"
  shows "c = b"
proof -
  have "fs_remaining (bt_slots c) = fs_remaining (bt_slots b)"
    using assms by (intro usize_range.equality)
      (simp_all add: boot_ledger_def ledger_def bootstrap_checkpoint_def free_slots_checkpoint_def)
  then have "bt_slots c = bt_slots b"
    using assms(1) by (intro free_slots.equality) (simp_all add: boot_ledger_def ledger_def)
  then show ?thesis
    using assms(1) by (intro bootstrap.equality) (simp_all add: boot_ledger_def)
qed

lemma one_slot_range:
  "unat c = Suc (unat b) \<Longrightarrow> {b ..< c} = {b}" for b c :: usize
  by (auto simp: word_le_nat_alt word_less_nat_alt word_unat_eq_iff)

lemma accounted_one_slot:
  assumes "keeps (boot_ledger (Some occ)) m" and "one_slot K occ m" and "m (b, w) = (r, (c, v))"
  shows "accounted occ (b, w) r (c, v)"
proof -
  have led: "boot_ledger (Some occ) (b, w) (c, v)" using assms(1,3) by (rule keepsD)
  have one: "case r of
      Ok cap \<Rightarrow> unat (bootstrap_checkpoint c) = Suc (unat (bootstrap_checkpoint b)) \<and>
        occupied_slots occ v = insert (bootstrap_checkpoint b) (occupied_slots occ w)
    | _ \<Rightarrow> bootstrap_checkpoint c = bootstrap_checkpoint b \<and> occupied_slots occ v = occupied_slots occ w"
    using spec [OF spec [OF assms(2) [unfolded one_slot_def], of b], of w] assms(3)
    by (auto split: res.splits)
  then show ?thesis
    using ledger_forget [OF led] ledger_same [OF led]
    by (auto simp: accounted_def Let_def one_slot_range split: res.splits)
qed

lemma accounted_objects:
  assumes "root_slot_laws K occ"
  shows "bootstrap_allocate_frame K s = (r, t) \<Longrightarrow> accounted occ s r t"
    and "bootstrap_allocate_object K bp s = (r, t) \<Longrightarrow> accounted occ s r t"
proof -
  have "kernel_ok K (Some occ)" using assms by (simp add: kernel_ok_def)
  note keep = ledger_allocations [OF this]
  have one: "one_slot K occ (bootstrap_allocate_frame K)" "one_slot K occ (bootstrap_allocate_object K bp)"
    using one_slot_allocate(1) [OF assms]
    by (simp_all add: bootstrap_allocate_frame_def bootstrap_allocate_object_def object_allocate_def
        bootstrap_allocate_blueprint_def)
  show "bootstrap_allocate_frame K s = (r, t) \<Longrightarrow> accounted occ s r t"
    using accounted_one_slot [OF keep(1) one(1)] by (cases s; cases t) blast
  show "bootstrap_allocate_object K bp s = (r, t) \<Longrightarrow> accounted occ s r t"
    using accounted_one_slot [OF keep(2) one(2)] by (cases s; cases t) blast
qed

text \<open>An endpoint is an object with a fresh cell of the store.\<close>

lemma allocate_endpoint_run:
  "bootstrap_allocate_endpoint K (b, w) = (r, (c, v)) \<Longrightarrow>
     \<exists>x u. bootstrap_allocate_object K EndpointBp (b, w) = (x, (c, u)) \<and> mach v = mach u \<and>
       (case x of Ok cap \<Rightarrow> \<exists>ep. r = Ok ep \<and> ep_cap ep = cap | Err e \<Rightarrow> r = Err e | Panic \<Rightarrow> r = Panic)"
  by (cases "bootstrap_allocate_object K EndpointBp (b, w)")
    (auto simp: bootstrap_allocate_endpoint_def pbind_def on_world_def fresh_cell_def pmodify_def pret_def
      split: res.splits prod.splits)

lemma allocate_endpoint_Ok:
  "bootstrap_allocate_endpoint K (b, w) = (Ok ep, (c, v)) \<Longrightarrow>
     \<exists>u. bootstrap_allocate_object K EndpointBp (b, w) = (Ok (ep_cap ep), (c, u))"
  by (auto simp: bootstrap_allocate_endpoint_def pbind_Ok on_world_Ok pret_def)

lemma accounted_endpoint:
  assumes "root_slot_laws K occ" and "bootstrap_allocate_endpoint K (b, w) = (r, (c, v))"
  shows "accounted occ (b, w) r (c, v)"
proof -
  from allocate_endpoint_run [OF assms(2)] obtain x u where
    run: "bootstrap_allocate_object K EndpointBp (b, w) = (x, (c, u))" "mach v = mach u"
      "case x of Ok cap \<Rightarrow> \<exists>ep. r = Ok ep \<and> ep_cap ep = cap | Err e \<Rightarrow> r = Err e | Panic \<Rightarrow> r = Panic"
    by blast
  from accounted_objects(2) [OF assms(1) run(1)] run(2,3) show ?thesis
    by (cases x) (auto simp: accounted_def Let_def boot_ledger_def ledger_def)
qed

text \<open>Reserving a pool passes its slots and fills none.\<close>

lemma allocate_pool_run:
  assumes "bootstrap_allocate_reply_pool capacity (b, w) = (r, (c, v))"
  shows "mach v = mach w \<and> boot_ledger None (b, w) (c, v) \<and>
    (case r of Ok p \<Rightarrow> rp_slots p = passed b c | Err e \<Rightarrow> c = b \<and> e \<noteq> RollbackFailed | Panic \<Rightarrow> False)"
proof -
  let ?f = "bt_slots b"
  show ?thesis
  proof (cases "capacity = 0 \<or> MAX_DEFERRED_REPLIES < unat capacity")
    case True
    then show ?thesis
      using assms by (auto simp: bootstrap_allocate_reply_pool_def pfail_def boot_ledger.R_refl)
  next
    case False
    show ?thesis
    proof (cases "checked_add (fs_start ?f) capacity")
      case None
      with assms False show ?thesis
        by (auto simp: bootstrap_allocate_reply_pool_def bootstrap_reserve_empty_slots_def
            free_slots_reserve_def pbind_def boot_ledger.R_refl)
    next
      case (Some e)
      then have "unat e = unat (fs_start ?f) + unat capacity" by (simp add: checked_add_Some)
      then have "fs_start ?f \<le> e" by (simp add: word_le_nat_alt)
      with assms False Some show ?thesis
        by (auto simp: bootstrap_allocate_reply_pool_def bootstrap_reserve_empty_slots_def
            free_slots_reserve_def pbind_def pret_def on_world_def fresh_cell_def pmodify_def
            bootstrap_checkpoint_def free_slots_checkpoint_def boot_ledger_def ledger_def
            boot_ledger.R_refl ledger_refl split: if_splits)
    qed
  qed
qed

text \<open>One statement for all constructors; a pool fills none of its slots.\<close>

definition settled :: "('k \<Rightarrow> usize set) \<Rightarrow> 'k boot_state \<Rightarrow> (asset, bootstrap_error) res \<Rightarrow> 'k boot_state \<Rightarrow> bool" where
  "settled occ = (\<lambda>(b, w) r (c, v).
     let new = set (range_list (passed b c)) in
     boot_ledger None (b, w) (c, v) \<and>
     (case r of
        Ok a \<Rightarrow> occupied_slots occ v = occupied_slots occ w \<union> (if filled a then new else {})
      | Err e \<Rightarrow> if e = RollbackFailed
          then occupied_slots occ w \<subseteq> occupied_slots occ v \<and> occupied_slots occ v \<subseteq> occupied_slots occ w \<union> new
          else c = b \<and> occupied_slots occ v = occupied_slots occ w
      | Panic \<Rightarrow> True))"

lemma settled_accounted:
  assumes "accounted occ s r t" and "\<And>a. r = Ok a \<Longrightarrow> filled a"
  shows "settled occ s r t"
  using assms by (cases s; cases t) (auto simp: settled_def accounted_def Let_def set_range_list split: res.splits)

lemma filled_Ok: "pmap f m s = (Ok a, t) \<Longrightarrow> (\<And>x. filled (f x)) \<Longrightarrow> filled a"
  by (auto simp: pmap_Ok)

lemma construction_settled:
  assumes con: "construction K m" and laws: "root_slot_laws K occ"
    and inv: "fs_first (bt_slots b) \<le> fs_start (bt_slots b)"
      "occupied_slots occ w \<inter> {fs_start (bt_slots b) ..< fs_end (bt_slots b)} = {}"
    and run: "m (b, w) = (r, (c, v))"
  shows "settled occ (b, w) r (c, v)"
  using con
proof cases
  case (con_task config)
  have "accounted occ (b, w) x t" if "create_task K config (b, w) = (x, t)" for x t
    using accounted_create_task [OF laws inv] that by (cases t) blast
  from accounted_pmap [OF this] run con_task show ?thesis
    by (intro settled_accounted) (auto simp: pmap_Ok)
next
  case (con_mapping t f address)
  have "accounted occ (b, w) x s" if "task_map_recovery_frame K t f address (b, w) = (x, s)" for x s
    using accounted_map_recovery [OF laws inv] that by (cases s) blast
  from accounted_pmap [OF this] run con_mapping show ?thesis
    by (intro settled_accounted) (auto simp: pmap_Ok)
next
  case con_frame
  from accounted_pmap [OF accounted_objects(1) [OF laws]] run con_frame show ?thesis
    by (intro settled_accounted) (auto simp: pmap_Ok)
next
  case con_endpoint
  have "accounted occ (b, w) x s" if "bootstrap_allocate_endpoint K (b, w) = (x, s)" for x s
    using accounted_endpoint [OF laws] that by (cases s) blast
  from accounted_pmap [OF this] run con_endpoint show ?thesis
    by (intro settled_accounted) (auto simp: pmap_Ok)
next
  case con_fault
  have "accounted occ (b, w) x s" if "bootstrap_allocate_endpoint K (b, w) = (x, s)" for x s
    using accounted_endpoint [OF laws] that by (cases s) blast
  from accounted_pmap [OF accounted_pmap [OF this]] run con_fault show ?thesis
    unfolding bootstrap_allocate_fault_endpoint_def by (intro settled_accounted) (auto simp: pmap_Ok)
next
  case con_notification
  from accounted_pmap [OF accounted_pmap [OF accounted_objects(2) [OF laws]]] run con_notification show ?thesis
    unfolding bootstrap_allocate_notification_def by (intro settled_accounted) (auto simp: pmap_Ok)
next
  case (con_pool capacity)
  obtain x t where pool: "bootstrap_allocate_reply_pool capacity (b, w) = (x, t)" by (metis prod.exhaust)
  with run con_pool have r: "r = map_ok APool x" "t = (c, v)" by (simp_all add: pmap_def)
  from allocate_pool_run [OF pool [unfolded r(2)]] r(1) show ?thesis
    by (cases x) (auto simp: settled_def)
qed

section \<open>What an asset owns\<close>

definition asset_ok :: "'k sel4 \<Rightarrow> asset \<Rightarrow> usize_range \<Rightarrow> bool" where
  "asset_ok K a r \<longleftrightarrow> declares a r \<and> set (asset_caps a) \<subseteq> slot_cptr K ` set (range_list r) \<and>
     (inj (slot_cptr K) \<longrightarrow> distinct (asset_caps a))"

lemma offset_in_range:
  "unat q = unat p + n \<Longrightarrow> k < n \<Longrightarrow> unat (p + of_nat k) = unat p + k" for p q :: usize
proof -
  assume q: "unat q = unat p + n" and k: "k < n"
  with unat_lt_64 [of q] have sum: "unat p + k < 2 ^ 64" by linarith
  then have "unat (of_nat k :: usize) = k" by (intro unat_of_nat_lt) linarith
  with sum show "unat (p + of_nat k) = unat p + k" by (simp add: unat_word_ariths)
qed

lemma offsets_owned:
  assumes "unat q = unat p + n" and "\<And>k. k \<in> set ks \<Longrightarrow> k < n" and "distinct ks"
  shows "set (map (\<lambda>k. slot_cptr K (p + of_nat k)) ks) \<subseteq>
      slot_cptr K ` set (range_list \<lparr>range_start = p, range_end = q\<rparr>)"
    and "inj (slot_cptr K) \<Longrightarrow> distinct (map (\<lambda>k. slot_cptr K (p + of_nat k)) ks)"
proof -
  note off = offset_in_range [OF assms(1) assms(2)]
  show "set (map (\<lambda>k. slot_cptr K (p + of_nat k)) ks) \<subseteq>
      slot_cptr K ` set (range_list \<lparr>range_start = p, range_end = q\<rparr>)"
    using off assms(1,2)
    by (auto simp: set_range_list word_le_nat_alt word_less_nat_alt intro!: imageI)
  assume inj: "inj (slot_cptr K)"
  have "inj_on (\<lambda>k. slot_cptr K (p + of_nat k)) (set ks)"
  proof (rule inj_onI)
    fix i k
    assume ik: "i \<in> set ks" "k \<in> set ks" "slot_cptr K (p + of_nat i) = slot_cptr K (p + of_nat k)"
    from arg_cong [OF injD [OF inj ik(3)], of unat] off [OF ik(1)] off [OF ik(2)] show "i = k" by linarith
  qed
  with assms(3) show "distinct (map (\<lambda>k. slot_cptr K (p + of_nat k)) ks)" by (simp add: distinct_map)
qed

lemma asset_ok_task:
  assumes "root_slot_laws K occ" and "levels_ok K" and "create_task K config (b, w) = (Ok t, (c, v))"
  shows "asset_ok K (ATask t) (passed b c)"
proof -
  from assms(3) obtain l where inner: "create_task_inner K config l (bootstrap_checkpoint b) (b, w) = (Ok t, (c, v))"
    by (auto simp: create_task_run split: res.splits prod.splits)
  define n where "n = length (table_plan K (task_pages config))"
  let ?p = "bootstrap_checkpoint b" and ?ks = "[0, 1, n + 3, n + 5, n + 7, n + 9]"
  have cp: "unat (bootstrap_checkpoint c) = unat ?p + (10 + n)"
    using advances_create_task_inner [OF assms(2), of config l ?p] inner unfolding advances_def n_def by blast
  have caps: "asset_caps (ATask t) = map (\<lambda>k. slot_cptr K (?p + of_nat k)) ?ks"
    using task_slots [OF assms(1,2) inner, folded n_def] by simp
  have sub: "set (map (\<lambda>k. slot_cptr K (?p + of_nat k)) ?ks) \<subseteq> slot_cptr K ` set (range_list (passed b c))"
    by (rule offsets_owned(1) [OF cp]) auto
  have dist: "inj (slot_cptr K) \<Longrightarrow> distinct (map (\<lambda>k. slot_cptr K (?p + of_nat k)) ?ks)"
    by (rule offsets_owned(2) [OF cp]) auto
  show ?thesis
    unfolding asset_ok_def caps declares.simps using create_task_inner_Ok [OF inner] sub dist by blast
qed

lemma asset_ok_one:
  assumes "at_slot K b c cap" and "asset_caps a = [cap]" and "\<And>r. set (range_list r) = {bootstrap_checkpoint b} \<Longrightarrow> declares a r"
  shows "asset_ok K a (passed b c)"
proof -
  have "set (range_list (passed b c)) = {bootstrap_checkpoint b}"
    using assms(1) by (simp add: at_slot_def set_range_list one_slot_range)
  with assms show ?thesis by (simp add: asset_ok_def at_slot_def)
qed

lemma construction_asset:
  assumes con: "construction K m" and laws: "root_slot_laws K occ" and levels: "levels_ok K"
    and run: "m (b, w) = (Ok a, (c, v))"
  shows "asset_ok K a (passed b c)"
  using con
proof cases
  case (con_task config)
  with run asset_ok_task [OF laws levels] show ?thesis by (auto simp: pmap_Ok)
next
  case (con_mapping t f address)
  with run obtain x where x: "task_map_recovery_frame K t f address (b, w) = (Ok x, (c, v))" "a = AMapping x"
    by (auto simp: pmap_Ok)
  with map_recovery_frame_Ok [OF laws x(1)] show ?thesis
    by (intro asset_ok_one [where cap = "tm_mapping x"]) (auto simp: at_slot_def)
next
  case con_frame
  with run obtain x where x: "bootstrap_allocate_frame K (b, w) = (Ok x, (c, v))" "a = AFrame (Frame x)"
    by (auto simp: pmap_Ok)
  with allocations_at(1) [OF laws x(1)] show ?thesis by (intro asset_ok_one) auto
next
  case con_endpoint
  with run obtain ep where x: "bootstrap_allocate_endpoint K (b, w) = (Ok ep, (c, v))" "a = AEndpoint ep"
    by (auto simp: pmap_Ok)
  from allocate_endpoint_Ok [OF x(1)] obtain u where
    "bootstrap_allocate_object K EndpointBp (b, w) = (Ok (ep_cap ep), (c, u))" by blast
  from allocations_at(2) [OF laws this] x(2) show ?thesis by (intro asset_ok_one) auto
next
  case con_fault
  with run obtain ep where x: "bootstrap_allocate_endpoint K (b, w) = (Ok ep, (c, v))"
      "a = AFaultEndpoint \<lparr>fe_endpoint = ep\<rparr>"
    by (auto simp: pmap_Ok bootstrap_allocate_fault_endpoint_def)
  from allocate_endpoint_Ok [OF x(1)] obtain u where
    "bootstrap_allocate_object K EndpointBp (b, w) = (Ok (ep_cap ep), (c, u))" by blast
  from allocations_at(2) [OF laws this] x(2) show ?thesis by (intro asset_ok_one) auto
next
  case con_notification
  with run obtain x where x: "bootstrap_allocate_object K NotificationBp (b, w) = (Ok x, (c, v))"
      "a = ANotification (Notification x)"
    by (auto simp: pmap_Ok bootstrap_allocate_notification_def)
  from allocations_at(2) [OF laws x(1)] x(2) show ?thesis by (intro asset_ok_one) auto
next
  case (con_pool capacity)
  with run obtain p where x: "bootstrap_allocate_reply_pool capacity (b, w) = (Ok p, (c, v))" "a = APool p"
    by (auto simp: pmap_Ok)
  from allocate_pool_run [OF x(1)] x(2) show ?thesis by (simp add: asset_ok_def)
qed

section \<open>The partition of the root slots\<close>

text \<open>The recorded ranges follow one another from the first slot to the allocator's position.\<close>

fun covers :: "usize \<Rightarrow> (asset \<times> usize_range) list \<Rightarrow> usize \<Rightarrow> bool" where
  "covers start [] p = (p = start)"
| "covers start ((a, r) # owned) p =
     (range_end r = p \<and> range_start r \<le> p \<and> covers start owned (range_start r))"

abbreviation owned_slots :: "(asset \<times> usize_range) list \<Rightarrow> usize list" where
  "owned_slots owned \<equiv> concat (map (\<lambda>(a, r). range_list r) owned)"

lemma covers_partition:
  "covers start owned p \<Longrightarrow> start \<le> p \<and> set (owned_slots owned) = {start ..< p} \<and> distinct (owned_slots owned)"
proof (induction start owned p rule: covers.induct)
  case (2 start a r owned p)
  then have IH: "start \<le> range_start r" "set (owned_slots owned) = {start ..< range_start r}"
    "distinct (owned_slots owned)" and r: "range_end r = p" "range_start r \<le> p" by auto
  have "set (range_list r) = {range_start r ..< p}" using r by (simp add: set_range_list)
  with IH r show ?case by (auto simp: distinct_range_list)
qed simp

lemma distinct_concat_unique:
  "distinct (concat (map f xs)) \<Longrightarrow> a \<in> set xs \<Longrightarrow> b \<in> set xs \<Longrightarrow> x \<in> set (f a) \<Longrightarrow> x \<in> set (f b) \<Longrightarrow> a = b"
  by (induction xs) auto

lemma caps_distinct:
  assumes inj: "inj (slot_cptr K)" and "\<forall>a r. (a, r) \<in> set owned \<longrightarrow> asset_ok K a r" and "distinct (owned_slots owned)"
  shows "distinct (concat (map (\<lambda>(a, r). asset_caps a) owned)) \<and>
    set (concat (map (\<lambda>(a, r). asset_caps a) owned)) \<subseteq> slot_cptr K ` set (owned_slots owned)"
  using assms(2,3)
proof (induction owned)
  case (Cons x owned)
  obtain a r where x: "x = (a, r)" by fastforce
  from Cons.prems x have a: "set (asset_caps a) \<subseteq> slot_cptr K ` set (range_list r)" "distinct (asset_caps a)"
    and disj: "set (range_list r) \<inter> set (owned_slots owned) = {}"
    using inj by (auto simp: asset_ok_def)
  from Cons.IH Cons.prems have IH: "distinct (concat (map (\<lambda>(a, r). asset_caps a) owned))"
    "set (concat (map (\<lambda>(a, r). asset_caps a) owned)) \<subseteq> slot_cptr K ` set (owned_slots owned)" by simp_all
  have "slot_cptr K ` set (range_list r) \<inter> slot_cptr K ` set (owned_slots owned) = {}"
    using image_Int [OF inj, of "set (range_list r)" "set (owned_slots owned)"] disj by simp
  then have "set (asset_caps a) \<inter> set (concat (map (\<lambda>(a, r). asset_caps a) owned)) = {}"
    using a(1) IH(2) by blast
  moreover have "concat (map (\<lambda>(a, r). asset_caps a) (x # owned)) =
      asset_caps a @ concat (map (\<lambda>(a, r). asset_caps a) owned)"
    and "owned_slots (x # owned) = range_list r @ owned_slots owned" by (simp_all add: x)
  ultimately show ?case using a IH by (simp only: set_append distinct_append image_Un) blast
qed simp

definition system_inv :: "'k sel4 \<Rightarrow> ('k \<Rightarrow> usize set) \<Rightarrow> usize_range \<Rightarrow> 'k system \<Rightarrow> bool" where
  "system_inv K occ r0 = (\<lambda>((b, w), owned).
     fs_first (bt_slots b) = range_start r0 \<and> fs_end (bt_slots b) = range_end r0 \<and>
     (fs_start (bt_slots b) = range_start r0 \<or> fs_start (bt_slots b) \<le> range_end r0) \<and>
     covers (range_start r0) owned (fs_start (bt_slots b)) \<and>
     occupied_slots occ w \<inter> {fs_start (bt_slots b) ..< range_end r0} = {} \<and>
     (\<forall>a r. (a, r) \<in> set owned \<longrightarrow>
        asset_ok K a r \<and> (filled a \<longrightarrow> set (range_list r) \<subseteq> occupied_slots occ w)))"

lemma system_inv_init:
  "bootstrap_new bi = Ok b \<Longrightarrow> occupied_slots occ w \<inter> set (range_list (bi_empty_range bi)) = {} \<Longrightarrow>
     system_inv K occ (bi_empty_range bi) ((b, w), [])"
  by (auto simp: bootstrap_new_def system_inv_def free_slots_new_def set_range_list split: if_splits)

text \<open>A settled construction that adds an asset for the slots it passed.\<close>

lemma system_inv_grow:
  assumes inv: "system_inv K occ r0 ((b, w), owned)" and led: "boot_ledger None (b, w) (c, v)"
    and occ: "occupied_slots occ w \<subseteq> occupied_slots occ v"
      "occupied_slots occ v \<subseteq> occupied_slots occ w \<union> set (range_list (passed b c))"
    and asset: "asset_ok K a (passed b c)" "filled a \<Longrightarrow> set (range_list (passed b c)) \<subseteq> occupied_slots occ v"
  shows "system_inv K occ r0 ((c, v), (a, passed b c) # owned)"
proof -
  from inv led have acct: "fs_first (bt_slots c) = range_start r0" "fs_end (bt_slots c) = range_end r0"
      "fs_start (bt_slots b) \<le> fs_start (bt_slots c)"
      "fs_start (bt_slots c) = range_start r0 \<or> fs_start (bt_slots c) \<le> range_end r0"
    by (auto simp: system_inv_def boot_ledger_def ledger_def)
  from inv have empty: "occupied_slots occ w \<inter> {fs_start (bt_slots b) ..< range_end r0} = {}"
    by (simp add: system_inv_def)
  have "occupied_slots occ v \<inter> {fs_start (bt_slots c) ..< range_end r0} = {}"
    using occ(2) empty acct(3)
    by (fastforce simp: set_range_list bootstrap_checkpoint_def free_slots_checkpoint_def disjoint_iff)
  moreover have "asset_ok K a' r \<and> (filled a' \<longrightarrow> set (range_list r) \<subseteq> occupied_slots occ v)"
    if "(a', r) \<in> set owned" for a' r
  proof -
    from inv that have "asset_ok K a' r" "filled a' \<longrightarrow> set (range_list r) \<subseteq> occupied_slots occ w"
      by (simp_all add: system_inv_def)
    with occ(1) show ?thesis by (meson subset_trans)
  qed
  moreover from inv have "covers (range_start r0) owned (fs_start (bt_slots b))" by (simp add: system_inv_def)
  ultimately show ?thesis
    using acct asset
    by (simp add: system_inv_def bootstrap_checkpoint_def free_slots_checkpoint_def)
qed

lemma asset_ok_lost: "asset_ok K ALost r"
  by (simp add: asset_ok_def)

lemma system_inv_other:
  assumes inv: "system_inv K occ r0 ((b, w), owned)"
    and other: "occupied_slots occ v - loose_slots owned = occupied_slots occ w - loose_slots owned"
  shows "system_inv K occ r0 ((b, v), owned)"
proof -
  from inv have "covers (range_start r0) owned (fs_start (bt_slots b))" by (simp add: system_inv_def)
  note part = covers_partition [OF this]
  have "loose_slots owned \<subseteq> set (owned_slots owned)" by (force simp: loose_slots_def split: if_splits)
  then have "loose_slots owned \<subseteq> {range_start r0 ..< fs_start (bt_slots b)}" using part by metis
  then have "loose_slots owned \<inter> {fs_start (bt_slots b) ..< range_end r0} = {}"
    by (fastforce simp: disjoint_iff)
  moreover have "set (range_list r) \<inter> loose_slots owned = {}" if mem: "(a, r) \<in> set owned" and full: "filled a" for a r
  proof (rule ccontr)
    assume "set (range_list r) \<inter> loose_slots owned \<noteq> {}"
    then obtain x a' r' where x: "x \<in> set (range_list r)" "(a', r') \<in> set owned" "\<not> filled a'"
      "x \<in> set (range_list r')" by (auto simp: loose_slots_def split: if_splits)
    with distinct_concat_unique [of "\<lambda>(a, r). range_list r" owned "(a, r)" "(a', r')" x] part mem full
    show False by simp
  qed
  ultimately show ?thesis
    using inv other unfolding system_inv_def by (auto, blast+)
qed

lemma system_inv_step:
  assumes laws: "root_slot_laws K occ" and levels: "levels_ok K"
    and step: "system_step K occ s t" and inv: "system_inv K occ r0 s"
  shows "system_inv K occ r0 t"
  using step
proof cases
  case (sys_built m b w a c v owned)
  from inv have pre: "fs_first (bt_slots b) \<le> fs_start (bt_slots b)"
    "occupied_slots occ w \<inter> {fs_start (bt_slots b) ..< fs_end (bt_slots b)} = {}"
    using covers_partition unfolding sys_built(1) by (auto simp: system_inv_def)
  from construction_settled [OF sys_built(3) laws pre sys_built(4)]
    construction_asset [OF sys_built(3) laws levels sys_built(4)]
    inv [unfolded sys_built(1)] show ?thesis
    unfolding sys_built(2) by (intro system_inv_grow) (auto simp: settled_def Let_def split: if_splits)
next
  case (sys_refused m b w e c v owned)
  from inv have pre: "fs_first (bt_slots b) \<le> fs_start (bt_slots b)"
    "occupied_slots occ w \<inter> {fs_start (bt_slots b) ..< fs_end (bt_slots b)} = {}"
    using covers_partition unfolding sys_refused(1) by (auto simp: system_inv_def)
  from construction_settled [OF sys_refused(3) laws pre sys_refused(4)] sys_refused(5)
    inv [unfolded sys_refused(1)] show ?thesis
    unfolding sys_refused(2) by (auto simp: settled_def Let_def system_inv_def)
next
  case (sys_lost m b w c v owned)
  from inv have pre: "fs_first (bt_slots b) \<le> fs_start (bt_slots b)"
    "occupied_slots occ w \<inter> {fs_start (bt_slots b) ..< fs_end (bt_slots b)} = {}"
    using covers_partition unfolding sys_lost(1) by (auto simp: system_inv_def)
  from construction_settled [OF sys_lost(3) laws pre sys_lost(4)] asset_ok_lost
    inv [unfolded sys_lost(1)] show ?thesis
    unfolding sys_lost(2) by (intro system_inv_grow) (auto simp: settled_def Let_def)
next
  case (sys_other v owned w b)
  with system_inv_other inv show ?thesis by blast
qed

lemma system_inv_reachable:
  assumes "root_slot_laws K occ" and "levels_ok K" and "(system_step K occ)\<^sup>*\<^sup>* s t" and "system_inv K occ r0 s"
  shows "system_inv K occ r0 t"
  using assms(3,4) by (induction rule: rtranclp_induct) (auto intro: system_inv_step [OF assms(1,2)])

section \<open>Properties\<close>

text \<open>
  C15. Root slots are partitioned among what was constructed: after any sequence of successful and
  failed constructions (tasks, recovery mappings, frames, endpoints, notifications, reply pools)
  through one bootstrap, interleaved with anything else that runs, each slot the allocator passed
  belongs to exactly one of them and no other slot does; every task, mapping, frame, endpoint and
  notification still holds a capability in each of its slots, and says so itself; the slots not
  passed are empty; and no capability is held by two of them, or twice by one.
\<close>

theorem root_slots_partitioned:
  assumes "root_slot_laws K occ" and "levels_ok K" and "inj (slot_cptr K)"
    and "bootstrap_new bi = Ok b0" and "occupied_slots occ w0 \<inter> set (range_list (bi_empty_range bi)) = {}"
    and "(system_step K occ)\<^sup>*\<^sup>* ((b0, w0), []) ((b, w), owned)"
  shows "distinct (owned_slots owned) \<and>
    set (owned_slots owned) = {range_start (bi_empty_range bi) ..< bootstrap_checkpoint b} \<and>
    (\<forall>a r. (a, r) \<in> set owned \<longrightarrow>
      declares a r \<and> (filled a \<longrightarrow> set (range_list r) \<subseteq> occupied_slots occ w)) \<and>
    occupied_slots occ w \<inter> {bootstrap_checkpoint b ..< range_end (bi_empty_range bi)} = {} \<and>
    distinct (concat (map (\<lambda>(a, r). asset_caps a) owned))"
proof -
  have start: "system_inv K occ (bi_empty_range bi) ((b0, w0), [])"
    by (rule system_inv_init) (use assms in simp_all)
  have "system_inv K occ (bi_empty_range bi) ((b, w), owned)"
    by (rule system_inv_reachable [OF assms(1,2,6) start])
  then have cov: "covers (range_start (bi_empty_range bi)) owned (fs_start (bt_slots b))"
    and ok: "\<forall>a r. (a, r) \<in> set owned \<longrightarrow>
      asset_ok K a r \<and> (filled a \<longrightarrow> set (range_list r) \<subseteq> occupied_slots occ w)"
    and empty: "occupied_slots occ w \<inter> {fs_start (bt_slots b) ..< range_end (bi_empty_range bi)} = {}"
    by (simp_all add: system_inv_def)
  note part = covers_partition [OF cov]
  have "distinct (concat (map (\<lambda>(a, r). asset_caps a) owned))"
    using caps_distinct [OF assms(3), of owned] ok part by blast
  with part ok empty show ?thesis
    by (simp add: bootstrap_checkpoint_def free_slots_checkpoint_def asset_ok_def)
qed

theorem root_slots_partitioned_witness:
  "\<exists>t c v. create_task ref_sel4 ref_config (ref_boot 100 130, ref_world [7] (\<lambda>_. [])) = (Ok t, (c, v)) \<and>
     tsk_root_slots t = \<lparr>range_start = 100, range_end = 114\<rparr> \<and> distinct (asset_caps (ATask t)) \<and>
     {100 ..< 114} \<subseteq> occupied_slots ref_occ v"
proof -
  let ?b = "ref_boot 100 130" and ?w = "ref_world [7] (\<lambda>_. [])"
  from ref_create_task obtain t c v where run: "create_task ref_sel4 ref_config (?b, ?w) = (Ok t, (c, v))"
    and ready: "ref_ready 114 (c, v)" by blast
  have cp: "passed ?b c = \<lparr>range_start = 100, range_end = 114\<rparr>"
    using ready by (simp add: bootstrap_checkpoint_def free_slots_checkpoint_def ref_boot_def ref_ready_def)
  have "pmap ATask (create_task ref_sel4 ref_config) (?b, ?w) = (Ok (ATask t), (c, v))"
    using run by (simp add: pmap_def)
  from sys_built [OF con_task this, of ref_occ "[]"]
  have reach: "(system_step ref_sel4 ref_occ)\<^sup>*\<^sup>* ((?b, ?w), [])
      ((c, v), [(ATask t, \<lparr>range_start = 100, range_end = 114\<rparr>)])" unfolding cp by simp
  have new: "bootstrap_new (ref_bootinfo 100 130) = Ok ?b"
    by (simp add: bootstrap_new_def ref_bootinfo_def ref_boot_def)
  have start: "occupied_slots ref_occ ?w \<inter> set (range_list (bi_empty_range (ref_bootinfo 100 130))) = {}"
    by (simp add: ref_occ_def ref_world_def ref_bootinfo_def set_range_list)
  have levels: "levels_ok ref_sel4" by (auto simp: levels_ok_def ref_sel4_def)
  have inj: "inj (slot_cptr ref_sel4)" by (simp add: inj_def)
  from root_slots_partitioned [OF ref_root_slot_laws levels inj new start reach] run show ?thesis
    by (auto simp: set_range_list)
qed

end
