(* ===== verification/Ipc_Typing.thy ===== *)
theory Ipc_Typing
  imports Ipc_Protocol
begin

text \<open>
  Two guarantees for the users of the IPC interface: every message that reaches them is
  well-typed, so that reading it and sending it on cannot panic; and whatever is outstanding can
  be consumed, so that no endpoint and no pool slot is stuck.
\<close>

section \<open>The buffer keeps its shape\<close>

definition same_buffer :: "'k world \<Rightarrow> 'k world \<Rightarrow> bool" where
  "same_buffer w v \<longleftrightarrow> length (msg_regs (wbuf v)) = length (msg_regs (wbuf w)) \<and>
     length (caps_or_badges (wbuf v)) = length (caps_or_badges (wbuf w))"

interpretation same_buffer: step_order same_buffer
  by unfold_locales (simp_all add: same_buffer_def)

text \<open>
  The IPC buffer is a structure of fixed arrays, which no invocation resizes.
\<close>

definition keeps_buffer :: "('k machine \<Rightarrow> 'a \<times> 'k machine) \<Rightarrow> bool" where
  "keeps_buffer f \<longleftrightarrow> (\<forall>m. length (msg_regs (ipcbuf (snd (f m)))) = length (msg_regs (ipcbuf m)) \<and>
     length (caps_or_badges (ipcbuf (snd (f m)))) = length (caps_or_badges (ipcbuf m)))"

definition kernel_keeps_buffer :: "'k sel4 \<Rightarrow> bool" where
  "kernel_keeps_buffer K \<longleftrightarrow>
     (\<forall>c info. keeps_buffer (cap_send K c info) \<and> keeps_buffer (ep_nb_send K c info) \<and> keeps_buffer (ep_call K c info)) \<and>
     (\<forall>c. keeps_buffer (ep_recv K c) \<and> keeps_buffer (ep_nb_recv K c)) \<and>
     (\<forall>info. keeps_buffer (sys_reply K info)) \<and>
     (\<forall>c. keeps_buffer (cnode_save_caller K c) \<and> keeps_buffer (cnode_delete K c))"

lemma keeps_bufferD:
  "keeps_buffer f \<Longrightarrow> f m = (a, n) \<Longrightarrow> length (msg_regs (ipcbuf n)) = length (msg_regs (ipcbuf m)) \<and>
     length (caps_or_badges (ipcbuf n)) = length (caps_or_badges (ipcbuf m))"
  unfolding keeps_buffer_def by (drule spec [of _ m]) simp

lemma keeps_invoke: "keeps_buffer f \<Longrightarrow> keeps same_buffer (invoke f)"
  by (rule keepsI) (auto simp: invoke_def same_buffer_def split: prod.splits dest: keeps_bufferD)

lemma keeps_syscall: "keeps_buffer f \<Longrightarrow> keeps same_buffer (syscall f)"
  by (rule keepsI) (auto simp: syscall_def same_buffer_def split: prod.splits dest: keeps_bufferD)

lemma keeps_setters:
  "keeps same_buffer (pmodify (set_flag c b))" "keeps same_buffer (configure_receive_path slot)"
  by (auto intro!: keepsI simp: pmodify_def same_buffer_def configure_receive_path_def)

lemma length_copy_prefix: "copy_prefix dst n src = Some x \<Longrightarrow> length x = length dst"
  by (auto simp: copy_prefix_def split: if_splits)

lemma keeps_prepare: "keeps same_buffer (message_prepare K m)"
  by (rule keepsI) (auto simp: message_prepare_def same_buffer_def bind_eq_Some_conv length_copy_prefix
      split: option.splits)

lemma keeps_received: "keeps same_buffer (message_received K info)"
  by (rule keepsI) (auto dest: message_received_world intro: same_buffer.R_refl)

lemma keeps_finish_slot: "keeps same_buffer (finish_slot slot b)"
  by (rule keepsI) (auto simp: finish_slot_def receive_slot_finish_def pret_def same_buffer_def
      split: option.splits prod.splits)

lemma keeps_pool: "keeps same_buffer (reply_pool_reserve p)" "keeps same_buffer (reply_pool_release p s)"
  by (auto intro!: keepsI simp: reply_pool_reserve_def reply_pool_release_def same_buffer_def Let_def
      split: option.splits if_splits)

text \<open>A program continued by cases on its result.\<close>

lemma keeps_cases:
  assumes "keeps same_buffer m" and "\<And>a. keeps same_buffer (f a)" and "\<And>e. keeps same_buffer (g e)"
  shows "keeps same_buffer (\<lambda>w. case m w of (Ok a, v) \<Rightarrow> f a v | (Err e, v) \<Rightarrow> g e v | (Panic, v) \<Rightarrow> (Panic, v))"
proof (rule keepsI)
  fix w r t
  assume run: "(case m w of (Ok a, v) \<Rightarrow> f a v | (Err e, v) \<Rightarrow> g e v | (Panic, v) \<Rightarrow> (Panic, v)) = (r, t)"
  obtain x v where m: "m w = (x, v)" by fastforce
  from keepsD [OF assms(1) m] run m show "same_buffer w t"
    by (cases x) (auto dest: keepsD [OF assms(2)] keepsD [OF assms(3)] intro: same_buffer.R_trans)
qed

lemma keeps_clear: "kernel_keeps_buffer K \<Longrightarrow> keeps same_buffer (clear_implicit_reply K ep)"
  unfolding clear_implicit_reply_def
  by (intro same_buffer.keeps_intros keeps_invoke keeps_setters) (simp add: kernel_keeps_buffer_def)

lemma keeps_deliver:
  assumes "kernel_keeps_buffer K"
  shows "keeps same_buffer (endpoint_deliver K ep slot info raw)"
proof -
  have "keeps same_buffer (\<lambda>v. (Ok x, v))" for x :: received_message
    by (rule keepsI) (auto intro: same_buffer.R_refl)
  then have "keeps same_buffer (\<lambda>w. case message_received K info w of
            (Ok m, v) \<Rightarrow> (Ok \<lparr>rm_endpoint = ep, rm_badge = badge_ok raw, rm_message = m\<rparr>, v)
          | (Err e, v) \<Rightarrow> pbind (clear_implicit_reply K ep) (\<lambda>_. pfail e) v
          | (Panic, v) \<Rightarrow> (Panic, v))"
    by (intro keeps_cases keeps_received same_buffer.keeps_intros keeps_clear assms)
  then show ?thesis
    unfolding endpoint_deliver_def Let_def
    by (auto intro!: same_buffer.keeps_intros keeps_finish_slot keeps_clear assms)
qed

lemma same_buffer_flag: "same_buffer (set_flag c b w) v = same_buffer w v"
  by (simp add: same_buffer_def)

lemma keeps_flagged: "keeps same_buffer m \<Longrightarrow> m (set_flag c b w) = (r, v) \<Longrightarrow> same_buffer w v"
  by (drule keepsD, assumption) (simp add: same_buffer_flag)

lemma keeps_receives:
  assumes "kernel_keeps_buffer K"
  shows "keeps same_buffer (endpoint_receive K ep slot)" "keeps same_buffer (endpoint_try_receive K ep slot)"
proof -
  have recv: "keeps_buffer (ep_recv K c)" "keeps_buffer (ep_nb_recv K c)" for c
    using assms by (simp_all add: kernel_keeps_buffer_def)
  have "keeps same_buffer (pbind (configure_receive_path slot) (\<lambda>_.
        pbind (invoke (ep_recv K (ep_cap ep))) (\<lambda>(info, raw_badge). endpoint_deliver K ep slot info raw_badge)))"
    unfolding case_prod_beta
    by (intro same_buffer.keeps_pbind keeps_setters keeps_invoke recv keeps_deliver assms)
  from keeps_flagged [OF this] show "keeps same_buffer (endpoint_receive K ep slot)"
    by (intro keepsI) (auto simp: endpoint_receive_def Let_def same_buffer_def split: if_splits)
  have "keeps same_buffer (pbind (configure_receive_path slot) (\<lambda>_.
        pbind (invoke (ep_nb_recv K (ep_cap ep))) (\<lambda>(info, raw_badge).
          if raw_badge = 0 \<and> mi_length info = 0 \<and> mi_extra_caps info = 0
          then pbind (pmodify (set_flag (ep_pending ep) False)) (\<lambda>_.
               pbind (finish_slot slot False) (\<lambda>_. pret None))
          else pmap Some (endpoint_deliver K ep slot info raw_badge))))"
    unfolding case_prod_beta
    by (auto intro!: same_buffer.keeps_intros keeps_setters keeps_invoke recv keeps_deliver keeps_finish_slot assms)
  from keeps_flagged [OF this] show "keeps same_buffer (endpoint_try_receive K ep slot)"
    by (intro keepsI) (auto simp: endpoint_try_receive_def Let_def same_buffer_def split: if_splits)
qed

lemma keeps_operations:
  assumes K: "kernel_keeps_buffer K"
  shows "keeps same_buffer (endpoint_send K ep m)" "keeps same_buffer (endpoint_try_send K ep m)"
    "keeps same_buffer (endpoint_call K ep m)" "keeps same_buffer (received_message_reply K rm m)"
    "keeps same_buffer (received_message_finish K rm)" "keeps same_buffer (deferred_reply_reply K d m)"
    "keeps same_buffer (deferred_reply_discard K d)" "keeps same_buffer (received_message_defer K rm p)"
proof -
  note laws = K [unfolded kernel_keeps_buffer_def]
  show "keeps same_buffer (endpoint_send K ep m)" "keeps same_buffer (endpoint_try_send K ep m)"
    "keeps same_buffer (endpoint_call K ep m)" "keeps same_buffer (received_message_reply K rm m)"
    "keeps same_buffer (received_message_finish K rm)" "keeps same_buffer (deferred_reply_reply K d m)"
    "keeps same_buffer (deferred_reply_discard K d)"
    unfolding endpoint_send_def endpoint_try_send_def endpoint_call_def received_message_reply_def
      received_message_finish_def deferred_reply_reply_def deferred_reply_discard_def delete_root_slot_def
    using laws by (intro same_buffer.keeps_intros keeps_prepare keeps_invoke keeps_syscall keeps_setters
        keeps_received keeps_pool keeps_clear K; simp)+
  show "keeps same_buffer (received_message_defer K rm p)"
    unfolding received_message_defer_def save_caller_def
  proof (intro same_buffer.keeps_pbind keeps_pool)
    fix reserved :: "usize option"
    show "keeps same_buffer (case reserved of
         None \<Rightarrow> pbind (clear_implicit_reply K (rm_endpoint rm)) (\<lambda>_. pfail NoReplySlots)
       | Some slot \<Rightarrow> (\<lambda>w. case syscall (cnode_save_caller K (AbsCPtr (init_cnode K) (slot_cptr K slot))) w of
             (Ok _, v) \<Rightarrow>
               pbind (pmodify (set_flag (ep_pending (rm_endpoint rm)) False)) (\<lambda>_.
               pret \<lparr>dr_pool = p, dr_slot = slot\<rparr>) v
           | (Err _, v) \<Rightarrow>
               pbind (reply_pool_release p slot) (\<lambda>_.
               pbind (clear_implicit_reply K (rm_endpoint rm)) (\<lambda>_. pfail NoReplyAuthority)) v
           | (Panic, v) \<Rightarrow> (Panic, v)))"
      using laws by (cases reserved)
        (simp_all, (intro keeps_cases same_buffer.keeps_intros keeps_clear keeps_syscall keeps_setters keeps_pool K; simp)+)
  qed
qed

section \<open>Messages that reach the user\<close>

definition received_ok :: "'k sel4 \<Rightarrow> received_message \<Rightarrow> bool" where
  "received_ok K rm \<longleftrightarrow> message_wf K (rm_message rm) \<and> msg_extra_caps (rm_message rm) \<le> 1"

lemma deliver_typed:
  assumes "slot_ready slot w" and "buffer_wf K (wbuf w)"
    and "endpoint_deliver K ep slot info raw w = (Ok rm, v)"
  shows "received_ok K rm"
proof -
  let ?u = "slot_done slot (mi_extra_caps info \<noteq> 0) w"
  obtain m where m: "message_received K info ?u = (Ok m, ?u)" "rm_message rm = m"
      "mi_extra_caps info \<le> (if slot = None then 0 else 1)"
    using assms(3) message_received_world [of K info ?u]
    by (auto simp: deliver_run [OF assms(1)] not_less split: if_splits prod.splits res.splits)
  have "buffer_wf K (wbuf ?u)" using assms(2) by simp
  from message_received_wf [OF this m(1)] message_received_bounds [OF m(1)] m(2,3) show ?thesis
    by (auto simp: received_ok_def split: if_splits)
qed

lemma map_ok_eq_Ok: "map_ok f r = Ok b \<longleftrightarrow> (\<exists>a. r = Ok a \<and> b = f a)"
  by (cases r) auto

lemma receive_typed:
  assumes K: "kernel_keeps_buffer K" and ready: "slot_ready slot w" and buf: "buffer_wf K (wbuf w)"
  shows "endpoint_receive K ep slot w = (Ok rm, v) \<Longrightarrow> received_ok K rm"
    and "endpoint_try_receive K ep slot w = (Ok (Some rm), v) \<Longrightarrow> received_ok K rm"
proof -
  let ?c = "mach (snd (configure_receive_path slot (set_flag (ep_pending ep) True w) :: (unit, unit) res \<times> _))"
  have "buffer_wf K (ipcbuf ?c)" using buf by (intro configure_buffer) simp
  then have got: "ep_recv K (ep_cap ep) ?c = (x, m) \<Longrightarrow> buffer_wf K (ipcbuf m)"
      "ep_nb_recv K (ep_cap ep) ?c = (x, m) \<Longrightarrow> buffer_wf K (ipcbuf m)" for x m
    using keeps_bufferD [of "ep_recv K (ep_cap ep)" ?c x m] keeps_bufferD [of "ep_nb_recv K (ep_cap ep)" ?c x m] K
    by (auto simp: kernel_keeps_buffer_def buffer_wf_def)
  have typed: "received_ok K rm" if "endpoint_deliver K ep slot info raw (set_flag (ep_pending ep) True w\<lparr>mach := m\<rparr>) = (Ok rm, v)"
    "buffer_wf K (ipcbuf m)" for info raw m rm v
    using that ready by (intro deliver_typed [OF _ _ that(1)]) (simp_all add: slot_ready_def split: option.splits)
  show "endpoint_receive K ep slot w = (Ok rm, v) \<Longrightarrow> received_ok K rm"
    using typed got(1) by (auto simp: receive_run split: if_splits prod.splits)
  show "endpoint_try_receive K ep slot w = (Ok (Some rm), v) \<Longrightarrow> received_ok K rm"
    using typed got(2)
    by (auto simp: try_receive_run pmap_def pbind_Ok pret_def map_ok_eq_Ok split: if_splits prod.splits)
qed

definition ipc_typed :: "'k sel4 \<Rightarrow> 'k ipc_state \<Rightarrow> bool" where
  "ipc_typed K = (\<lambda>(w, rms, ds). buffer_wf K (wbuf w) \<and> (\<forall>rm \<in> set rms. received_ok K rm))"

lemma ipc_step_same_buffer:
  assumes "kernel_keeps_buffer K" and "ipc_step K p (w, rms, ds) (v, rms', ds')"
  shows "same_buffer w v"
  using assms(2) by cases
    (auto intro: keepsD [OF keeps_receives(1) [OF assms(1)]] keepsD [OF keeps_receives(2) [OF assms(1)]]
      keepsD [OF keeps_operations(1) [OF assms(1)]] keepsD [OF keeps_operations(2) [OF assms(1)]]
      keepsD [OF keeps_operations(3) [OF assms(1)]] keepsD [OF keeps_operations(4) [OF assms(1)]]
      keepsD [OF keeps_operations(5) [OF assms(1)]] keepsD [OF keeps_operations(6) [OF assms(1)]]
      keepsD [OF keeps_operations(7) [OF assms(1)]] keepsD [OF keeps_operations(8) [OF assms(1)]]
      same_buffer.R_refl)

lemma ipc_step_typed:
  assumes K: "kernel_keeps_buffer K" and step: "ipc_step K p s t" and typed: "ipc_typed K s"
  shows "ipc_typed K t"
proof -
  obtain w rms ds v rms' ds' where s: "s = (w, rms, ds)" and t: "t = (v, rms', ds')" by (metis prod.exhaust)
  from step s t have step: "ipc_step K p (w, rms, ds) (v, rms', ds')" by simp
  from typed s have buf: "buffer_wf K (wbuf w)" and old: "\<forall>rm \<in> set rms. received_ok K rm"
    by (simp_all add: ipc_typed_def)
  have "\<forall>rm \<in> set rms'. received_ok K rm"
    using step old by cases
      (auto dest: receive_typed [OF K _ buf] set_remove1_subset [THEN subsetD])
  moreover have "buffer_wf K (wbuf v)"
    using ipc_step_same_buffer [OF K step] buf by (simp add: same_buffer_def buffer_wf_def)
  ultimately show ?thesis by (simp add: t ipc_typed_def)
qed

lemma ipc_reach_typed:
  "kernel_keeps_buffer K \<Longrightarrow> (ipc_step K p)\<^sup>*\<^sup>* s t \<Longrightarrow> ipc_typed K s \<Longrightarrow> ipc_typed K t"
  by (rotate_tac 1, induction rule: rtranclp_induct) (auto intro: ipc_step_typed)

lemma ipc_reach_buffer:
  assumes K: "kernel_keeps_buffer K" and "(ipc_step K p)\<^sup>*\<^sup>* s t"
  shows "same_buffer (fst s) (fst t)"
  using assms(2)
proof (induction rule: rtranclp_induct)
  case (step t u)
  then have "same_buffer (fst t) (fst u)"
    by (cases t; cases u) (auto intro: ipc_step_same_buffer [OF K])
  with step.IH show ?case by (rule same_buffer.R_trans)
qed (rule same_buffer.R_refl)

section \<open>Consuming what is outstanding\<close>

lemma finish_all:
  "ipc_inv p (w, rms, ds) \<Longrightarrow> \<exists>v. (ipc_step K p)\<^sup>*\<^sup>* (w, rms, ds) (v, [], ds) \<and>
     mask_cells v = mask_cells w \<and> (\<forall>c. flag_cells v c = (flag_cells w c \<and> c \<notin> rm_cell ` set rms))"
proof (induction rms arbitrary: w)
  case (Cons rm rms)
  let ?v = "replied K (rm_endpoint rm) w"
  have step: "ipc_step K p (w, rm # rms, ds) (?v, rms, ds)"
    using ipc_finish [of rm "rm # rms" K w ?v p ds]
    by (simp add: received_message_finish_def clear_implicit_reply_run)
  from ipc_step_inv [OF step Cons.prems] Cons.IH obtain v where
    "(ipc_step K p)\<^sup>*\<^sup>* (?v, rms, ds) (v, [], ds)" "mask_cells v = mask_cells ?v"
    "\<forall>c. flag_cells v c = (flag_cells ?v c \<and> c \<notin> rm_cell ` set rms)" by blast
  with step show ?case by (intro exI [of _ v]) (auto intro: converse_rtranclp_into_rtranclp)
qed auto

lemma empty_prepares: "\<exists>info u. message_prepare K (message_empty K l) w = (Ok info, u) \<and>
    flag_cells u = flag_cells w \<and> mask_cells u = mask_cells w"
  by (simp add: message_prepare_wf [OF message_empty_wf]) (simp add: message_empty_def)

lemma answer_all:
  "ipc_inv p (w, [], ds) \<Longrightarrow> \<exists>v. (ipc_step K p)\<^sup>*\<^sup>* (w, [], ds) (v, [], []) \<and>
     flag_cells v = flag_cells w \<and> pool_used p v = pool_used p w - dr_slot ` set ds"
proof (induction ds arbitrary: w)
  case (Cons d ds)
  from Cons.prems have d: "dr_pool d = p" "dr_slot d \<in> pool_used p w" and wf: "pool_wf p w"
    by (simp_all add: ipc_inv_def)
  obtain info u where prep: "message_prepare K (message_empty K 0) w = ((Ok info, u) :: (_, ipc_error) res \<times> _)"
    and u: "flag_cells u = flag_cells w" "mask_cells u = mask_cells w" using empty_prepares by metis
  obtain a x where send: "invoke (cap_send K (slot_cptr K (dr_slot d)) info) u = ((Ok a, x) :: (unit, ipc_error) res \<times> _)"
    and x: "flag_cells x = flag_cells u" "mask_cells x = mask_cells u"
    by (metis invoke_cells prod.exhaust)
  have "pool_wf p x" "pool_used p x = pool_used p w" using u x wf pool_cong by metis+
  with reply_pool_release_run [of p x "dr_slot d"] d(2) pool_used_subset [OF wf] obtain v where
    release: "reply_pool_release p (dr_slot d) x = ((Ok (), v) :: (unit, ipc_error) res \<times> _)"
    and v: "pool_used p v = pool_used p w - {dr_slot d}" "flag_cells v = flag_cells x" by auto
  have "deferred_reply_reply K d (message_empty K 0) w = ((Ok (), v) :: (unit, ipc_error) res \<times> _)"
    using prep send release d(1) by (simp add: deferred_reply_reply_def pbind_def)
  from ipc_deferred_reply [OF _ this, of "d # ds" p "[]"]
  have step: "ipc_step K p (w, [], d # ds) (v, [], ds)" by simp
  from ipc_step_inv [OF step Cons.prems] Cons.IH obtain t where
    "(ipc_step K p)\<^sup>*\<^sup>* (v, [], ds) (t, [], [])" "flag_cells t = flag_cells v"
    "pool_used p t = pool_used p v - dr_slot ` set ds" by blast
  with step v x(1) u(1) show ?case
    by (intro exI [of _ t]) (auto intro: converse_rtranclp_into_rtranclp)
qed auto

section \<open>Properties\<close>

text \<open>The reference kernel, with two callers waiting at one endpoint.\<close>

definition typing_pool :: reply_pool where
  "typing_pool = \<lparr>rp_slots = \<lparr>range_start = 100, range_end = 102\<rparr>, rp_occupied = 0\<rparr>"

definition typing_world :: "ref_kernel world" where
  "typing_world = (let msg = \<lparr>wt_thread = 1, wt_call = True, wt_badge = 7,
      wt_info = \<lparr>mi_label = 3, mi_caps_unwrapped = 0, mi_extra_caps = 0, mi_length = 1\<rparr>, wt_words = [9]\<rparr>
    in ref_world [] ((\<lambda>_. [])(10 := [msg, msg])))"

lemma typing_reach: "\<exists>rm v. (ipc_step ref_sel4 typing_pool)\<^sup>*\<^sup>* (typing_world, [], []) (v, [rm], [])"
proof -
  have ready: "slot_ready None typing_world" by (simp add: slot_ready_def)
  have "\<exists>rm v. endpoint_receive ref_sel4 \<lparr>ep_cap = 10, ep_pending = 0\<rparr> None typing_world = (Ok rm, v)"
    by (simp add: typing_world_def receive_run configure_receive_path_def pmodify_def ref_recv_def ref_world_def
        deliver_run slot_ready_def slot_done_def message_received_def MESSAGE_CAPACITY_def
        EXTRA_CAPACITY_def message_empty_def slice_to_def copy_prefix_def set_buf_def set_flag_def Let_def)
  with ipc_receive [OF ready] show ?thesis by blast
qed

lemma ref_keeps_buffer: "kernel_keeps_buffer ref_sel4"
proof -
  have "keeps_buffer (ref_save_caller c)" "keeps_buffer (ref_delete c)" for c
    by (cases c; simp add: keeps_buffer_def Let_def split: option.splits)+
  moreover have "keeps_buffer (ep_call ref_sel4 c info)" for c info
    by (simp add: keeps_buffer_def ref_sel4_def)
  moreover have "keeps_buffer (ref_send c info)" "keeps_buffer (ref_reply info)" "keeps_buffer (ref_recv c)" for c info
    by (auto simp: keeps_buffer_def ref_send_def ref_reply_def ref_recv_def split: option.splits list.splits)
  ultimately show ?thesis by (simp add: kernel_keeps_buffer_def)
qed

text \<open>
  C20. Whatever reaches the user of an endpoint is well-typed: in every state the public IPC
  operations can reach, each outstanding message has its words and capability words in arrays of
  the capacities, its length and its number of capabilities are within them, reading its payload
  cannot panic and gives as many words as it reports, and it can be sent back as a reply.
\<close>

theorem received_messages_are_typed:
  assumes "kernel_keeps_buffer K" and "buffer_wf K (wbuf w)" and "caps_or_badges (wbuf w) \<noteq> []"
    and "(ipc_step K p)\<^sup>*\<^sup>* (w, [], []) (v, rms, ds)" and "rm \<in> set rms"
  shows "message_wf K (rm_message rm) \<and> msg_extra_caps (rm_message rm) \<le> 1 \<and>
    (\<exists>words. message_words (rm_message rm) = Some words \<and> length words = msg_length (rm_message rm) \<and>
      length words \<le> MESSAGE_CAPACITY K) \<and>
    (\<exists>u. received_message_reply K rm (rm_message rm) v = ((Ok (), u) :: (unit, ipc_error) res \<times> 'k world))"
proof -
  have "ipc_typed K (v, rms, ds)"
    by (rule ipc_reach_typed [OF assms(1,4)]) (simp add: ipc_typed_def assms(2))
  with assms(5) have ok: "message_wf K (rm_message rm)" "msg_extra_caps (rm_message rm) \<le> 1"
    and buf: "length (msg_regs (wbuf v)) = MESSAGE_CAPACITY K"
    by (simp_all add: ipc_typed_def received_ok_def buffer_wf_def)
  have "length (caps_or_badges (wbuf v)) = length (caps_or_badges (wbuf w))"
    using ipc_reach_buffer [OF assms(1,4)] by (simp add: same_buffer_def)
  with assms(3) have "1 \<le> length (caps_or_badges (wbuf v))" by (cases "caps_or_badges (wbuf w)") auto
  with ok buf have fits: "msg_length (rm_message rm) \<le> length (msg_regs (wbuf v)) \<and>
      msg_extra_caps (rm_message rm) \<le> length (caps_or_badges (wbuf v))" by (auto simp: message_wf_def)
  have "\<exists>u. received_message_reply K rm (rm_message rm) v = ((Ok (), u) :: (unit, ipc_error) res \<times> 'k world)"
    using fits by (simp add: received_message_reply_def message_prepare_wf [OF ok(1)] pbind_def invoke_def
        pmodify_def split: prod.splits)
  with ok show ?thesis by (auto simp: message_words_wf message_wf_def)
qed

theorem received_messages_are_typed_witness:
  "\<exists>rm v. (ipc_step ref_sel4 typing_pool)\<^sup>*\<^sup>* (typing_world, [], []) (v, [rm], []) \<and>
     (\<exists>words. message_words (rm_message rm) = Some words) \<and>
     (\<exists>u. received_message_reply ref_sel4 rm (rm_message rm) v = ((Ok (), u) :: (unit, ipc_error) res \<times> _))"
proof -
  obtain rm v where reach: "(ipc_step ref_sel4 typing_pool)\<^sup>*\<^sup>* (typing_world, [], []) (v, [rm], [])"
    using typing_reach by blast
  have buf: "buffer_wf ref_sel4 (wbuf typing_world)" "caps_or_badges (wbuf typing_world) \<noteq> []"
    by (simp_all add: typing_world_def ref_world_def buffer_wf_def MESSAGE_CAPACITY_def Let_def)
  from received_messages_are_typed [OF ref_keeps_buffer buf reach, of rm] reach show ?thesis by auto
qed

text \<open>
  C19. Nothing gets stuck: from every reachable state of the IPC protocol the outstanding messages
  and deferred replies can all be consumed by operations that return, whatever the kernel answers;
  afterwards every endpoint that had a message outstanding takes the next receive, every pool slot
  held by a deferred reply is free, and no other endpoint or slot has changed.
\<close>

theorem outstanding_can_be_consumed:
  assumes "pool_wf p w0" and "(ipc_step K p)\<^sup>*\<^sup>* (w0, [], []) (w, rms, ds)"
  shows "\<exists>v. (ipc_step K p)\<^sup>*\<^sup>* (w, rms, ds) (v, [], []) \<and>
    (\<forall>rm \<in> set rms. fst (endpoint_receive K (rm_endpoint rm) None v) \<noteq> Err ReplyPending) \<and>
    (\<forall>c. c \<notin> rm_cell ` set rms \<longrightarrow> flag_cells v c = flag_cells w c) \<and>
    pool_used p v = pool_used p w - dr_slot ` set ds"
proof -
  have "ipc_inv p (w, rms, ds)"
    by (rule ipc_reach_inv [OF assms(2)]) (simp add: ipc_inv_def assms(1))
  from finish_all [OF this] obtain u where u: "(ipc_step K p)\<^sup>*\<^sup>* (w, rms, ds) (u, [], ds)"
    "mask_cells u = mask_cells w" "\<forall>c. flag_cells u c = (flag_cells w c \<and> c \<notin> rm_cell ` set rms)" by blast
  from ipc_reach_inv [OF u(1) \<open>ipc_inv p (w, rms, ds)\<close>] answer_all obtain v where
    v: "(ipc_step K p)\<^sup>*\<^sup>* (u, [], ds) (v, [], [])" "flag_cells v = flag_cells u"
    "pool_used p v = pool_used p u - dr_slot ` set ds" by blast
  have "fst (endpoint_receive K (rm_endpoint rm) None v) \<noteq> Err ReplyPending" if "rm \<in> set rms" for rm
  proof -
    obtain r x where run: "endpoint_receive K (rm_endpoint rm) None v = (r, x)" by fastforce
    have "slot_ready None v" by (simp add: slot_ready_def)
    from receive_outcome [OF this run] that u(3) v(2) run show ?thesis by (auto simp: receive_contract_def)
  qed
  moreover have "pool_used p v = pool_used p w - dr_slot ` set ds"
    using v(3) pool_cong(2) [OF u(2)] by simp
  ultimately show ?thesis using u v by (intro exI [of _ v]) auto
qed

theorem outstanding_can_be_consumed_witness:
  "\<exists>rm v u. (ipc_step ref_sel4 typing_pool)\<^sup>*\<^sup>* (typing_world, [], []) (v, [rm], []) \<and>
     (ipc_step ref_sel4 typing_pool)\<^sup>*\<^sup>* (v, [rm], []) (u, [], []) \<and>
     fst (endpoint_receive ref_sel4 (rm_endpoint rm) None u) \<noteq> Err ReplyPending"
proof -
  obtain rm v where reach: "(ipc_step ref_sel4 typing_pool)\<^sup>*\<^sup>* (typing_world, [], []) (v, [rm], [])"
    using typing_reach by blast
  have "pool_wf typing_pool typing_world"
    by (simp add: pool_wf_def range_len_def typing_pool_def typing_world_def ref_world_def Let_def)
  from outstanding_can_be_consumed [OF this reach] reach show ?thesis by auto
qed

end
