(* ===== verification/Unit_Tests.thy ===== *)
theory Unit_Tests
  imports Task
begin

text \<open>
  The unit tests of the crate (the \<open>tests\<close> modules of free\_slots.rs, ipc\_state.rs, task.rs and
  fault.rs), translated like the code they test: a test is a program over the object it creates,
  an assertion that fails is a panic, and a test passes when it returns. Running them in the
  model checks the translation against the expectations the authors wrote down.
\<close>

section \<open>The test harness\<close>

definition assert_that :: "bool \<Rightarrow> ('s, unit, 'e) prog" where
  "assert_that condition = pres (if condition then Ok () else Panic)"

text \<open>A call whose result is inspected, not propagated: only a panic leaves the test.\<close>

definition inspect :: "('s, 'a, 'e) prog \<Rightarrow> ('s, ('a, 'e) res, 'f) prog" where
  "inspect m s = (case m s of (Panic, t) \<Rightarrow> (Panic, t) | (r, t) \<Rightarrow> (Ok r, t))"

definition assert_result :: "('s, 'a, 'e) prog \<Rightarrow> ('a, 'e) res \<Rightarrow> ('s, unit, 'f) prog" where
  "assert_result m expected = pbind (inspect m) (\<lambda>r. assert_that (r = expected))"

text \<open>A mutating call without a \<open>Result\<close>, and a call that only reads.\<close>

definition mutating :: "('s \<Rightarrow> 'a \<times> 's) \<Rightarrow> ('s, 'a, 'e) prog" where
  "mutating f s = (case f s of (a, t) \<Rightarrow> (Ok a, t))"

definition reading :: "('s \<Rightarrow> 'a) \<Rightarrow> ('s, 'a, 'e) prog" where
  "reading f s = (Ok (f s), s)"

definition expect :: "('a, 'e) res \<Rightarrow> ('a, 'f) res" where
  "expect r = (case r of Ok a \<Rightarrow> Ok a | _ \<Rightarrow> Panic)"

fun is_ok :: "('a, 'e) res \<Rightarrow> bool" where
  "is_ok (Ok _) = True"
| "is_ok _ = False"

fun is_err :: "('a, 'e) res \<Rightarrow> bool" where
  "is_err (Err _) = True"
| "is_err _ = False"

definition test_passes :: "('s, unit, unit) prog \<Rightarrow> 's \<Rightarrow> bool" where
  "test_passes test s \<longleftrightarrow> fst (test s) = Ok ()"

named_theorems test_simps "equations that run tests"

declare assert_that_def [test_simps] inspect_def [test_simps] assert_result_def [test_simps]
  mutating_def [test_simps] reading_def [test_simps] expect_def [test_simps] test_passes_def [test_simps]

section \<open>Tests of free\_slots.rs\<close>

text \<open>The object under test, beside an empty rest of the state for the callbacks.\<close>

type_synonym slots_test = "(free_slots \<times> unit, unit, unit) prog"

definition fresh_slots :: "usize \<Rightarrow> usize \<Rightarrow> free_slots \<times> unit" where
  "fresh_slots start stop = (free_slots_new \<lparr>range_start = start, range_end = stop\<rparr>, ())"

definition on_slots_only :: "(free_slots \<Rightarrow> 'a \<times> free_slots) \<Rightarrow> free_slots \<times> unit \<Rightarrow> 'a \<times> (free_slots \<times> unit)" where
  "on_slots_only f = (\<lambda>(s, u). case f s of (a, t) \<Rightarrow> (a, (t, u)))"

text \<open>\<open>assert_eq!(slots.try_allocate(Ok), Ok(expected))\<close>\<close>

definition assert_allocates :: "usize option \<Rightarrow> slots_test" where
  "assert_allocates expected =
     assert_result (free_slots_try_allocate pret :: (free_slots \<times> unit, usize option, unit) prog) (Ok expected)"

definition slots_are_unique_and_exhaustion_is_permanent :: bool where
  "slots_are_unique_and_exhaustion_is_permanent = test_passes
     (pbind (assert_allocates (Some 7)) (\<lambda>_.
      pbind (assert_allocates (Some 8)) (\<lambda>_.
      pbind (assert_allocates None) (\<lambda>_.
      assert_allocates None)))) (fresh_slots 7 9)"

definition empty_range_has_no_slots :: bool where
  "empty_range_has_no_slots = test_passes (assert_allocates None) (fresh_slots 4 4)"

definition upper_bound_does_not_overflow :: bool where
  "upper_bound_does_not_overflow = test_passes
     (pbind (assert_allocates (Some (- 1 - 1))) (\<lambda>_. assert_allocates None)) (fresh_slots (- 1 - 1) (- 1))"

definition failed_creation_preserves_the_slot :: bool where
  "failed_creation_preserves_the_slot = test_passes
     (pbind (pfor [''no candidates'', ''all exhausted'', ''kernel error''] (\<lambda>failure.
        assert_result (free_slots_try_allocate (\<lambda>slot.
            pbind (assert_that (slot = 7)) (\<lambda>_. pfail failure)) ::
            (free_slots \<times> unit, usize option, string) prog) (Err failure))) (\<lambda>_.
      pbind (assert_allocates (Some 7)) (\<lambda>_.
      assert_allocates None))) (fresh_slots 7 8)"

definition empty_slots_do_not_attempt_creation :: bool where
  "empty_slots_do_not_attempt_creation = test_passes
     (assert_result (free_slots_try_allocate (\<lambda>_. pres Panic) ::
        (free_slots \<times> unit, usize option, unit) prog) (Ok None)) (fresh_slots 4 4)"

definition checkpoint_rewinds_only_a_valid_committed_suffix :: bool where
  "checkpoint_rewinds_only_a_valid_committed_suffix = test_passes
     (pbind (reading (\<lambda>(s, _). free_slots_checkpoint s)) (\<lambda>checkpoint.
      pbind (assert_allocates (Some 7)) (\<lambda>_.
      pbind (assert_allocates (Some 8)) (\<lambda>_.
      pbind (reading (\<lambda>(s, _). free_slots_allocated_since s checkpoint)) (\<lambda>since.
      pbind (assert_that (since = Some \<lparr>range_start = 7, range_end = 9\<rparr>)) (\<lambda>_.
      pbind (mutating (on_slots_only (free_slots_rewind checkpoint))) (\<lambda>rewound.
      pbind (assert_that rewound) (\<lambda>_.
      pbind (assert_allocates (Some 7)) (\<lambda>_.
      pbind (mutating (on_slots_only (free_slots_rewind 6))) (\<lambda>early.
      pbind (assert_that (\<not> early)) (\<lambda>_.
      pbind (mutating (on_slots_only (free_slots_rewind 9))) (\<lambda>late.
      assert_that (\<not> late))))))))))))) (fresh_slots 7 10)"

definition bounded_range_reservation_does_not_overlap_later_allocations :: bool where
  "bounded_range_reservation_does_not_overlap_later_allocations = test_passes
     (pbind (mutating (on_slots_only (free_slots_reserve 3))) (\<lambda>block.
      pbind (assert_that (block = Some \<lparr>range_start = 7, range_end = 10\<rparr>)) (\<lambda>_.
      pbind (assert_allocates (Some 10)) (\<lambda>_.
      pbind (mutating (on_slots_only (free_slots_reserve 2))) (\<lambda>refused.
      pbind (assert_that (refused = None)) (\<lambda>_.
      assert_allocates (Some 11))))))) (fresh_slots 7 12)"

section \<open>Tests of ipc\_state.rs\<close>

text \<open>\<open>SlotTracker::new\<close> exists for the tests alone and panics on an invalid capacity.\<close>

definition slot_tracker_new :: "usize \<Rightarrow> (slot_tracker, unit) res" where
  "slot_tracker_new capacity = expect (slot_tracker_try_new capacity)"

definition with_tracker :: "usize \<Rightarrow> (slot_tracker, unit, unit) prog \<Rightarrow> bool" where
  "with_tracker capacity test \<longleftrightarrow> res_bind (slot_tracker_new capacity) (\<lambda>t. fst (test t)) = Ok ()"

definition badge_sequence_is_nonzero_unique_and_bounded :: bool where
  "badge_sequence_is_nonzero_unique_and_bounded \<longleftrightarrow>
     badge_sequence_new 0 = None \<and>
     (case badge_sequence_new 7 of None \<Rightarrow> False | Some badges \<Rightarrow> test_passes
        (pbind (mutating badge_sequence_allocate) (\<lambda>first.
         pbind (assert_that (first = Some 7)) (\<lambda>_.
         pbind (mutating badge_sequence_allocate) (\<lambda>second.
         assert_that (second = Some 8))))) badges) \<and>
     (case badge_sequence_new (- 1) of None \<Rightarrow> False | Some exhausted \<Rightarrow> test_passes
        (pbind (mutating badge_sequence_allocate) (\<lambda>first.
         pbind (assert_that (first = None)) (\<lambda>_.
         pbind (mutating badge_sequence_allocate) (\<lambda>second.
         assert_that (second = None))))) exhausted)"

definition rejects_invalid_and_occupied_receive_slots :: bool where
  "rejects_invalid_and_occupied_receive_slots = with_tracker 8
     (pbind (assert_result (slot_tracker_reserve 0) (Err Reserved)) (\<lambda>_.
      pbind (assert_result (slot_tracker_reserve 8) (Err OutOfRange)) (\<lambda>_.
      pbind (assert_result (slot_tracker_mark_occupied 3) (Ok ())) (\<lambda>_.
      assert_result (slot_tracker_reserve 3) (Err Occupied)))))"

definition failed_receive_keeps_destination_free :: bool where
  "failed_receive_keeps_destination_free = with_tracker 8
     (pbind (inspect (slot_tracker_reserve 3)) (\<lambda>reserved.
      pbind (pres (expect reserved)) (\<lambda>reservation.
      pbind (assert_result (slot_tracker_cancel reservation) (Ok ())) (\<lambda>_.
      assert_result (pmap (\<lambda>_. ()) (slot_tracker_reserve 3)) (Ok ())))))"

definition successful_receive_commits_destination_ownership :: bool where
  "successful_receive_commits_destination_ownership = with_tracker 8
     (pbind (inspect (slot_tracker_reserve 3)) (\<lambda>reserved.
      pbind (pres (expect reserved)) (\<lambda>reservation.
      pbind (assert_result (slot_tracker_commit reservation) (Ok ())) (\<lambda>_.
      assert_result (slot_tracker_reserve 3) (Err Occupied)))))"

definition committed_reservations_cannot_be_reused :: bool where
  "committed_reservations_cannot_be_reused = with_tracker 8
     (pbind (inspect (slot_tracker_reserve 3)) (\<lambda>reserved.
      pbind (pres (expect reserved)) (\<lambda>reservation.
      pbind (assert_result (slot_tracker_commit reservation) (Ok ())) (\<lambda>_.
      assert_result (slot_tracker_reserve 3) (Err Occupied)))))"

definition bounded_tracker_rejects_unrepresentable_capacity :: bool where
  "bounded_tracker_rejects_unrepresentable_capacity \<longleftrightarrow>
     slot_tracker_try_new (MAX_SLOTS + 1) = Err CapacityTooLarge"

section \<open>Tests of task.rs\<close>

definition PAGE :: usize where "PAGE = 4096"

definition valid_layout :: "(task_layout, layout_error) res" where
  "valid_layout = layout_validate PAGE 0x1000 0x1000 0x2000 0x3000 0x4000 []"

definition accepts_distinct_aligned_pages_and_computes_stack_top :: bool where
  "accepts_distinct_aligned_pages_and_computes_stack_top \<longleftrightarrow>
     map_ok tl_stack_pointer valid_layout = Ok 0x4000"

definition rejects_invalid_page_size_and_alignment :: bool where
  "rejects_invalid_page_size_and_alignment \<longleftrightarrow>
     map_ok (\<lambda>_. ()) (layout_validate 0 0x1000 0x1000 0x2000 0x3000 0x4000 []) = Err InvalidPageSize \<and>
     map_ok (\<lambda>_. ()) (layout_validate PAGE 0x1001 0x1000 0x2000 0x3000 0x4000 []) = Err UnalignedAddress"

definition rejects_overflow_and_overlapping_pages :: bool where
  "rejects_overflow_and_overlapping_pages \<longleftrightarrow>
     map_ok (\<lambda>_. ()) (layout_validate PAGE (- 1 - (PAGE - 1)) (- 1 - (PAGE - 1)) 0x2000 0x3000 0x4000 []) =
       Err AddressOverflow \<and>
     map_ok (\<lambda>_. ()) (layout_validate PAGE 0x1000 0x1000 0x2000 0x2000 0x4000 []) = Err OverlappingPages"

definition rejects_entry_outside_code_or_instruction_alignment :: bool where
  "rejects_entry_outside_code_or_instruction_alignment \<longleftrightarrow>
     list_all (\<lambda>entry. map_ok (\<lambda>_. ()) (layout_validate PAGE 0x1000 entry 0x2000 0x3000 0x4000 []) =
       Err InvalidEntry) [0x0ffc, 0x2000, 0x1002]"

definition validates_reserved_unmapped_pages :: bool where
  "validates_reserved_unmapped_pages \<longleftrightarrow>
     is_ok (layout_validate PAGE 0x1000 0x1000 0x2000 0x3000 0x4000 [0x5000, 0x6000]) \<and>
     list_all (\<lambda>reserved. is_err (layout_validate PAGE 0x1000 0x1000 0x2000 0x3000 0x4000 reserved))
       [[0x2000], [0x5001], [0x5000, 0x5000]]"

section \<open>Tests of fault.rs\<close>

definition decodes_vm_fault_context :: bool where
  "decodes_vm_fault_context \<longleftrightarrow> fault_decode 5 [0x1000, 0x4000, 0, 0x92000047] =
     Ok (VmFault \<lparr>vm_instruction_pointer = 0x1000, vm_address = 0x4000, vm_instruction_fault = False,
       vm_syndrome = 0x92000047\<rparr>)"

definition rejects_malformed_vm_faults_before_field_access :: bool where
  "rejects_malformed_vm_faults_before_field_access \<longleftrightarrow>
     fault_decode 5 [0x1000, 0x4000, 0] = Err (UnexpectedLength 5 4 3) \<and>
     fault_decode 5 [0x1000, 0x4000, 2, 0] = Err (InvalidBoolean 5 2 2)"

definition decodes_unknown_syscall_register_context :: bool where
  "decodes_unknown_syscall_register_context \<longleftrightarrow>
     fault_decode 2 [10, 11, 12, 13, 14, 15, 16, 0x123, 0x8000, 0x9000, 0xa000, 0x40, 0x123] =
       Ok (UnknownSyscall \<lparr>us_argument_registers = [10, 11, 12, 13, 14, 15, 16, 0x123],
         us_instruction_pointer = 0x8000, us_stack_pointer = 0x9000, us_link_register = 0xa000,
         us_status_register = 0x40, us_syscall_number = 0x123\<rparr>)"

definition validates_capability_fault_shape_by_lookup_failure :: bool where
  "validates_capability_fault_shape_by_lookup_failure \<longleftrightarrow>
     fault_decode 1 [0x1000, 7, 0, 2, 61] = Ok (CapabilityFault \<lparr>cf_instruction_pointer = 0x1000,
       cf_capability_address = 7, cf_in_receive_phase = False, cf_lookup_failure = MissingCapability 61\<rparr>) \<and>
     fault_decode 1 [0x1000, 7, 1, 4, 60, 3, 4] = Ok (CapabilityFault \<lparr>cf_instruction_pointer = 0x1000,
       cf_capability_address = 7, cf_in_receive_phase = True, cf_lookup_failure = GuardMismatch 60 3 4\<rparr>) \<and>
     fault_decode 1 [0, 0, 0, 4, 0, 0] = Err (UnexpectedLength 1 7 6)"

definition rejects_unsupported_labels_and_invalid_lookup_types :: bool where
  "rejects_unsupported_labels_and_invalid_lookup_types \<longleftrightarrow>
     fault_decode 3 [] = Err (UnsupportedLabel 3) \<and>
     fault_decode 1 [0, 0, 0, 9] = Err (InvalidLookupFailureType 9)"

section \<open>The tests pass\<close>

lemma slots_tests:
  "slots_are_unique_and_exhaustion_is_permanent" "empty_range_has_no_slots"
  "upper_bound_does_not_overflow" "failed_creation_preserves_the_slot"
  "empty_slots_do_not_attempt_creation" "checkpoint_rewinds_only_a_valid_committed_suffix"
  "bounded_range_reservation_does_not_overlap_later_allocations"
  by (simp_all add: slots_are_unique_and_exhaustion_is_permanent_def empty_range_has_no_slots_def
      upper_bound_does_not_overflow_def failed_creation_preserves_the_slot_def
      empty_slots_do_not_attempt_creation_def checkpoint_rewinds_only_a_valid_committed_suffix_def
      bounded_range_reservation_does_not_overlap_later_allocations_def assert_allocates_def
      fresh_slots_def on_slots_only_def try_allocate_cases free_slots_new_def free_slots_checkpoint_def
      free_slots_allocated_since_def free_slots_rewind_def free_slots_reserve_def checked_add_def
      test_simps prog_simps)

lemma tracker_tests:
  "badge_sequence_is_nonzero_unique_and_bounded" "rejects_invalid_and_occupied_receive_slots"
  "failed_receive_keeps_destination_free" "successful_receive_commits_destination_ownership"
  "committed_reservations_cannot_be_reused" "bounded_tracker_rejects_unrepresentable_capacity"
  by (simp_all add: badge_sequence_is_nonzero_unique_and_bounded_def
      rejects_invalid_and_occupied_receive_slots_def failed_receive_keeps_destination_free_def
      successful_receive_commits_destination_ownership_def committed_reservations_cannot_be_reused_def
      bounded_tracker_rejects_unrepresentable_capacity_def with_tracker_def slot_tracker_new_def
      slot_tracker_try_new_def slot_tracker_reserve_def slot_tracker_mark_occupied_def
      slot_tracker_cancel_def slot_tracker_commit_def slot_tracker_state_mut_def set_state_def
      FREE_def RESERVED_def OCCUPIED_def MAX_SLOTS_def badge_sequence_new_def
      badge_sequence_allocate_def checked_add_def Let_def unsigned_minus_1_eq_mask mask_eq_exp_minus_1
      test_simps prog_simps)

lemma layout_tests:
  "accepts_distinct_aligned_pages_and_computes_stack_top" "rejects_invalid_page_size_and_alignment"
  "rejects_overflow_and_overlapping_pages" "rejects_entry_outside_code_or_instruction_alignment"
  "validates_reserved_unmapped_pages"
  by (simp_all add: accepts_distinct_aligned_pages_and_computes_stack_top_def
      rejects_invalid_page_size_and_alignment_def rejects_overflow_and_overlapping_pages_def
      rejects_entry_outside_code_or_instruction_alignment_def validates_reserved_unmapped_pages_def
      valid_layout_def PAGE_def layout_validate_def ref_power check_pages.simps(2) is_multiple_of_def
      checked_add_def Let_def)

lemma fault_tests:
  "decodes_vm_fault_context" "rejects_malformed_vm_faults_before_field_access"
  "decodes_unknown_syscall_register_context" "validates_capability_fault_shape_by_lookup_failure"
  "rejects_unsupported_labels_and_invalid_lookup_types"
  by (simp_all add: decodes_vm_fault_context_def rejects_malformed_vm_faults_before_field_access_def
      decodes_unknown_syscall_register_context_def validates_capability_fault_shape_by_lookup_failure_def
      rejects_unsupported_labels_and_invalid_lookup_types_def fault_decode_def decode_vm_fault_def
      decode_unknown_syscall_def decode_capability_fault_def decode_lookup_failure_def
      expect_length_def decode_boolean_def register_at_def slice_to_def copy_prefix_def)

section \<open>Properties\<close>

text \<open>
  The crate's own tests hold in the model: each test of the slot allocator, the badge sequence,
  the slot tracker, the layout check and the fault decoder, translated assertion by assertion,
  returns without a failed assertion.
\<close>

lemma unit_tests_pass:
  "slots_are_unique_and_exhaustion_is_permanent \<and> empty_range_has_no_slots \<and>
   upper_bound_does_not_overflow \<and> failed_creation_preserves_the_slot \<and>
   empty_slots_do_not_attempt_creation \<and> checkpoint_rewinds_only_a_valid_committed_suffix \<and>
   bounded_range_reservation_does_not_overlap_later_allocations \<and>
   badge_sequence_is_nonzero_unique_and_bounded \<and> rejects_invalid_and_occupied_receive_slots \<and>
   failed_receive_keeps_destination_free \<and> successful_receive_commits_destination_ownership \<and>
   committed_reservations_cannot_be_reused \<and> bounded_tracker_rejects_unrepresentable_capacity \<and>
   accepts_distinct_aligned_pages_and_computes_stack_top \<and> rejects_invalid_page_size_and_alignment \<and>
   rejects_overflow_and_overlapping_pages \<and> rejects_entry_outside_code_or_instruction_alignment \<and>
   validates_reserved_unmapped_pages \<and> decodes_vm_fault_context \<and>
   rejects_malformed_vm_faults_before_field_access \<and> decodes_unknown_syscall_register_context \<and>
   validates_capability_fault_shape_by_lookup_failure \<and> rejects_unsupported_labels_and_invalid_lookup_types"
  using slots_tests tracker_tests layout_tests fault_tests by simp

end
