(* ===== verification/Triples.thy ===== *)
theory Triples
  imports Contracts
begin

text \<open>
  Total-correctness style triples for programs: from a state with \<open>P\<close> a run that returns ends in
  \<open>Q\<close> of its value, and a run that fails or panics ends in \<open>E\<close>. The error condition is what a
  rollback starts from.
\<close>

definition triple :: "('s \<Rightarrow> bool) \<Rightarrow> ('s, 'a, 'e) prog \<Rightarrow> ('a \<Rightarrow> 's \<Rightarrow> bool) \<Rightarrow> ('s \<Rightarrow> bool) \<Rightarrow> bool" where
  "triple P m Q E \<longleftrightarrow> (\<forall>s. P s \<longrightarrow> (case m s of (Ok a, t) \<Rightarrow> Q a t | (_, t) \<Rightarrow> E t))"

lemma tripleI: "(\<And>s r t. P s \<Longrightarrow> m s = (r, t) \<Longrightarrow> (case r of Ok a \<Rightarrow> Q a t | _ \<Rightarrow> E t)) \<Longrightarrow> triple P m Q E"
  by (fastforce simp: triple_def split: prod.splits res.splits)

lemma tripleD: "triple P m Q E \<Longrightarrow> P s \<Longrightarrow> m s = (r, t) \<Longrightarrow> (case r of Ok a \<Rightarrow> Q a t | _ \<Rightarrow> E t)"
  by (auto simp: triple_def dest!: spec [of _ s] split: res.splits)

lemma triple_Ok: "triple P m Q E \<Longrightarrow> P s \<Longrightarrow> m s = (Ok a, t) \<Longrightarrow> Q a t"
  by (drule (2) tripleD) simp

lemma triple_fails: "triple P m Q E \<Longrightarrow> P s \<Longrightarrow> m s = (r, t) \<Longrightarrow> \<forall>a. r \<noteq> Ok a \<Longrightarrow> E t"
  by (drule (2) tripleD) (auto split: res.splits)

lemma triple_conseq:
  "triple P m Q E \<Longrightarrow> (\<And>s. P' s \<Longrightarrow> P s) \<Longrightarrow> (\<And>a t. Q a t \<Longrightarrow> Q' a t) \<Longrightarrow> (\<And>t. E t \<Longrightarrow> E' t) \<Longrightarrow>
     triple P' m Q' E'"
  by (rule tripleI) (auto dest!: tripleD split: res.splits)

lemma triple_pbind:
  assumes "triple P m Q E" and "\<And>a. triple (Q a) (f a) R E"
  shows "triple P (pbind m f) R E"
proof (rule tripleI)
  fix s r t
  assume P: "P s" and run: "pbind m f s = (r, t)"
  obtain x u where m: "m s = (x, u)" by fastforce
  from tripleD [OF assms(1) P m] tripleD [OF assms(2), of _ u r t] run m
  show "case r of Ok a \<Rightarrow> R a t | _ \<Rightarrow> E t" by (cases x) (auto simp: pbind_def)
qed

lemma triple_pret: "triple (Q a) (pret a) Q E"
  by (rule tripleI) (auto simp: pret_def)

lemma triple_return: "triple P (pret a) (\<lambda>_. P) E"
  by (rule tripleI) (auto simp: pret_def)

lemma triple_pfail: "triple E (pfail e) Q E"
  by (rule tripleI) (auto simp: pfail_def)

lemma triple_pres: "triple P (pres r) (\<lambda>a s. P s \<and> r = Ok a) P"
  by (rule tripleI) (auto simp: pres_def split: res.splits)

lemma triple_pfor:
  assumes "\<And>x. x \<in> set xs \<Longrightarrow> triple I (body x) (\<lambda>_. I) E"
  shows "triple I (pfor xs body) (\<lambda>_. I) E"
  using assms
proof (induction xs)
  case Nil
  show ?case by (simp add: triple_return)
next
  case (Cons x xs)
  have "triple I (body x) (\<lambda>_. I) E" by (rule Cons.prems) simp
  moreover have "triple I (pfor xs body) (\<lambda>_. I) E" by (rule Cons.IH) (rule Cons.prems, simp)
  ultimately show ?case by (simp add: triple_pbind)
qed

lemma triple_if: "(c \<Longrightarrow> triple P m Q E) \<Longrightarrow> (\<not> c \<Longrightarrow> triple P n Q E) \<Longrightarrow> triple P (if c then m else n) Q E"
  by simp

end
