(* ===== verification/Provision.thy ===== *)
theory Provision
  imports Progress
begin

text \<open>
  Resources on demand. Under the contract of the kernel the allocations of frames, endpoints,
  notifications and reply pools succeed as long as there are slots and memory, and every page a
  task reserved can be backed by a new frame when the task faults on it.
\<close>

section \<open>Frames, endpoints and notifications\<close>

definition allocates :: "'k sel4 \<Rightarrow> bootinfo \<Rightarrow> blueprint set \<Rightarrow> ('k \<Rightarrow> kview) \<Rightarrow> ('k \<Rightarrow> cptr \<Rightarrow> nat) \<Rightarrow>
    kcap \<Rightarrow> ('a \<Rightarrow> cptr) \<Rightarrow> ('k boot_state, 'a, bootstrap_error) prog \<Rightarrow> bool" where
  "allocates K bi B view room x cap_of m \<longleftrightarrow> (\<forall>cp n k V s. stands K bi B view room cp (Suc n) (Suc k) V s \<longrightarrow>
     (\<exists>a t V'. m s = (Ok a, t) \<and> stands K bi B view room cp n k V' t \<and> grows V V' \<and>
       cap_of a = slot_cptr K (bootstrap_checkpoint (fst s)) \<and> kv_caps V (cap_of a) = None \<and>
       kv_caps V' (cap_of a) = Some x))"

lemma allocatesI:
  "(\<And>cp n k V s. stands K bi B view room cp (Suc n) (Suc k) V s \<Longrightarrow>
     \<exists>a t V'. m s = (Ok a, t) \<and> stands K bi B view room cp n k V' t \<and> grows V V' \<and>
       cap_of a = slot_cptr K (bootstrap_checkpoint (fst s)) \<and> kv_caps V (cap_of a) = None \<and>
       kv_caps V' (cap_of a) = Some x) \<Longrightarrow> allocates K bi B view room x cap_of m"
  unfolding allocates_def by blast

lemma allocatesD:
  "allocates K bi B view room x cap_of m \<Longrightarrow> stands K bi B view room cp (Suc n) (Suc k) V s \<Longrightarrow>
     \<exists>a t V'. m s = (Ok a, t) \<and> stands K bi B view room cp n k V' t \<and> grows V V' \<and>
       cap_of a = slot_cptr K (bootstrap_checkpoint (fst s)) \<and> kv_caps V (cap_of a) = None \<and>
       kv_caps V' (cap_of a) = Some x"
  unfolding allocates_def by blast

lemma allocates_blueprint:
  assumes "obliging K bi B view room" and "inj (slot_cptr K)" and "bp \<in> B"
  shows "allocates K bi B view room (new_cap bp) id (bootstrap_allocate_blueprint K bp)"
proof (rule allocatesI)
  fix cp n k V s
  assume "stands K bi B view room cp (Suc n) (Suc k) V s"
  from allocate_succeeds [OF assms this] obtain c t where
    "bootstrap_allocate_blueprint K bp s = (Ok c, t)" "kv_caps V c = None"
    "c = slot_cptr K (bootstrap_checkpoint (fst s))" "stands K bi B view room cp n k (fresh bp c V) t" by blast
  then show "\<exists>a t V'. bootstrap_allocate_blueprint K bp s = (Ok a, t) \<and> stands K bi B view room cp n k V' t \<and>
      grows V V' \<and> id a = slot_cptr K (bootstrap_checkpoint (fst s)) \<and> kv_caps V (id a) = None \<and> kv_caps V' (id a) = Some (new_cap bp)"
    using grows_fresh [of V c bp] by (intro exI [of _ c] exI [of _ t] exI [of _ "fresh bp c V"])
      (simp add: fresh_def hold_def)
qed

lemma allocates_pmap:
  assumes "allocates K bi B view room x cap_of m" and "\<And>a. cap_of' (f a) = cap_of a"
  shows "allocates K bi B view room x cap_of' (pmap f m)"
proof (rule allocatesI)
  fix cp n k V s
  assume "stands K bi B view room cp (Suc n) (Suc k) V s"
  from allocatesD [OF assms(1) this] obtain a t V' where "m s = (Ok a, t)" "stands K bi B view room cp n k V' t"
    "grows V V'" "cap_of a = slot_cptr K (bootstrap_checkpoint (fst s))" "kv_caps V (cap_of a) = None"
    "kv_caps V' (cap_of a) = Some x" by blast
  with assms(2) show "\<exists>a t V'. pmap f m s = (Ok a, t) \<and> stands K bi B view room cp n k V' t \<and> grows V V' \<and>
      cap_of' a = slot_cptr K (bootstrap_checkpoint (fst s)) \<and> kv_caps V (cap_of' a) = None \<and> kv_caps V' (cap_of' a) = Some x"
    by (intro exI [of _ "f a"] exI [of _ t] exI [of _ V']) (simp add: pmap_def)
qed

text \<open>Where the bootstrap stands depends on what the view and \<open>room\<close> show of the kernel only.\<close>

lemma stands_seen:
  "stands K bi B view room cp n k V (b, w) \<Longrightarrow> view (kstate (mach v)) = view (kstate (mach w)) \<Longrightarrow>
     room (kstate (mach v)) = room (kstate (mach w)) \<Longrightarrow> stands K bi B view room cp n k V (b, v)"
  by (simp add: stands_def)

lemma stands_world: "stands K bi B view room cp n k V (b, w) \<Longrightarrow> mach v = mach w \<Longrightarrow> stands K bi B view room cp n k V (b, v)"
  by (simp add: stands_def)

lemma allocates_endpoint:
  assumes "obliging K bi B view room" and "inj (slot_cptr K)" and "EndpointBp \<in> B"
  shows "allocates K bi B view room (SignalCap 0) ep_cap (bootstrap_allocate_endpoint K)"
proof (rule allocatesI)
  fix cp n k V s
  assume "stands K bi B view room cp (Suc n) (Suc k) V s"
  from allocatesD [OF allocates_blueprint [OF assms] this] obtain c b w V' where
    run: "bootstrap_allocate_object K EndpointBp s = (Ok c, (b, w))" and st: "stands K bi B view room cp n k V' (b, w)"
    and post: "grows V V'" "c = slot_cptr K (bootstrap_checkpoint (fst s))" "kv_caps V c = None"
      "kv_caps V' c = Some (SignalCap 0)"
    by (auto simp: allocate_is_blueprint)
  from run obtain ep v where "bootstrap_allocate_endpoint K s = (Ok ep, (b, v))" "ep_cap ep = c" "mach v = mach w"
    by (auto simp: bootstrap_allocate_endpoint_def pbind_def on_world_def fresh_cell_def pmodify_def pret_def)
  with stands_world [OF st] post show "\<exists>a t V'. bootstrap_allocate_endpoint K s = (Ok a, t) \<and>
      stands K bi B view room cp n k V' t \<and> grows V V' \<and> ep_cap a = slot_cptr K (bootstrap_checkpoint (fst s)) \<and> kv_caps V (ep_cap a) = None \<and>
      kv_caps V' (ep_cap a) = Some (SignalCap 0)"
    by (intro exI [of _ ep] exI [of _ "(b, v)"] exI [of _ V']) simp
qed

lemma allocates_objects:
  assumes "obliging K bi B view room" and "inj (slot_cptr K)" and "{GranuleBp, EndpointBp, NotificationBp} \<subseteq> B"
  shows "allocates K bi B view room (FrameCap False) id (bootstrap_allocate_frame K)"
    and "allocates K bi B view room (SignalCap 0) ep_cap (bootstrap_allocate_endpoint K)"
    and "allocates K bi B view room (SignalCap 0) (ep_cap \<circ> fe_endpoint) (bootstrap_allocate_fault_endpoint K)"
    and "allocates K bi B view room (SignalCap 0) ntfn_cap (bootstrap_allocate_notification K)"
proof -
  from assms(3) have B: "GranuleBp \<in> B" "EndpointBp \<in> B" "NotificationBp \<in> B" by auto
  from allocates_blueprint [OF assms(1,2) B(1)]
  show "allocates K bi B view room (FrameCap False) id (bootstrap_allocate_frame K)" by (simp add: allocate_is_blueprint)
  from allocates_endpoint [OF assms(1,2) B(2)]
  show ep: "allocates K bi B view room (SignalCap 0) ep_cap (bootstrap_allocate_endpoint K)" .
  show "allocates K bi B view room (SignalCap 0) (ep_cap \<circ> fe_endpoint) (bootstrap_allocate_fault_endpoint K)"
    unfolding bootstrap_allocate_fault_endpoint_def by (rule allocates_pmap [OF ep]) simp
  have "allocates K bi B view room (SignalCap 0) id (bootstrap_allocate_object K NotificationBp)"
    using allocates_blueprint [OF assms(1,2) B(3)] by (simp add: allocate_is_blueprint)
  then show "allocates K bi B view room (SignalCap 0) ntfn_cap (bootstrap_allocate_notification K)"
    unfolding bootstrap_allocate_notification_def by (rule allocates_pmap) simp
qed

section \<open>Recovery\<close>

lemma recovery_runs:
  assumes kernel: "obliging K bi B view room" and inj: "inj (slot_cptr K)"
    and st: "stands K bi B view room (bootstrap_checkpoint b) (Suc n) k V (b, w)"
    and vs: "aspace K P (vs_root (tsk_vspace t)) A V" and owner: "kv_caps V (frame_cap f) = Some (FrameCap x)"
    and a: "a \<in> P" "a \<notin> A" "is_multiple_of a (GRANULE_BYTES K)"
  shows "\<exists>m c v V'. task_map_recovery_frame K t f a (b, w) = (Ok m, (c, v)) \<and>
    tm_root_slot m = bootstrap_checkpoint b \<and> stands K bi B view room (bootstrap_checkpoint b) n k V' (c, v) \<and>
    grows V V' \<and> aspace K P (vs_root (tsk_vspace t)) (insert a A) V'"
proof -
  from map_frame_succeeds [OF kernel inj st vs owner a, of RightsReadWrite] obtain m c v V' where
    run: "vspace_map_frame K (tsk_vspace t) f a RightsReadWrite (b, w) = (Ok m, (c, v))"
    and st': "stands K bi B view room (bootstrap_checkpoint b) n k V' (c, v)"
    and post: "grows V V'" "aspace K P (vs_root (tsk_vspace t)) (insert a A) V'" by (metis prod.exhaust)
  have "fs_first (bt_slots b) \<le> fs_start (bt_slots b)"
    using st by (auto simp: stands_def bootstrap_checkpoint_def free_slots_checkpoint_def)
  note map_recovery_of_mapping [OF run this]
  with st' post show ?thesis by auto
qed

text \<open>What a fault handler does for each of a list of missing pages: a new frame, mapped there.\<close>

definition back_pages :: "'k sel4 \<Rightarrow> task \<Rightarrow> usize list \<Rightarrow> ('k boot_state, unit, bootstrap_error) prog" where
  "back_pages K t pages = pfor pages (\<lambda>a.
     pbind (bootstrap_allocate_frame K) (\<lambda>c.
     pbind (task_map_recovery_frame K t (Frame c) a) (\<lambda>_. pret ())))"

lemma back_pages_runs:
  assumes kernel: "obliging K bi B view room" and inj: "inj (slot_cptr K)" and B: "GranuleBp \<in> B"
    and P: "set pages \<subseteq> P" "distinct pages" "\<forall>a \<in> set pages. is_multiple_of a (GRANULE_BYTES K)"
  shows "stands K bi B view room (bootstrap_checkpoint b) (2 * length pages + n) (length pages + k) V (b, w) \<Longrightarrow>
    aspace K P (vs_root (tsk_vspace t)) A V \<Longrightarrow> set pages \<inter> A = {} \<Longrightarrow>
    \<exists>c v V'. back_pages K t pages (b, w) = (Ok (), (c, v)) \<and>
      stands K bi B view room (bootstrap_checkpoint c) n k V' (c, v) \<and> grows V V' \<and>
      aspace K P (vs_root (tsk_vspace t)) (set pages \<union> A) V'"
  using P
proof (induction pages arbitrary: A V b w)
  case Nil
  then show ?case by (auto simp: back_pages_def pret_def grows_refl)
next
  case (Cons a pages)
  let ?vs = "vs_root (tsk_vspace t)"
  have st: "stands K bi B view room (bootstrap_checkpoint b) (Suc (Suc (2 * length pages + n))) (Suc (length pages + k)) V (b, w)"
    using Cons.prems(1) by simp
  from frame_succeeds [OF kernel inj B st Cons.prems(2)] obtain f b1 w1 V1 where
    frame: "bootstrap_allocate_frame K (b, w) = (Ok f, (b1, w1))" "kv_caps V1 f = Some (FrameCap False)"
    and st1: "stands K bi B view room (bootstrap_checkpoint b) (Suc (2 * length pages + n)) (length pages + k) V1 (b1, w1)"
    and g1: "grows V V1" and a1: "aspace K P ?vs A V1" by (metis prod.exhaust)
  have a: "a \<in> P" "a \<notin> A" "is_multiple_of a (GRANULE_BYTES K)" using Cons.prems by auto
  have owner: "kv_caps V1 (frame_cap (Frame f)) = Some (FrameCap False)" using frame(2) by simp
  from recovery_runs [OF kernel inj stands_anew [OF st1] a1 owner a] obtain m b2 w2 V2 where
    map: "task_map_recovery_frame K t (Frame f) a (b1, w1) = (Ok m, (b2, w2))"
    and st2: "stands K bi B view room (bootstrap_checkpoint b1) (2 * length pages + n) (length pages + k) V2 (b2, w2)"
    and g2: "grows V1 V2" and a2: "aspace K P ?vs (insert a A) V2" by blast
  have "set pages \<inter> insert a A = {}" "set pages \<subseteq> P" "distinct pages"
    "\<forall>a \<in> set pages. is_multiple_of a (GRANULE_BYTES K)" using Cons.prems by auto
  from Cons.IH [OF stands_anew [OF st2] a2 this] obtain c v V' where
    rest: "back_pages K t pages (b2, w2) = (Ok (), (c, v))"
    "stands K bi B view room (bootstrap_checkpoint c) n k V' (c, v)" "grows V2 V'"
    "aspace K P ?vs (set pages \<union> insert a A) V'" by blast
  have "back_pages K t (a # pages) (b, w) = (Ok (), (c, v))"
    using frame(1) map rest(1) by (simp add: back_pages_def pbind_def pret_def)
  moreover have "grows V V'" using g1 g2 rest(3) by (blast intro: grows_trans)
  ultimately show ?case using rest(2,4) by auto
qed

lemma layout_reserved:
  assumes "layout_validate (GRANULE_BYTES K) code entry priv stack ipc reserved = Ok l"
  shows "distinct reserved" "set reserved \<inter> {ipc, stack, priv, code} = {}"
    "\<forall>a \<in> set reserved. is_multiple_of a (GRANULE_BYTES K)"
proof -
  from layout_all_pages [OF assms] have "distinct ([code, priv, stack, ipc] @ reserved)"
    "\<forall>a \<in> set ([code, priv, stack, ipc] @ reserved). is_multiple_of a (GRANULE_BYTES K)" by blast+
  then show "distinct reserved" "set reserved \<inter> {ipc, stack, priv, code} = {}"
    "\<forall>a \<in> set reserved. is_multiple_of a (GRANULE_BYTES K)" by auto
qed

section \<open>Reply pools\<close>

lemma pool_runs:
  assumes capacity: "capacity \<noteq> 0" "unat capacity \<le> MAX_DEFERRED_REPLIES"
    and st: "stands K bi B view room cp (unat capacity + n) k V (b, w)"
  shows "\<exists>p c v. bootstrap_allocate_reply_pool capacity (b, w) = (Ok p, (c, v)) \<and>
    stands K bi B view room cp n k V (c, v) \<and>
    rp_slots p = \<lparr>range_start = bootstrap_checkpoint b, range_end = bootstrap_checkpoint c\<rparr>"
proof -
  let ?i = "fs_start (bt_slots b)" and ?e = "fs_end (bt_slots b)"
  from st have fit: "unat ?i + (unat capacity + n) \<le> unat ?e" by (simp add: stands_def)
  moreover have "unat ?e < 2 ^ LENGTH(64)" by (rule unsigned_less)
  ultimately have small: "unat ?i + unat capacity < 2 ^ 64" by simp
  then have add: "checked_add ?i capacity = Some (?i + capacity)" "unat (?i + capacity) = unat ?i + unat capacity"
    by (simp_all add: checked_add_def unat_word_ariths)
  let ?c = "b\<lparr>bt_slots := set_start (?i + capacity) (bt_slots b)\<rparr>"
  have "\<not> ?i + capacity > ?e" using fit add(2) by (simp add: word_less_nat_alt)
  then have "\<exists>p v. bootstrap_allocate_reply_pool capacity (b, w) = (Ok p, (?c, v)) \<and> mach v = mach w \<and>
      rp_slots p = \<lparr>range_start = ?i, range_end = ?i + capacity\<rparr>"
    using capacity add(1) by (simp add: bootstrap_allocate_reply_pool_def bootstrap_reserve_empty_slots_def
        free_slots_reserve_def pbind_def on_world_def fresh_cell_def pmodify_def pret_def)
  moreover have "stands K bi B view room cp n k V (?c, w)"
    using st fit add(2) by (simp add: stands_def word_le_nat_alt)
  ultimately show ?thesis using stands_world by (fastforce simp: bootstrap_checkpoint_def free_slots_checkpoint_def)
qed

section \<open>Properties\<close>

text \<open>
  C12. Every reserved page can be recovered: for a task in the state its construction leaves, two
  root slots and memory for one frame per reserved page are enough to back all of its reserved
  pages, one after another, each by a new frame that is mapped as the recovery operation maps it;
  the task then has all the pages of its layout mapped, and exactly these, and nothing held before
  is lost.
\<close>

theorem reserved_pages_recoverable:
  assumes "obliging K bi B view room" and "inj (slot_cptr K)" and "GranuleBp \<in> B"
    and "layout_validate (GRANULE_BYTES K) (sc_address (tk_code config)) (sc_entry (tk_code config))
      (tk_private_memory_address config) (tk_stack_address config) (tk_ipc_buffer_address config)
      (tk_reserved_pages config) = Ok l"
    and "task_ready K config t V"
    and "stands K bi B view room (bootstrap_checkpoint b) (2 * length (tk_reserved_pages config) + n)
      (length (tk_reserved_pages config) + k) V (b, w)"
  shows "\<exists>c v V'. back_pages K t (tk_reserved_pages config) (b, w) = (Ok (), (c, v)) \<and>
    stands K bi B view room (bootstrap_checkpoint c) n k V' (c, v) \<and> grows V V' \<and>
    aspace K (set (task_pages config)) (vs_root (tsk_vspace t)) (set (task_pages config)) V'"
proof -
  let ?four = "{tk_ipc_buffer_address config, tk_stack_address config, tk_private_memory_address config,
    sc_address (tk_code config)}"
  note reserved = layout_reserved [OF assms(4)]
  have pages: "set (task_pages config) = set (tk_reserved_pages config) \<union> ?four" by auto
  have "aspace K (set (task_pages config)) (vs_root (tsk_vspace t)) ?four V"
    using assms(5) by (simp add: task_ready_def)
  from back_pages_runs [OF assms(1-3) _ reserved(1,3) assms(6) this reserved(2)] show ?thesis
    unfolding pages by blast
qed

theorem reserved_pages_recoverable_witness:
  "\<exists>t s V. back_pages view_sel4 t [0x200000] s = (Ok (), V) \<and>
     (\<exists>b w. create_task view_sel4 view_config (ref_boot 100 116, view_world) = (Ok t, (b, w)) \<and> s = (b, w))"
proof -
  have start: "acceptable view_sel4 view_config view_start"
    by (rule view_acceptable [OF retains_refl]) (simp add: view_start_def)
  from create_task_runs [OF view_sel4_obliging view_objects_in view_basics start, unfolded view_plan, where n = 2 and k = 1]
    view_stands [of 116 16 11] obtain t b w V where
    run: "create_task view_sel4 view_config (ref_boot 100 116, view_world) = (Ok t, (b, w))"
    and st: "stands view_sel4 (bt_bootinfo (ref_boot 100 116)) view_objects fst snd (bootstrap_checkpoint b) 2 1 V (b, w)"
    and ready: "task_ready view_sel4 view_config t V" by fastforce
  have B: "GranuleBp \<in> view_objects" by (simp add: view_objects_def)
  have reserved: "tk_reserved_pages view_config = [0x200000]" by (simp add: view_config_def ref_config_def)
  from start obtain l where l: "layout_validate (GRANULE_BYTES view_sel4) (sc_address (tk_code view_config))
      (sc_entry (tk_code view_config)) (tk_private_memory_address view_config) (tk_stack_address view_config)
      (tk_ipc_buffer_address view_config) (tk_reserved_pages view_config) = Ok l" unfolding acceptable_def by blast
  from reserved_pages_recoverable [OF view_sel4_obliging view_basics(1) B l ready, where n = 0 and k = 0] st run
  show ?thesis unfolding reserved by fastforce
qed

text \<open>
  Allocations succeed while there are slots and memory: a frame, an endpoint, a fault endpoint
  or a notification takes the next slot and the place of one object, and its capability is the one
  of that slot, new, of the right type and without a badge; a reply pool takes its slots and no memory.
\<close>

lemma allocations_succeed:
  assumes "obliging K bi B view room" and "inj (slot_cptr K)" and "{GranuleBp, EndpointBp, NotificationBp} \<subseteq> B"
  shows "allocates K bi B view room (FrameCap False) id (bootstrap_allocate_frame K) \<and>
    allocates K bi B view room (SignalCap 0) ep_cap (bootstrap_allocate_endpoint K) \<and>
    allocates K bi B view room (SignalCap 0) (ep_cap \<circ> fe_endpoint) (bootstrap_allocate_fault_endpoint K) \<and>
    allocates K bi B view room (SignalCap 0) ntfn_cap (bootstrap_allocate_notification K) \<and>
    (\<forall>capacity cp n k V b w. capacity \<noteq> 0 \<longrightarrow> unat capacity \<le> MAX_DEFERRED_REPLIES \<longrightarrow>
      stands K bi B view room cp (unat capacity + n) k V (b, w) \<longrightarrow>
      (\<exists>p c v. bootstrap_allocate_reply_pool capacity (b, w) = (Ok p, (c, v)) \<and>
        stands K bi B view room cp n k V (c, v) \<and>
        rp_slots p = \<lparr>range_start = bootstrap_checkpoint b, range_end = bootstrap_checkpoint c\<rparr>))"
proof (intro conjI allI impI)
  show "\<exists>p c v. bootstrap_allocate_reply_pool capacity (b, w) = (Ok p, (c, v)) \<and>
      stands K bi B view room cp n k V (c, v) \<and>
      rp_slots p = \<lparr>range_start = bootstrap_checkpoint b, range_end = bootstrap_checkpoint c\<rparr>"
    if "capacity \<noteq> 0" "unat capacity \<le> MAX_DEFERRED_REPLIES" "stands K bi B view room cp (unat capacity + n) k V (b, w)"
    for capacity cp n k V b w by (rule pool_runs [OF that])
qed (rule allocates_objects [OF assms])+

lemma allocations_succeed_example:
  "\<exists>ep t. bootstrap_allocate_endpoint view_sel4 (ref_boot 100 110, view_world) = (Ok ep, t)"
proof -
  have "{GranuleBp, EndpointBp, NotificationBp} \<subseteq> view_objects" by (simp add: view_objects_def)
  from allocations_succeed [OF view_sel4_obliging view_basics(1) this] have
    "allocates view_sel4 (bt_bootinfo (ref_boot 100 110)) view_objects fst snd (SignalCap 0) ep_cap
      (bootstrap_allocate_endpoint view_sel4)" by blast
  from allocatesD [OF this, of _ 9 0] view_stands [of 110 10 1] show ?thesis by fastforce
qed

end
