(* ===== verification/Refusal.thy ===== *)
theory Refusal
  imports Provision
begin

text \<open>
  A refused task leaves the way free for the next one. Where the kernel can always delete the
  capabilities of root slots, a rollback succeeds, and the slots it returns are empty again; so a
  construction that fails on an absent capability ends with the bootstrap ready as before.
\<close>

section \<open>Rollback succeeds\<close>

text \<open>A deletion in the root CNode succeeds, empties the slot and takes no memory.\<close>

definition dropped :: "cptr set \<Rightarrow> kview \<Rightarrow> kview" where
  "dropped N V = V\<lparr>kv_caps := (\<lambda>c. if c \<in> N then None else kv_caps V c)\<rparr>"

definition clears :: "'k sel4 \<Rightarrow> ('k \<Rightarrow> kview) \<Rightarrow> ('k \<Rightarrow> cptr \<Rightarrow> nat) \<Rightarrow> bool" where
  "clears K view room \<longleftrightarrow> (\<forall>i m. \<exists>n. cnode_delete K (AbsCPtr (init_cnode K) (slot_cptr K i)) m = (Ok (), n) \<and>
     view (kstate n) = dropped {slot_cptr K i} (view (kstate m)) \<and>
     (\<forall>u. room (kstate m) u \<le> room (kstate n) u))"

lemma dropped_simps:
  "dropped {} V = V" "dropped N (dropped M V) = dropped (M \<union> N) V"
  "kv_caps (dropped N V) c = (if c \<in> N then None else kv_caps V c)"
  "kv_asids (dropped N V) = kv_asids V" "kv_user_top (dropped N V) = kv_user_top V"
  by (auto simp: dropped_def fun_eq_iff)

lemma delete_runs:
  assumes "clears K view room"
  shows "\<exists>v. pfor xs (\<lambda>i. pmap_err (\<lambda>_. RollbackFailed)
      (syscall (cnode_delete K (AbsCPtr (init_cnode K) (slot_cptr K i))))) w = (Ok (), v) \<and>
    view (kstate (mach v)) = dropped (slot_cptr K ` set xs) (view (kstate (mach w))) \<and>
    (\<forall>u. room (kstate (mach w)) u \<le> room (kstate (mach v)) u)"
proof (induction xs arbitrary: w)
  case Nil
  show ?case by (simp add: pret_def dropped_simps)
next
  case (Cons i xs)
  from spec [OF spec [OF assms [unfolded clears_def], of i], of "mach w"] obtain n where
    del: "cnode_delete K (AbsCPtr (init_cnode K) (slot_cptr K i)) (mach w) = (Ok (), n)"
    "view (kstate n) = dropped {slot_cptr K i} (view (kstate (mach w)))"
    "\<forall>u. room (kstate (mach w)) u \<le> room (kstate n) u" by blast
  from Cons.IH [of "w\<lparr>mach := n\<rparr>"] obtain v where
    rest: "pfor xs (\<lambda>i. pmap_err (\<lambda>_. RollbackFailed)
      (syscall (cnode_delete K (AbsCPtr (init_cnode K) (slot_cptr K i))))) (w\<lparr>mach := n\<rparr>) = (Ok (), v)"
    "view (kstate (mach v)) = dropped (slot_cptr K ` set xs) (view (kstate n))"
    "\<forall>u. room (kstate n) u \<le> room (kstate (mach v)) u" by auto
  moreover have "\<forall>u. room (kstate (mach w)) u \<le> room (kstate (mach v)) u"
    using del(3) rest(3) by (meson order_trans)
  moreover have "pmap_err (\<lambda>_. RollbackFailed)
      (syscall (cnode_delete K (AbsCPtr (init_cnode K) (slot_cptr K i)))) w = (Ok (), w\<lparr>mach := n\<rparr>)"
    using del(1) by (simp add: pmap_err_def syscall_def)
  ultimately show ?case using del(2) by (simp add: pbind_def dropped_simps)
qed

lemma rollback_runs:
  assumes clears: "clears K view room" and led: "boot_ledger None (b, w) (c, v)"
    and first: "fs_first (bt_slots b) \<le> fs_start (bt_slots b)"
  shows "\<exists>u. bootstrap_rollback K (bootstrap_checkpoint b) (c, v) = (Ok (), (b, u)) \<and>
    view (kstate (mach u)) = dropped (slot_cptr K ` {fs_start (bt_slots b) ..< fs_start (bt_slots c)}) (view (kstate (mach v))) \<and>
    (\<forall>r. room (kstate (mach v)) r \<le> room (kstate (mach u)) r)"
proof -
  let ?slots = "\<lparr>range_start = fs_start (bt_slots b), range_end = fs_start (bt_slots c)\<rparr>"
  from delete_runs [OF clears, of "rev (range_list ?slots)" v] obtain u where
    del: "delete_root_slots K ?slots v = (Ok (), u)"
    "view (kstate (mach u)) = dropped (slot_cptr K ` {fs_start (bt_slots b) ..< fs_start (bt_slots c)}) (view (kstate (mach v)))"
    "\<forall>r. room (kstate (mach v)) r \<le> room (kstate (mach u)) r"
    by (auto simp: delete_root_slots_def set_range_list)
  from led have here: "bt_bootinfo c = bt_bootinfo b" "fs_first (bt_slots c) = fs_first (bt_slots b)"
    "fs_end (bt_slots c) = fs_end (bt_slots b)" "fs_start (bt_slots b) \<le> fs_start (bt_slots c)"
    by (simp_all add: boot_ledger_def ledger_def)
  then have "c\<lparr>bt_slots := set_start (fs_start (bt_slots b)) (bt_slots c)\<rparr> = b"
    by (simp add: set_start_def)
  with del here first have "bootstrap_rollback K (bootstrap_checkpoint b) (c, v) = (Ok (), (b, u))"
    by (simp add: bootstrap_rollback_def bootstrap_committed_slots_def free_slots_allocated_since_def pbind_def
        on_world_def free_slots_rewind_def bootstrap_checkpoint_def free_slots_checkpoint_def)
  with del show ?thesis by blast
qed

section \<open>An absent capability\<close>

text \<open>A mint from an empty root slot fails without effect.\<close>

definition needs_source :: "'k sel4 \<Rightarrow> ('k \<Rightarrow> kview) \<Rightarrow> ('k \<Rightarrow> cptr \<Rightarrow> nat) \<Rightarrow> bool" where
  "needs_source K view room \<longleftrightarrow> (\<forall>root index depth source rights badge m.
     kv_caps (view (kstate m)) source = None \<longrightarrow>
     (\<exists>e n. cnode_mint K (AbsBits root index depth) (AbsCPtr (init_cnode K) source) rights badge m = (Err e, n) \<and>
       view (kstate n) = view (kstate m) \<and> room (kstate n) = room (kstate m)))"

lemma absent_cspace:
  assumes kernel: "obliging K bi B view room" and inj: "inj (slot_cptr K)" and B: "CNodeBp bits \<in> B"
    and refuses: "needs_source K view room"
    and st: "stands K bi B view room cp (Suc n) (Suc k) V s"
    and ok: "delegations_ok K bits (c # caps)" and small: "bits \<le> 8"
    and absent: "kv_caps V (dc_source c) = None" "dc_source c \<noteq> slot_cptr K (bootstrap_checkpoint (fst s))"
  shows "\<exists>t. cspace_create K bits (c # caps) None s = (Err CSpaceCreationFailed, t) \<and>
    stands K bi B view room cp n k (fresh (CNodeBp bits) (slot_cptr K (bootstrap_checkpoint (fst s))) V) t"
proof -
  from allocate_succeeds [OF kernel inj B st] obtain root b u where
    alloc: "bootstrap_allocate_variable_object K CNodeBp bits s = (Ok root, (b, u))"
    and root: "root = slot_cptr K (bootstrap_checkpoint (fst s))"
    and st': "stands K bi B view room cp n k (fresh (CNodeBp bits) root V) (b, u)"
    by (auto simp: allocate_is_blueprint)
  let ?cap = "push_bit (unat bits) 1 :: usize"
  let ?cs = "\<lparr>cs_root = root, cs_size_bits = bits, cs_slots = next_cell u\<rparr>"
  let ?t = "\<lparr>st_capacity = ?cap, st_states = replicate 256 FREE\<rparr>"
  let ?w = "set_tracker (next_cell u) ?t (u\<lparr>next_cell := Suc (next_cell u)\<rparr>)"
  from ok have s: "0 < bits" "bits < WORD_SIZE K" "bits < 64" "unat bits < 64"
    by (auto simp: delegations_ok_def word_less_nat_alt)
  have capacity: "cspace_capacity K bits = Ok ?cap" using s by (simp add: cspace_capacity_eq)
  have "(2 :: nat) ^ unat bits \<le> 2 ^ 8"
    using small by (intro power_increasing) (simp_all add: word_le_nat_alt)
  then have "?cap \<le> 256" by (simp add: word_le_nat_alt unat_shl_1 [OF s(4)] del: push_bit_of_1)
  then have tracker: "slot_tracker_try_new ?cap = Ok ?t" by (simp add: try_new_eq del: push_bit_of_1)
  obtain word where word: "try_into_word (dc_destination c) = Ok word"
    by (simp add: try_into_word_def)
  have "kv_caps (view (kstate (mach ?w))) (dc_source c) = None"
    using st' absent root by (simp add: stands_def fresh_def hold_def)
  then obtain e m where mint: "cnode_mint K (AbsBits root word bits) (AbsCPtr (init_cnode K) (dc_source c))
      (dc_rights c) (dc_badge c) (mach ?w) = (Err e, m)"
    and m: "view (kstate m) = view (kstate (mach ?w))" "room (kstate m) = room (kstate (mach ?w))"
    using refuses unfolding needs_source_def by blast
  let ?v = "?w\<lparr>mach := m\<rparr>"
  have "cspace_install K ?cs c ?w = (Err CSpaceCreationFailed, ?v)"
    using word mint by (simp add: cspace_install_def pbind_def pres_def pmap_err_def syscall_def)
  then have "cspace_create K bits (c # caps) None s = (Err CSpaceCreationFailed, (b, ?v))"
    using alloc ok by (simp add: cspace_create_def Let_def pbind_def pres_def cspace_validate_eq
        capacity tracker on_world_def fresh_cell_def pmodify_def del: push_bit_of_1)
  moreover have "stands K bi B view room cp n k (fresh (CNodeBp bits) root V) (b, ?v)"
    using st' m by (simp add: stands_def)
  ultimately show ?thesis using root by blast
qed

text \<open>A task to which an absent capability is delegated is refused, and leaves nothing behind.\<close>

lemma absent_task:
  fixes K :: "'k sel4"
  assumes kernel: "obliging K bi B view room" and inj: "inj (slot_cptr K)"
    and B: "CNodeBp (tk_cspace_size_bits config) \<in> B"
    and refuses: "needs_source K view room" and clears: "clears K view room"
    and layout: "layout_validate (GRANULE_BYTES K) (sc_address (tk_code config)) (sc_entry (tk_code config))
      (tk_private_memory_address config) (tk_stack_address config) (tk_ipc_buffer_address config)
      (tk_reserved_pages config) = Ok l"
    and st: "stands K bi B view room (bootstrap_checkpoint b) (Suc n) (Suc k) V (b, w)"
    and ok: "delegations_ok K (tk_cspace_size_bits config) (c # caps)" and small: "tk_cspace_size_bits config \<le> 8"
    and caps: "tk_delegated_capabilities config = c # caps" "tk_fault_route config = None"
    and absent: "kv_caps V (dc_source c) = None" "dc_source c \<noteq> slot_cptr K (bootstrap_checkpoint b)"
  shows "\<exists>u V'. create_task K config (b, w) = (Err CSpaceCreationFailed, (b, u)) \<and>
    stands K bi B view room (bootstrap_checkpoint b) (Suc n) k V' (b, u) \<and>
    kv_caps V' = kv_caps V \<and> kv_asids V' = kv_asids V \<and> kv_user_top V' = kv_user_top V"
proof -
  let ?root = "slot_cptr K (bootstrap_checkpoint b)" and ?bits = "tk_cspace_size_bits config"
  let ?W = "fresh (CNodeBp ?bits) ?root V"
  from absent_cspace [OF kernel inj B refuses st ok small absent(1)] absent(2) obtain d v where
    create: "cspace_create K ?bits (c # caps) None (b, w) = (Err CSpaceCreationFailed, (d, v))"
    and st': "stands K bi B view room (bootstrap_checkpoint b) n k ?W (d, v)" by auto
  then have inner: "create_task_inner K config l (bootstrap_checkpoint b) (b, w) = (Err CSpaceCreationFailed, (d, v))"
    by (simp add: create_task_inner_def pbind_def caps)
  have "kernel_ok K (None :: ('k \<Rightarrow> usize set) option)" by (simp add: kernel_ok_def)
  from keepsD [OF keeps_create_task_inner [OF this] inner] have led: "boot_ledger None (b, w) (d, v)" .
  from st have first: "fs_first (bt_slots b) \<le> fs_start (bt_slots b)" and view: "view (kstate (mach w)) = V"
    by (auto simp: stands_def)
  from rollback_runs [OF clears led first] obtain u where
    roll: "bootstrap_rollback K (bootstrap_checkpoint b) (d, v) = (Ok (), (b, u))"
    and u: "view (kstate (mach u)) = dropped (slot_cptr K ` {fs_start (bt_slots b) ..< fs_start (bt_slots d)}) (view (kstate (mach v)))"
      "\<forall>r. room (kstate (mach v)) r \<le> room (kstate (mach u)) r" by blast
  let ?N = "slot_cptr K ` {fs_start (bt_slots b) ..< fs_start (bt_slots d)}"
  let ?V' = "dropped ?N ?W"
  have run: "create_task K config (b, w) = (Err CSpaceCreationFailed, (b, u))"
    using layout inner roll by (simp add: create_task_run)
  have v: "view (kstate (mach v)) = ?W" using st' by (simp add: stands_def)
  have empty: "kv_caps V (slot_cptr K i) = None" if "i \<in> {fs_start (bt_slots b) ..< fs_end (bt_slots b)}" for i
    using st that by (simp add: stands_def)
  from st' led have d: "fs_start (bt_slots b) \<le> fs_start (bt_slots d)" "fs_start (bt_slots d) \<le> fs_end (bt_slots b)"
    "fs_end (bt_slots d) = fs_end (bt_slots b)"
    by (auto simp: stands_def boot_ledger_def ledger_def word_le_nat_alt)
  have within: "fs_start (bt_slots b) < fs_end (bt_slots b)"
    using st by (simp add: stands_def word_less_nat_alt)
  have "fs_start (bt_slots d) \<noteq> fs_start (bt_slots b)"
  proof
    assume "fs_start (bt_slots d) = fs_start (bt_slots b)"
    with st' within d(3) have "kv_caps ?W ?root = None"
      by (simp add: stands_def bootstrap_checkpoint_def free_slots_checkpoint_def)
    then show False by (simp add: fresh_def hold_def)
  qed
  with d(1) have root: "?root \<in> ?N" by (auto simp: bootstrap_checkpoint_def free_slots_checkpoint_def)
  have same: "kv_caps ?V' = kv_caps V"
  proof
    fix x
    show "kv_caps ?V' x = kv_caps V x"
    proof (cases "x \<in> ?N")
      case True
      then obtain i where i: "x = slot_cptr K i" "fs_start (bt_slots b) \<le> i" "i < fs_start (bt_slots d)" by auto
      with d(2) have "i < fs_end (bt_slots b)" by simp
      with i empty True show ?thesis by (simp add: dropped_simps)
    next
      case False
      with root have "x \<noteq> ?root" by auto
      with False show ?thesis by (simp add: dropped_simps fresh_def hold_def)
    qed
  qed
  from st' obtain j r where mem: "(j, r) \<in> set (untyped_candidates bi)" "\<forall>bp \<in> B. suitable K bp r"
    "k \<le> room (kstate (mach v)) (bi_untyped_cap bi j)" by (auto simp: stands_def)
  moreover have "k \<le> room (kstate (mach u)) (bi_untyped_cap bi j)" using mem(3) u(2) order_trans by blast
  ultimately have "\<exists>(j, r) \<in> set (untyped_candidates bi). (\<forall>bp \<in> B. suitable K bp r) \<and>
      k \<le> room (kstate (mach u)) (bi_untyped_cap bi j)" by blast
  with st same u(1) v have "stands K bi B view room (bootstrap_checkpoint b) (Suc n) k ?V' (b, u)"
    by (simp add: stands_def)
  with run same show ?thesis by (intro exI [of _ u] exI [of _ ?V']) (simp add: dropped_simps fresh_def hold_def)
qed

section \<open>Every failure is undone\<close>

text \<open>The kernel deletes whatever a slot of the root CNode holds.\<close>

definition deletes :: "'k sel4 \<Rightarrow> bool" where
  "deletes K \<longleftrightarrow> (\<forall>i m. \<exists>n. cnode_delete K (AbsCPtr (init_cnode K) (slot_cptr K i)) m = (Ok (), n))"

lemma deletes_clears:
  assumes "deletes K"
  shows "clears K (\<lambda>_. V\<lparr>kv_caps := Map.empty\<rparr>) (\<lambda>_ _. 0)"
proof -
  have "dropped N (V\<lparr>kv_caps := Map.empty\<rparr>) = V\<lparr>kv_caps := Map.empty\<rparr>" for N
    by (cases V) (auto simp: dropped_def)
  with assms show ?thesis by (simp add: clears_def deletes_def)
qed

lemma undone:
  assumes laws: "root_slot_laws K occ" and deletes: "deletes K"
    and inv: "fs_first (bt_slots b) \<le> fs_start (bt_slots b)"
      "occupied_slots occ w \<inter> {fs_start (bt_slots b) ..< fs_end (bt_slots b)} = {}"
    and inner: "keeps (boot_ledger (Some occ)) m" "m (b, w) = (Err e, (c, v))"
  shows "\<exists>u. bootstrap_rollback K (bootstrap_checkpoint b) (c, v) = (Ok (), (b, u)) \<and>
    occupied_slots occ u = occupied_slots occ w"
proof -
  from keepsD [OF inner] have led: "boot_ledger (Some occ) (b, w) (c, v)" .
  from rollback_runs [OF deletes_clears [OF deletes] ledger_forget [OF led] inv(1)] obtain u where
    roll: "bootstrap_rollback K (bootstrap_checkpoint b) (c, v) = (Ok (), (b, u))" by blast
  from undone_on_failure [OF laws inv led roll] roll show ?thesis by blast
qed

section \<open>Properties\<close>

text \<open>
  C8. Every failure is undone: if the kernel deletes what the root slots hold, then whichever step
  of a task construction or of a recovery mapping fails, the rollback succeeds, the allocator is
  as it was and exactly the same root slots are occupied as before; so the only failure that
  leaves anything behind is a deletion the kernel refuses.
\<close>

theorem failures_are_undone:
  assumes "root_slot_laws K occ" and "deletes K"
    and "fs_first (bt_slots b) \<le> fs_start (bt_slots b)"
    and "occupied_slots occ w \<inter> {fs_start (bt_slots b) ..< fs_end (bt_slots b)} = {}"
    and "create_task K config (b, w) = (Err e, (c, v)) \<or> task_map_recovery_frame K t f a (b, w) = (Err e, (c, v))"
  shows "c = b \<and> occupied_slots occ v = occupied_slots occ w"
proof -
  have ok: "kernel_ok K (Some occ)" using assms(1) by (simp add: kernel_ok_def)
  note undone = undone [OF assms(1-4)]
  have "c = b \<and> occupied_slots occ v = occupied_slots occ w" if run: "create_task K config (b, w) = (Err e, (c, v))"
  proof (cases "layout_validate (GRANULE_BYTES K) (sc_address (tk_code config)) (sc_entry (tk_code config))
      (tk_private_memory_address config) (tk_stack_address config) (tk_ipc_buffer_address config)
      (tk_reserved_pages config)")
    case (Ok l)
    obtain x d u where inner: "create_task_inner K config l (bootstrap_checkpoint b) (b, w) = (x, (d, u))"
      by (metis prod.exhaust)
    with run Ok obtain g where "x = Err g" by (cases x) (simp_all add: create_task_run)
    with undone [OF keeps_create_task_inner [OF ok]] inner run Ok show ?thesis by (fastforce simp: create_task_run)
  qed (use run in \<open>simp_all add: create_task_run\<close>)
  moreover have "c = b \<and> occupied_slots occ v = occupied_slots occ w"
    if run: "task_map_recovery_frame K t f a (b, w) = (Err e, (c, v))"
  proof -
    obtain x d u where map: "vspace_map_frame K (tsk_vspace t) f a RightsReadWrite (b, w) = (x, (d, u))"
      by (metis prod.exhaust)
    show ?thesis
    proof (cases x)
      case (Ok m)
      with map_recovery_of_mapping [OF map [unfolded Ok] assms(3)] run show ?thesis by simp
    next
      case (Err g)
      with undone [OF keeps_map_frame [OF ok]] map run show ?thesis
        by (fastforce simp: task_map_recovery_frame_def Let_def pbind_def pfail_def)
    qed (use run map in \<open>simp add: task_map_recovery_frame_def\<close>)
  qed
  ultimately show ?thesis using assms(5) by blast
qed

theorem failures_are_undone_witness:
  "\<exists>v. create_task ref_sel4 ref_config (ref_boot 100 130, ref_world [] (\<lambda>_. [])) =
     (Err CSpaceCreationFailed, (ref_boot 100 130, v)) \<and> occupied_slots ref_occ v = {}"
proof -
  let ?b = "ref_boot 100 130" and ?w = "ref_world [] (\<lambda>_. [])"
  have inv: "fs_first (bt_slots ?b) \<le> fs_start (bt_slots ?b)"
    "occupied_slots ref_occ ?w \<inter> {fs_start (bt_slots ?b) ..< fs_end (bt_slots ?b)} = {}"
    and none: "occupied_slots ref_occ ?w = {}"
    by (simp_all add: ref_boot_def ref_occ_def ref_world_def)
  have deletes: "deletes ref_sel4" by (simp add: deletes_def ref_sel4_def)
  have ok: "delegations_ok ref_sel4 3 ([delegated_new 7 5 RightsAll 0] @ route_list None)"
    by (simp add: delegations_ok_def delegated_new_def)
  obtain c u where alloc: "bootstrap_allocate_variable_object ref_sel4 CNodeBp 3 (?b, ?w) = (Ok 100, (c, u))"
    and occ: "rk_occ (kstate (mach u)) = [100]"
    by (simp add: bootstrap_allocate_variable_object_def on_slots_def object_allocate_variable_def
        object_allocate_blueprint_def pbind_def pres_def try_allocate_cases untyped_candidates_def ref_boot_def ref_bootinfo_def
        retype_candidates.simps(2) ref_sel4_def ref_world_def syscall_def Let_def root_task_cnode_def)
  have "cspace_validate ref_sel4 3 [delegated_new 7 5 RightsAll 0] None = Ok ()" using ok by (simp add: cspace_validate_eq)
  with alloc occ have "\<exists>s. cspace_create ref_sel4 3 [delegated_new 7 5 RightsAll 0] None (?b, ?w) = (Err CSpaceCreationFailed, s)"
    by (simp add: cspace_create_def pbind_def pres_def on_world_def cspace_capacity_eq try_new_eq
        fresh_cell_def pmodify_def Let_def cspace_install_def delegated_new_def try_into_word_def pmap_err_def syscall_def)
  then obtain d x where "\<And>l. create_task_inner ref_sel4 ref_config l (bootstrap_checkpoint ?b) (?b, ?w) = (Err CSpaceCreationFailed, (d, x))"
    by (auto simp: create_task_inner_def pbind_def ref_config_def)
  moreover have "kernel_ok ref_sel4 (Some ref_occ)" by (simp add: kernel_ok_def ref_root_slot_laws)
  from undone [OF ref_root_slot_laws deletes inv keeps_create_task_inner [OF this] calculation]
  have "\<exists>z. bootstrap_rollback ref_sel4 (bootstrap_checkpoint ?b) (d, x) = (Ok (), (?b, z))" by blast
  ultimately obtain c v where run: "create_task ref_sel4 ref_config (?b, ?w) = (Err CSpaceCreationFailed, (c, v))"
    using ref_layout by (auto simp: create_task_run ref_config_def)
  with failures_are_undone [OF ref_root_slot_laws deletes inv disjI1 [OF run]] none show ?thesis by simp
qed

end
