(* ===== verification/Memory_View.thy ===== *)
theory Memory_View
  imports Progress Triples
begin

text \<open>
  Which memory an address space reaches. A memory view reads off a kernel state the page behind
  each frame capability of the root task and, for each address space, the pages mapped in it with
  their rights. The laws are the documented effects of the invocations on the view; on top of them,
  what one allocation, one mapping and one deletion change.
\<close>

section \<open>Views of memory\<close>

text \<open>
  \<open>mv_in\<close> is the address space in which a frame or a translation table is mapped through a
  capability, the only one its deletion can take mappings from.
\<close>

record mem_view =
  mv_frame :: "cptr \<Rightarrow> nat option"
  mv_in :: "cptr \<Rightarrow> cptr option"
  mv_maps :: "cptr \<Rightarrow> usize \<Rightarrow> (nat \<times> cap_rights) option"

definition pages_in_use :: "mem_view \<Rightarrow> nat set" where
  "pages_in_use V = {p. \<exists>c. mv_frame V c = Some p} \<union> {p. \<exists>vs a r. mv_maps V vs a = Some (p, r)}"

definition same_at :: "mem_view \<Rightarrow> mem_view \<Rightarrow> cptr \<Rightarrow> bool" where
  "same_at V V' x \<longleftrightarrow> mv_frame V' x = mv_frame V x \<and> mv_in V' x = mv_in V x \<and> mv_maps V' x = mv_maps V x"

lemma same_at_refl [simp]: "same_at V V x"
  by (simp add: same_at_def)

lemma same_at_trans: "same_at V V' x \<Longrightarrow> same_at V' W x \<Longrightarrow> same_at V W x"
  by (simp add: same_at_def)

section \<open>Effects of the invocations\<close>

text \<open>
  A retype makes a new object in an empty slot; the page of a new frame is one that no capability
  designates and no address space maps.
\<close>

definition created :: "blueprint \<Rightarrow> cptr \<Rightarrow> mem_view \<Rightarrow> mem_view \<Rightarrow> bool" where
  "created bp c V V' \<longleftrightarrow> (\<forall>x. x \<noteq> c \<longrightarrow> same_at V V' x) \<and> mv_in V' c = None \<and> mv_maps V' c = Map.empty \<and>
     (if bp = GranuleBp then \<exists>p. p \<notin> pages_in_use V \<and> mv_frame V' c = Some p else mv_frame V' c = None)"

definition derived :: "cptr \<Rightarrow> cptr \<Rightarrow> mem_view \<Rightarrow> mem_view \<Rightarrow> bool" where
  "derived c source V V' \<longleftrightarrow> (\<forall>x. x \<noteq> c \<longrightarrow> same_at V V' x) \<and>
     (\<forall>p. mv_frame V source = Some p \<longrightarrow> mv_frame V' c = Some p \<and> mv_in V' c = None)"

definition mapped_page :: "cptr \<Rightarrow> cptr \<Rightarrow> usize \<Rightarrow> cap_rights \<Rightarrow> mem_view \<Rightarrow> mem_view \<Rightarrow> bool" where
  "mapped_page c vs a r V V' \<longleftrightarrow> (\<forall>p. mv_frame V c = Some p \<longrightarrow>
     V' = V\<lparr>mv_in := (mv_in V)(c := Some vs), mv_maps := (mv_maps V)(vs := (mv_maps V vs)(a := Some (p, r)))\<rparr>)"

definition table_placed :: "cptr \<Rightarrow> cptr \<Rightarrow> mem_view \<Rightarrow> mem_view \<Rightarrow> bool" where
  "table_placed c vs V V' \<longleftrightarrow> V' = V\<lparr>mv_in := (mv_in V)(c := Some vs)\<rparr>"

definition withdrawn :: "cptr \<Rightarrow> mem_view \<Rightarrow> mem_view \<Rightarrow> bool" where
  "withdrawn c V V' \<longleftrightarrow> (\<forall>x. x \<noteq> c \<longrightarrow> mv_frame V' x = mv_frame V x \<and> mv_in V' x = mv_in V x) \<and> mv_in V' c = None \<and>
     (\<forall>vs. vs \<noteq> c \<longrightarrow> mv_in V c \<noteq> Some vs \<longrightarrow> mv_maps V' vs = mv_maps V vs) \<and>
     (\<forall>vs. mv_maps V' vs \<subseteq>\<^sub>m mv_maps V vs)"

definition deleted :: "cptr \<Rightarrow> mem_view \<Rightarrow> mem_view \<Rightarrow> bool" where
  "deleted c V V' \<longleftrightarrow> withdrawn c V V' \<and> mv_frame V' c = None \<and> mv_maps V' c = Map.empty"

definition unmapped :: "cptr \<Rightarrow> mem_view \<Rightarrow> mem_view \<Rightarrow> bool" where
  "unmapped c V V' \<longleftrightarrow> withdrawn c V V' \<and> mv_frame V' c = mv_frame V c"

section \<open>The laws\<close>

definition affects :: "('k \<Rightarrow> mem_view) \<Rightarrow> (mem_view \<Rightarrow> mem_view \<Rightarrow> bool) \<Rightarrow> ('k, unit) kcall \<Rightarrow> bool" where
  "affects mv eff f \<longleftrightarrow> (\<forall>m. case f m of
      (Ok _, n) \<Rightarrow> eff (mv (kstate m)) (mv (kstate n))
    | (_, n) \<Rightarrow> mv (kstate n) = mv (kstate m))"

definition mem_laws :: "'k sel4 \<Rightarrow> ('k \<Rightarrow> mem_view) \<Rightarrow> bool" where
  "mem_laws K mv \<longleftrightarrow>
     (\<forall>ut bp i. affects mv (created bp (slot_cptr K i)) (untyped_retype K ut bp (AbsSelf (init_cnode K)) i 1)) \<and>
     (\<forall>i src r. affects mv (derived (slot_cptr K i) src)
        (cnode_copy K (AbsCPtr (init_cnode K) (slot_cptr K i)) (AbsCPtr (init_cnode K) src) r)) \<and>
     (\<forall>i. affects mv (deleted (slot_cptr K i)) (cnode_delete K (AbsCPtr (init_cnode K) (slot_cptr K i)))) \<and>
     (\<forall>root bits depth src r b. root \<noteq> init_cnode K \<longrightarrow>
        affects mv (=) (cnode_mint K (AbsBits root bits depth) src r b)) \<and>
     (\<forall>p v. affects mv (=) (asid_pool_assign K p v)) \<and>
     (\<forall>c ty v a at. affects mv (table_placed c v) (table_map K c ty v a at)) \<and>
     (\<forall>c v a r at. affects mv (mapped_page c v a r) (frame_map K c v a r at)) \<and>
     (\<forall>c. affects mv (unmapped c) (frame_unmap K c)) \<and>
     (\<forall>t e r d v a b. affects mv (=) (tcb_configure K t e r d v a b)) \<and>
     (\<forall>t b u. affects mv (=) (tcb_write_all_registers K t b u))"

lemma mem_lawsD:
  assumes "mem_laws K mv"
  shows mem_retype: "affects mv (created bp (slot_cptr K i)) (untyped_retype K ut bp (AbsSelf (init_cnode K)) i 1)"
    and mem_copy: "affects mv (derived (slot_cptr K i) src)
      (cnode_copy K (AbsCPtr (init_cnode K) (slot_cptr K i)) (AbsCPtr (init_cnode K) src) r)"
    and mem_delete: "affects mv (deleted (slot_cptr K i)) (cnode_delete K (AbsCPtr (init_cnode K) (slot_cptr K i)))"
    and mem_mint: "root \<noteq> init_cnode K \<Longrightarrow> affects mv (=) (cnode_mint K (AbsBits root bits depth) source r badge)"
    and mem_asid: "affects mv (=) (asid_pool_assign K pool v)"
    and mem_table: "affects mv (table_placed c v) (table_map K c ty v a at)"
    and mem_frame: "affects mv (mapped_page c v a r) (frame_map K c v a r at)"
    and mem_unmap: "affects mv (unmapped c) (frame_unmap K c)"
    and mem_configure: "affects mv (=) (tcb_configure K t e root d v a buf)"
    and mem_registers: "affects mv (=) (tcb_write_all_registers K t resume u)"
  using assms unfolding mem_laws_def by simp_all

abbreviation memory :: "('k \<Rightarrow> mem_view) \<Rightarrow> 'k world \<Rightarrow> mem_view" where
  "memory mv w \<equiv> mv (kstate (mach w))"

lemma affects_syscall:
  "affects mv eff f \<Longrightarrow> syscall f w = (r, v) \<Longrightarrow>
     (case r of Ok _ \<Rightarrow> eff (memory mv w) (memory mv v) | _ \<Rightarrow> memory mv v = memory mv w)"
  by (cases "f (mach w)") (auto simp: affects_def syscall_def dest!: spec [of _ "mach w"] split: res.splits)

section \<open>One allocation\<close>

abbreviation commit_slot :: "bootstrap \<Rightarrow> bootstrap" where
  "commit_slot b \<equiv> b\<lparr>bt_slots := set_start (fs_start (bt_slots b) + 1) (bt_slots b)\<rparr>"

abbreviation next_cap :: "'k sel4 \<Rightarrow> bootstrap \<Rightarrow> cptr" where
  "next_cap K b \<equiv> slot_cptr K (fs_start (bt_slots b))"

text \<open>
  The outcome of an operation that fills the next slot: its capability with the effect \<open>eff\<close>, or
  no change.
\<close>

definition one_object :: "'k sel4 \<Rightarrow> ('k \<Rightarrow> mem_view) \<Rightarrow> (cptr \<Rightarrow> mem_view \<Rightarrow> mem_view \<Rightarrow> bool) \<Rightarrow>
    ('k boot_state, cptr, bootstrap_error) prog \<Rightarrow> bool" where
  "one_object K mv eff m \<longleftrightarrow> (\<forall>b w. case m (b, w) of
      (Ok cap, t) \<Rightarrow> fs_start (bt_slots b) < fs_end (bt_slots b) \<and> cap = next_cap K b \<and> fst t = commit_slot b \<and>
        eff cap (memory mv w) (memory mv (snd t))
    | (_, t) \<Rightarrow> fst t = b \<and> memory mv (snd t) = memory mv w)"

lemma one_objectD:
  assumes "one_object K mv eff m" and "m (b, w) = (r, (c, v))"
  shows "case r of Ok cap \<Rightarrow> fs_start (bt_slots b) < fs_end (bt_slots b) \<and> cap = next_cap K b \<and>
      c = commit_slot b \<and> eff cap (memory mv w) (memory mv v)
    | _ \<Rightarrow> c = b \<and> memory mv v = memory mv w"
  using spec [OF spec [OF assms(1) [unfolded one_object_def], of b], of w] assms(2) by (cases r) simp_all

lemma one_object_try_allocate:
  assumes "\<And>bi i w r v. create bi i w = (r, v) \<Longrightarrow> (case r of
      Ok a \<Rightarrow> a = slot_cptr K i \<and> eff a (memory mv w) (memory mv v) | _ \<Rightarrow> memory mv v = memory mv w)"
  shows "one_object K mv eff (\<lambda>(b, w). on_slots (pbind (free_slots_try_allocate (create (bt_bootinfo b)))
    (\<lambda>x. pres (ok_or NoFreeSlots x))) (b, w))"
  unfolding one_object_def
proof (intro allI)
  fix b :: bootstrap and w
  obtain r v where run: "create (bt_bootinfo b) (fs_start (bt_slots b)) w = (r, v)" by fastforce
  from assms [OF run] run
  show "case (\<lambda>(b, w). on_slots (pbind (free_slots_try_allocate (create (bt_bootinfo b)))
        (\<lambda>x. pres (ok_or NoFreeSlots x))) (b, w)) (b, w) of
      (Ok cap, t) \<Rightarrow> fs_start (bt_slots b) < fs_end (bt_slots b) \<and> cap = next_cap K b \<and> fst t = commit_slot b \<and>
        eff cap (memory mv w) (memory mv (snd t))
    | (_, t) \<Rightarrow> fst t = b \<and> memory mv (snd t) = memory mv w"
    by (cases r) (simp_all add: on_slots_def pbind_def pres_def try_allocate_cases)
qed

lemma retype_memory:
  assumes laws: "mem_laws K mv"
  shows "retype_candidates K bi bp slot ds w = (r, v) \<Longrightarrow> (case r of
      Ok a \<Rightarrow> a = slot_cptr K slot \<and> created bp a (memory mv w) (memory mv v)
    | _ \<Rightarrow> memory mv v = memory mv w)"
proof (induction ds arbitrary: w)
  case (Cons x ds)
  obtain i d where x: "x = (i, d)" by fastforce
  obtain y u where att: "retype_into K bi bp slot i w = (y, u)" by fastforce
  from affects_syscall [OF mem_retype [OF laws] att] Cons.IH [of u] Cons.IH [of w] Cons.prems att x
  show ?case
    by (cases y) (auto simp: retype_candidates_Cons split: if_splits sel4_error.splits res.splits)
qed auto

lemma one_object_allocate:
  assumes "mem_laws K mv"
  shows "one_object K mv (created bp) (bootstrap_allocate_blueprint K bp)"
  using one_object_try_allocate [of "\<lambda>bi index. retype_candidates K bi bp index (untyped_candidates bi)" K "created bp" mv]
    retype_memory [OF assms]
  by (simp add: bootstrap_allocate_blueprint_def object_allocate_blueprint_def)

lemma one_object_copy:
  assumes "mem_laws K mv"
  shows "one_object K mv (\<lambda>c. derived c source) (bootstrap_copy_cap K source rights)"
proof -
  let ?copy = "\<lambda>index. pbind (pmap_err (\<lambda>_. CSpaceCreationFailed)
      (syscall (cnode_copy K (AbsCPtr (init_cnode K) (slot_cptr K index))
        (AbsCPtr (init_cnode K) source) rights))) (\<lambda>_. pret (slot_cptr K index))"
  have "case r of Ok a \<Rightarrow> a = slot_cptr K i \<and> derived a source (memory mv w) (memory mv v)
      | _ \<Rightarrow> memory mv v = memory mv w" if run: "?copy i w = (r, v)" for i w r v
  proof -
    obtain x u where sys: "syscall (cnode_copy K (AbsCPtr (init_cnode K) (slot_cptr K i))
        (AbsCPtr (init_cnode K) source) rights) w = (x, u)" by fastforce
    from affects_syscall [OF mem_copy [OF assms] sys] sys run show ?thesis
      by (cases x) (auto simp: prog_simps)
  qed
  then have "one_object K mv (\<lambda>c. derived c source) (\<lambda>(b, w). on_slots (pbind (free_slots_try_allocate ?copy)
      (\<lambda>x. pres (ok_or NoFreeSlots x))) (b, w))"
    by (intro one_object_try_allocate [where create = "\<lambda>_. ?copy"])
  then show ?thesis by (simp add: bootstrap_copy_cap_def copy_to_root_def case_prod_eta)
qed

lemma call_memory:
  assumes "affects mv eff f" and "on_world (pmap_err g (syscall f)) (b, w) = (r, (c, v))"
  shows "c = b \<and> (case r of Ok _ \<Rightarrow> eff (memory mv w) (memory mv v) | _ \<Rightarrow> memory mv v = memory mv w)"
proof -
  obtain x u where sys: "syscall f w = (x, u)" by fastforce
  from affects_syscall [OF assms(1) sys] sys assms(2) show ?thesis
    by (cases x) (auto simp: on_world_def pmap_err_def)
qed

end
