(* ===== verification/Memory_Growth.thy ===== *)
theory Memory_Growth
  imports Memory_View
begin

text \<open>
  What a construction does to the memory view: everything outside the slots it passed stays as it
  was, and whatever it mapped, it mapped in an address space of its own. The triples follow the
  construction of a task step by step, with the content of the new address space on success.
\<close>

section \<open>Growth\<close>

text \<open>
  The slots still to be allocated designate neither memory nor the root task's own CNode and
  address space.
\<close>

definition bare :: "'k sel4 \<Rightarrow> ('k \<Rightarrow> mem_view) \<Rightarrow> 'k boot_state \<Rightarrow> bool" where
  "bare K mv = (\<lambda>(b, w). \<forall>i \<in> {fs_start (bt_slots b) ..< fs_end (bt_slots b)}.
     slot_cptr K i \<noteq> init_cnode K \<and> slot_cptr K i \<noteq> init_vspace K \<and>
     mv_frame (memory mv w) (slot_cptr K i) = None \<and> mv_maps (memory mv w) (slot_cptr K i) = Map.empty)"

definition new_caps :: "'k sel4 \<Rightarrow> bootstrap \<Rightarrow> bootstrap \<Rightarrow> cptr set" where
  "new_caps K b c = slot_cptr K ` {fs_start (bt_slots b) ..< fs_start (bt_slots c)}"

definition grown :: "'k sel4 \<Rightarrow> ('k \<Rightarrow> mem_view) \<Rightarrow> 'k boot_state \<Rightarrow> 'k boot_state \<Rightarrow> bool" where
  "grown K mv = (\<lambda>(b, w) (c, v). boot_ledger None (b, w) (c, v) \<and>
     (\<forall>x. x \<notin> new_caps K b c \<longrightarrow> same_at (memory mv w) (memory mv v) x) \<and>
     (\<forall>x \<in> new_caps K b c. \<forall>vs. mv_in (memory mv v) x = Some vs \<longrightarrow> vs \<in> new_caps K b c))"

lemma grown_refl: "grown K mv s s"
  by (cases s) (auto simp: grown_def boot_ledger.R_refl new_caps_def)

lemma grown_slots:
  assumes "grown K mv (b, w) (c, v)"
  shows "fs_start (bt_slots b) \<le> fs_start (bt_slots c)" "fs_end (bt_slots c) = fs_end (bt_slots b)"
    "fs_first (bt_slots c) = fs_first (bt_slots b)" "bt_bootinfo c = bt_bootinfo b"
    "fs_start (bt_slots c) = fs_start (bt_slots b) \<or> fs_start (bt_slots c) \<le> fs_end (bt_slots b)"
    "boot_ledger None (b, w) (c, v)"
  using assms by (simp_all add: grown_def boot_ledger_def ledger_def)

lemma grown_same: "grown K mv (b, w) (c, v) \<Longrightarrow> x \<notin> new_caps K b c \<Longrightarrow> same_at (memory mv w) (memory mv v) x"
  by (simp add: grown_def)

lemma grown_in: "grown K mv (b, w) (c, v) \<Longrightarrow> x \<in> new_caps K b c \<Longrightarrow> mv_in (memory mv v) x = Some vs \<Longrightarrow> vs \<in> new_caps K b c"
  by (simp add: grown_def)

lemma new_caps_unallocated:
  assumes "inj (slot_cptr K)" and "fs_start (bt_slots c) \<le> i"
  shows "slot_cptr K i \<notin> new_caps K b c"
  using assms by (auto simp: new_caps_def inj_eq)

lemma new_caps_mono:
  "fs_start (bt_slots c) \<le> fs_start (bt_slots d) \<Longrightarrow> new_caps K b c \<subseteq> new_caps K b d"
  by (auto simp: new_caps_def)

lemma bare_grown:
  assumes "inj (slot_cptr K)" and "bare K mv (b, w)" and "grown K mv (b, w) (c, v)"
  shows "bare K mv (c, v)"
  unfolding bare_def prod.case
proof
  fix i
  assume i: "i \<in> {fs_start (bt_slots c) ..< fs_end (bt_slots c)}"
  note slots = grown_slots [OF assms(3)]
  have "slot_cptr K i \<notin> new_caps K b c" using i by (intro new_caps_unallocated [OF assms(1)]) simp
  from grown_same [OF assms(3) this] have "same_at (memory mv w) (memory mv v) (slot_cptr K i)" .
  moreover have "i \<in> {fs_start (bt_slots b) ..< fs_end (bt_slots b)}" using i slots by auto
  ultimately show "slot_cptr K i \<noteq> init_cnode K \<and> slot_cptr K i \<noteq> init_vspace K \<and>
      mv_frame (memory mv v) (slot_cptr K i) = None \<and> mv_maps (memory mv v) (slot_cptr K i) = Map.empty"
    using assms(2) by (simp add: bare_def same_at_def)
qed

lemma new_caps_bare:
  assumes "bare K mv (b, w)" and "grown K mv (b, w) (c, v)" and "x \<in> new_caps K b c"
  shows "x \<noteq> init_cnode K" "mv_frame (memory mv w) x = None" "mv_maps (memory mv w) x = Map.empty"
    "x \<noteq> init_vspace K"
proof -
  from assms(3) obtain i where i: "x = slot_cptr K i" "fs_start (bt_slots b) \<le> i" "i < fs_start (bt_slots c)"
    by (auto simp: new_caps_def)
  with grown_slots(5) [OF assms(2)] have "i \<in> {fs_start (bt_slots b) ..< fs_end (bt_slots b)}" by auto
  with assms(1) i show "x \<noteq> init_cnode K" "mv_frame (memory mv w) x = None" "mv_maps (memory mv w) x = Map.empty"
    "x \<noteq> init_vspace K"
    by (simp_all add: bare_def)
qed

text \<open>A frame or mapping of before is still there, so a page in use stays in use.\<close>

lemma grown_frame:
  assumes "bare K mv (b, w)" and "grown K mv (b, w) (c, v)" and "mv_frame (memory mv w) x = Some p"
  shows "mv_frame (memory mv v) x = Some p" "x \<notin> new_caps K b c"
proof -
  show new: "x \<notin> new_caps K b c" using new_caps_bare(2) [OF assms(1,2)] assms(3) by auto
  from grown_same [OF assms(2) this] assms(3) show "mv_frame (memory mv v) x = Some p" by (simp add: same_at_def)
qed

lemma grown_pages:
  assumes "bare K mv (b, w)" and "grown K mv (b, w) (c, v)"
  shows "pages_in_use (memory mv w) \<subseteq> pages_in_use (memory mv v)"
proof -
  have "mv_maps (memory mv v) vs a = Some x" if "mv_maps (memory mv w) vs a = Some x" for vs a x
  proof -
    have "vs \<notin> new_caps K b c" using new_caps_bare(3) [OF assms] that by auto
    from grown_same [OF assms(2) this] that show ?thesis by (simp add: same_at_def)
  qed
  with grown_frame(1) [OF assms] show ?thesis unfolding pages_in_use_def by blast
qed

section \<open>Single steps\<close>

lemma grown_commit:
  assumes gr: "grown K mv (b, w) (c, v)" and below: "fs_start (bt_slots c) < fs_end (bt_slots c)"
    and same: "\<And>x. x \<noteq> next_cap K c \<Longrightarrow> same_at (memory mv v) (memory mv u) x"
    and into: "\<And>vs. mv_in (memory mv u) (next_cap K c) = Some vs \<Longrightarrow> vs \<in> new_caps K b (commit_slot c)"
  shows "grown K mv (b, w) (commit_slot c, u)" "next_cap K c \<in> new_caps K b (commit_slot c)"
proof -
  let ?i = "fs_start (bt_slots c)"
  from checked_succ_below [OF below] have succ: "unat (?i + 1) = Suc (unat ?i)" by simp
  note slots = grown_slots [OF gr]
  have "{fs_start (bt_slots b) ..< ?i + 1} = insert ?i {fs_start (bt_slots b) ..< ?i}"
    using succ slots(1) by (auto simp: word_le_nat_alt word_less_nat_alt word_unat_eq_iff)
  then have N: "new_caps K b (commit_slot c) = insert (next_cap K c) (new_caps K b c)"
    by (simp add: new_caps_def)
  then show "next_cap K c \<in> new_caps K b (commit_slot c)" by simp
  have "boot_ledger None (c, v) (commit_slot c, u)"
    using succ below by (simp add: boot_ledger_def ledger_def word_le_nat_alt word_less_nat_alt)
  from boot_ledger.R_trans [OF slots(6) this] have "boot_ledger None (b, w) (commit_slot c, u)" .
  moreover have "same_at (memory mv w) (memory mv u) x" if "x \<notin> new_caps K b (commit_slot c)" for x
    using that N same grown_same [OF gr, of x] by (auto intro: same_at_trans)
  moreover have "vs \<in> new_caps K b (commit_slot c)"
    if x: "x \<in> new_caps K b (commit_slot c)" and vs: "mv_in (memory mv u) x = Some vs" for x vs
  proof (cases "x = next_cap K c")
    case True
    with into vs show ?thesis by simp
  next
    case False
    with x N have "x \<in> new_caps K b c" by simp
    moreover have "mv_in (memory mv v) x = Some vs" using same [OF False] vs by (simp add: same_at_def)
    ultimately show ?thesis using grown_in [OF gr] N by simp
  qed
  ultimately show "grown K mv (b, w) (commit_slot c, u)" by (simp add: grown_def)
qed

lemma grown_quiet:
  "grown K mv (b, w) (c, v) \<Longrightarrow> memory mv u = memory mv v \<Longrightarrow> grown K mv (b, w) (c, u)"
  by (simp add: grown_def boot_ledger_def ledger_def)

text \<open>Mapping a new capability into a new address space.\<close>

lemma grown_within:
  assumes gr: "grown K mv (b, w) (c, v)" and new: "x \<in> new_caps K b c" "vs \<in> new_caps K b c"
    and same: "\<And>y. y \<noteq> x \<Longrightarrow> y \<noteq> vs \<Longrightarrow> same_at (memory mv v) (memory mv u) y"
    and into: "mv_in (memory mv u) = (mv_in (memory mv v))(x := Some vs)"
  shows "grown K mv (b, w) (c, u)"
  unfolding grown_def prod.case
proof (intro conjI allI ballI impI)
  show "boot_ledger None (b, w) (c, u)" using grown_slots(6) [OF gr] by (simp add: boot_ledger_def ledger_def)
  show "same_at (memory mv w) (memory mv u) y" if "y \<notin> new_caps K b c" for y
    using that new same_at_trans [OF grown_same [OF gr that] same] by blast
  show "y' \<in> new_caps K b c" if "y \<in> new_caps K b c" "mv_in (memory mv u) y = Some y'" for y y'
    using that new grown_in [OF gr] into by (auto split: if_splits)
qed

section \<open>The steps of a construction\<close>

text \<open>
  The construction that started at \<open>s\<close> has passed the slots up to now, its address space \<open>vs\<close>
  contains exactly \<open>M\<close>, and the capabilities of \<open>H\<close> designate their pages.
\<close>

definition reaches :: "'k sel4 \<Rightarrow> ('k \<Rightarrow> mem_view) \<Rightarrow> 'k boot_state \<Rightarrow> cptr \<Rightarrow> (usize \<Rightarrow> (nat \<times> cap_rights) option) \<Rightarrow>
    (cptr \<times> nat) list \<Rightarrow> 'k boot_state \<Rightarrow> bool" where
  "reaches K mv s vs M H = (\<lambda>(c, v). grown K mv s (c, v) \<and> vs \<in> new_caps K (fst s) c \<and>
     mv_maps (memory mv v) vs = M \<and> (\<forall>(x, p) \<in> set H. mv_frame (memory mv v) x = Some p))"

lemma reaches_grown: "reaches K mv s vs M H t \<Longrightarrow> grown K mv s t"
  by (cases t) (simp add: reaches_def)

lemma allocate_grows:
  assumes laws: "mem_laws K mv"
  shows "triple (grown K mv s) (bootstrap_allocate_blueprint K bp)
    (\<lambda>x (c, v). grown K mv s (c, v) \<and> x \<in> new_caps K (fst s) c) (grown K mv s)"
proof (rule tripleI)
  fix t r u
  assume gr: "grown K mv s t" and run: "bootstrap_allocate_blueprint K bp t = (r, u)"
  obtain b w c v d z where s: "s = (b, w)" and t: "t = (c, v)" and u: "u = (d, z)" by (metis prod.exhaust)
  note effect = one_objectD [OF one_object_allocate [OF laws] run [unfolded t u]]
  show "case r of Ok a \<Rightarrow> case u of (c, v) \<Rightarrow> grown K mv s (c, v) \<and> a \<in> new_caps K (fst s) c | _ \<Rightarrow> grown K mv s u"
  proof (cases r)
    case (Ok x)
    have eff: "fs_start (bt_slots c) < fs_end (bt_slots c)" "x = next_cap K c" "d = commit_slot c"
      "created bp x (memory mv v) (memory mv z)"
      using effect unfolding Ok res.case by blast+
    from grown_commit [OF gr [unfolded s t] eff(1), of z] eff(2,4) show ?thesis
      unfolding Ok u s eff(3) by (simp add: created_def)
  qed (use effect gr grown_quiet s t u in auto)
qed

text \<open>Assertions that depend on the memory view of the world only are kept by what does not change it.\<close>

definition mem_only :: "('k \<Rightarrow> mem_view) \<Rightarrow> ('k boot_state \<Rightarrow> bool) \<Rightarrow> bool" where
  "mem_only mv P \<longleftrightarrow> (\<forall>c v u. P (c, v) \<longrightarrow> memory mv u = memory mv v \<longrightarrow> P (c, u))"

lemma mem_only_grown: "mem_only mv (grown K mv s)"
  using grown_quiet by (cases s) (fastforce simp: mem_only_def)

lemma mem_only_reaches: "mem_only mv (reaches K mv s vs M H)"
  using mem_only_grown [of mv K s] by (auto simp: mem_only_def reaches_def)

lemma mem_only_new: "mem_only mv (\<lambda>(c, v). grown K mv s (c, v) \<and> x \<in> new_caps K (fst s) c)"
  using mem_only_grown [of mv K s] by (auto simp: mem_only_def)

lemma triple_on_world:
  assumes "mem_only mv P" and "\<And>w r v. m w = (r, v) \<Longrightarrow> memory mv v = memory mv w"
  shows "triple P (on_world m) (\<lambda>_. P) P"
proof (rule tripleI)
  fix s r t
  assume P: "P s" and run: "on_world m s = (r, t)"
  obtain b w v where st: "s = (b, w)" "t = (b, v)" and m: "m w = (r, v)"
    using run by (cases s) (auto simp: on_world_def split: prod.splits)
  from assms(1) P assms(2) [OF m] st show "case r of Ok a \<Rightarrow> P t | _ \<Rightarrow> P t"
    by (auto simp: mem_only_def split: res.splits)
qed

lemma quiet_memory:
  "affects mv (=) f \<Longrightarrow> syscall f w = (r, v) \<Longrightarrow> memory mv v = memory mv w"
  by (drule (1) affects_syscall) (simp split: res.splits)

lemma triple_quiet_call:
  assumes "mem_only mv P" and "affects mv (=) f"
  shows "triple P (on_world (pmap_err g (syscall f))) (\<lambda>_. P) P"
  by (rule triple_on_world [OF assms(1)])
    (auto simp: pmap_err_def dest: quiet_memory [OF assms(2)] split: prod.splits)

lemma triple_keep_pres: "triple P (pres r) (\<lambda>_. P) P"
  by (rule tripleI) (auto simp: pres_def split: res.splits)

lemma triple_pure: "(\<And>s. P s \<Longrightarrow> \<phi>) \<Longrightarrow> (\<phi> \<Longrightarrow> triple P m Q E) \<Longrightarrow> triple P m Q E"
  by (auto simp: triple_def)

text \<open>Filling the next slot keeps what was reached.\<close>

lemma commit_reaches:
  assumes inj: "inj (slot_cptr K)" and bare: "bare K mv s" and at: "reaches K mv s vs M H (c, v)"
    and below: "fs_start (bt_slots c) < fs_end (bt_slots c)"
    and same: "\<And>x. x \<noteq> next_cap K c \<Longrightarrow> same_at (memory mv v) (memory mv z) x"
    and unmapped: "mv_in (memory mv z) (next_cap K c) = None"
  shows "reaches K mv s vs M H (commit_slot c, z)" "next_cap K c \<in> new_caps K (fst s) (commit_slot c)"
    "next_cap K c \<noteq> vs"
proof -
  obtain b w where s: "s = (b, w)" by fastforce
  from at s have gr: "grown K mv (b, w) (c, v)" and vs: "vs \<in> new_caps K b c" "mv_maps (memory mv v) vs = M"
    and H: "\<And>x p. (x, p) \<in> set H \<Longrightarrow> mv_frame (memory mv v) x = Some p" by (auto simp: reaches_def)
  from grown_commit [OF gr below same] unmapped
  have gr': "grown K mv (b, w) (commit_slot c, z)" "next_cap K c \<in> new_caps K b (commit_slot c)" by auto
  then show "next_cap K c \<in> new_caps K (fst s) (commit_slot c)" by (simp add: s)
  have "next_cap K c \<notin> new_caps K b c" by (rule new_caps_unallocated [OF inj order_refl])
  then show ne: "next_cap K c \<noteq> vs" using vs(1) by auto
  have "vs \<in> new_caps K b (commit_slot c)"
    using vs(1) new_caps_mono [of c "commit_slot c" K b] checked_succ_below [OF below] by (auto simp: word_le_nat_alt)
  moreover have "mv_frame (memory mv z) x = Some p" if "(x, p) \<in> set H" for x p
  proof -
    have "mv_frame (memory mv v) (next_cap K c) = None"
      using bare_grown [OF inj bare [unfolded s] gr] below by (simp add: bare_def)
    then have "x \<noteq> next_cap K c" using H [OF that] by auto
    then show ?thesis using H [OF that] same by (simp add: same_at_def)
  qed
  ultimately show "reaches K mv s vs M H (commit_slot c, z)"
    using gr'(1) vs(2) same [of vs] ne s by (auto simp: reaches_def same_at_def)
qed

lemma reaches_quiet: "reaches K mv s vs M H (c, v) \<Longrightarrow> memory mv u = memory mv v \<Longrightarrow> grown K mv s (c, u)"
  using mem_only_grown [of mv K s] by (auto simp: mem_only_def reaches_def)

lemma allocate_reaches:
  assumes laws: "mem_laws K mv" and inj: "inj (slot_cptr K)" and bare: "bare K mv s"
  shows "triple (reaches K mv s vs M H) (bootstrap_allocate_blueprint K bp)
    (\<lambda>x (c, v). reaches K mv s vs M H (c, v) \<and> x \<in> new_caps K (fst s) c \<and> (bp = GranuleBp \<longrightarrow>
      (\<exists>p. mv_frame (memory mv v) x = Some p \<and> p \<notin> pages_in_use (memory mv (snd s)) \<and> p \<notin> snd ` set H)))
    (grown K mv s)"
proof (rule tripleI)
  fix t r u
  assume at: "reaches K mv s vs M H t" and run: "bootstrap_allocate_blueprint K bp t = (r, u)"
  obtain b w c v d z where s: "s = (b, w)" and t: "t = (c, v)" and u: "u = (d, z)" by (metis prod.exhaust)
  note effect = one_objectD [OF one_object_allocate [OF laws] run [unfolded t u]]
  show "case r of Ok x \<Rightarrow> case u of (c, v) \<Rightarrow> reaches K mv s vs M H (c, v) \<and> x \<in> new_caps K (fst s) c \<and>
      (bp = GranuleBp \<longrightarrow> (\<exists>p. mv_frame (memory mv v) x = Some p \<and> p \<notin> pages_in_use (memory mv (snd s)) \<and>
        p \<notin> snd ` set H)) | _ \<Rightarrow> grown K mv s u"
  proof (cases r)
    case (Ok x)
    have eff: "fs_start (bt_slots c) < fs_end (bt_slots c)" "x = next_cap K c" "d = commit_slot c"
      "created bp x (memory mv v) (memory mv z)"
      using effect unfolding Ok res.case by blast+
    have "reaches K mv s vs M H u" "x \<in> new_caps K (fst s) d"
      using commit_reaches [OF inj bare at [unfolded t] eff(1), of z] eff(2,4) unfolding u eff(3)
      by (simp_all add: created_def)
    moreover have "\<exists>p. mv_frame (memory mv z) x = Some p \<and> p \<notin> pages_in_use (memory mv w) \<and> p \<notin> snd ` set H"
      if "bp = GranuleBp"
    proof -
      from eff(4) that obtain p where p: "p \<notin> pages_in_use (memory mv v)" "mv_frame (memory mv z) x = Some p"
        by (auto simp: created_def)
      moreover have "snd ` set H \<subseteq> pages_in_use (memory mv v)"
        using at t by (fastforce simp: pages_in_use_def reaches_def)
      moreover have "pages_in_use (memory mv w) \<subseteq> pages_in_use (memory mv v)"
        using grown_pages bare reaches_grown [OF at] s t by blast
      ultimately show ?thesis by blast
    qed
    ultimately show ?thesis using Ok s u by simp
  qed (use effect at reaches_quiet [of K mv s] t u in auto)
qed

lemma copy_reaches:
  assumes laws: "mem_laws K mv" and inj: "inj (slot_cptr K)" and bare: "bare K mv s" and x: "(x, p) \<in> set H"
  shows "triple (reaches K mv s vs M H) (bootstrap_copy_cap K x rights)
    (\<lambda>m (c, v). reaches K mv s vs M ((m, p) # H) (c, v) \<and> m \<in> new_caps K (fst s) c \<and> m \<noteq> vs) (grown K mv s)"
proof (rule tripleI)
  fix t r u
  assume at: "reaches K mv s vs M H t" and run: "bootstrap_copy_cap K x rights t = (r, u)"
  obtain c v d z where t: "t = (c, v)" and u: "u = (d, z)" by (metis prod.exhaust)
  note effect = one_objectD [OF one_object_copy [OF laws] run [unfolded t u]]
  show "case r of Ok m \<Rightarrow> case u of (c, v) \<Rightarrow> reaches K mv s vs M ((m, p) # H) (c, v) \<and>
      m \<in> new_caps K (fst s) c \<and> m \<noteq> vs | _ \<Rightarrow> grown K mv s u"
  proof (cases r)
    case (Ok m)
    have eff: "fs_start (bt_slots c) < fs_end (bt_slots c)" "m = next_cap K c" "d = commit_slot c"
      "derived m x (memory mv v) (memory mv z)"
      using effect unfolding Ok res.case by blast+
    have "mv_frame (memory mv v) x = Some p" using at t x by (auto simp: reaches_def)
    with eff(4) have m: "mv_frame (memory mv z) m = Some p" "mv_in (memory mv z) m = None"
      by (simp_all add: derived_def)
    have "reaches K mv s vs M H u" "m \<in> new_caps K (fst s) d" "m \<noteq> vs"
      using commit_reaches [OF inj bare at [unfolded t] eff(1), of z] eff(2,4) m(2) unfolding u eff(3)
      by (simp_all add: derived_def)
    with m(1) show ?thesis unfolding Ok u by (simp add: reaches_def)
  qed (use effect at reaches_quiet [of K mv s] t u in auto)
qed

text \<open>A frame whose page is \<open>p\<close> is mapped at \<open>a\<close>, and nothing else changes in the address space.\<close>

lemma map_frame_reaches:
  assumes laws: "mem_laws K mv" and inj: "inj (slot_cptr K)" and bare: "bare K mv s"
    and x: "(frame_cap f, p) \<in> set H"
  shows "triple (reaches K mv s (vs_root vs) M H) (vspace_map_frame K vs f a rights)
    (\<lambda>_. reaches K mv s (vs_root vs) (M(a \<mapsto> (p, rights))) H) (grown K mv s)"
  unfolding vspace_map_frame_def
proof (intro triple_if)
  show "triple (reaches K mv s (vs_root vs) M H) (pfail e) Q (grown K mv s)" for e :: bootstrap_error and Q :: "cptr \<Rightarrow> _"
    by (rule triple_conseq [OF triple_pfail]) (simp_all add: reaches_grown)
  have map: "triple (\<lambda>(c, v). reaches K mv s (vs_root vs) M ((m, p) # H) (c, v) \<and> m \<in> new_caps K (fst s) c \<and> m \<noteq> vs_root vs)
      (on_world (pmap_err (\<lambda>_. FrameMappingFailed) (syscall (frame_map K m (vs_root vs) a rights DefaultVmAttributes))))
      (\<lambda>_. reaches K mv s (vs_root vs) (M(a \<mapsto> (p, rights))) H) (grown K mv s)" for m
  proof (rule tripleI)
    fix t r u
    assume at: "case t of (c, v) \<Rightarrow> reaches K mv s (vs_root vs) M ((m, p) # H) (c, v) \<and> m \<in> new_caps K (fst s) c \<and> m \<noteq> vs_root vs"
      and run: "on_world (pmap_err (\<lambda>_. FrameMappingFailed)
        (syscall (frame_map K m (vs_root vs) a rights DefaultVmAttributes))) t = (r, u)"
    obtain b w c v d z where s: "s = (b, w)" and t: "t = (c, v)" and u: "u = (d, z)" by (metis prod.exhaust)
    from call_memory [OF mem_frame [OF laws] run [unfolded t u]] have d: "d = c" and
      eff: "case r of Ok _ \<Rightarrow> mapped_page m (vs_root vs) a rights (memory mv v) (memory mv z)
        | _ \<Rightarrow> memory mv z = memory mv v" by auto
    from at t s have here: "reaches K mv (b, w) (vs_root vs) M ((m, p) # H) (c, v)" "m \<in> new_caps K b c"
      "m \<noteq> vs_root vs" by simp_all
    then have gr: "grown K mv (b, w) (c, v)" and vs: "vs_root vs \<in> new_caps K b c"
      "mv_maps (memory mv v) (vs_root vs) = M" "mv_frame (memory mv v) m = Some p"
      "\<And>x q. (x, q) \<in> set H \<Longrightarrow> mv_frame (memory mv v) x = Some q"
      by (auto simp: reaches_def)
    show "case r of Ok _ \<Rightarrow> reaches K mv s (vs_root vs) (M(a \<mapsto> (p, rights))) H u | _ \<Rightarrow> grown K mv s u"
    proof (cases r)
      case (Ok y)
      with eff vs(3) have z: "memory mv z = (memory mv v)\<lparr>mv_in := (mv_in (memory mv v))(m := Some (vs_root vs)),
          mv_maps := (mv_maps (memory mv v))(vs_root vs := (mv_maps (memory mv v) (vs_root vs))(a := Some (p, rights)))\<rparr>"
        by (simp add: mapped_page_def)
      have "grown K mv (b, w) (c, z)"
        by (rule grown_within [OF gr here(2) vs(1)]) (simp_all add: z same_at_def)
      with vs here z d Ok s u show ?thesis by (auto simp: reaches_def)
    qed (use eff gr grown_quiet d s t u in auto)
  qed
  show "triple (reaches K mv s (vs_root vs) M H)
      (pbind (bootstrap_copy_cap K (frame_cap f) rights) (\<lambda>mapping.
        pbind (on_world (pmap_err (\<lambda>_. FrameMappingFailed)
          (syscall (frame_map K mapping (vs_root vs) a rights DefaultVmAttributes)))) (\<lambda>_. pret mapping)))
      (\<lambda>_. reaches K mv s (vs_root vs) (M(a \<mapsto> (p, rights))) H) (grown K mv s)"
    by (rule triple_pbind [OF copy_reaches [OF laws inj bare x]], rule triple_pbind [OF map])
      (rule triple_return)
qed

section \<open>CSpaces, address spaces and threads\<close>

lemma triple_bind_keep: "triple P m (\<lambda>_. P) E \<Longrightarrow> (\<And>a. triple P (f a) Q E) \<Longrightarrow> triple P (pbind m f) Q E"
  by (rule triple_pbind)

lemma triple_weaken_err: "triple P m Q P \<Longrightarrow> (\<And>t. P t \<Longrightarrow> E t) \<Longrightarrow> triple P m Q E"
  by (rule triple_conseq)

lemma mint_grows:
  assumes laws: "mem_laws K mv" and P: "mem_only mv P" and root: "cs_root cs \<noteq> init_cnode K"
  shows "triple P (on_world (cspace_install K cs c)) (\<lambda>_. P) P"
proof (rule triple_on_world [OF P])
  fix w r v
  assume run: "cspace_install K cs c w = (r, v)"
  let ?mint = "syscall (cnode_mint K (AbsBits (cs_root cs) (dc_destination c) (cs_size_bits cs))
    (AbsCPtr (init_cnode K) (dc_source c)) (dc_rights c) (dc_badge c))"
  obtain x u where mint: "?mint w = (x, u)" by fastforce
  from quiet_memory [OF mem_mint [OF laws root] mint] mint run show "memory mv v = memory mv w"
    by (cases x) (auto simp: cspace_install_def try_into_word_def pbind_def pres_def pmap_err_def split: prod.splits)
qed

lemma cspace_grows:
  assumes laws: "mem_laws K mv" and bare: "bare K mv s"
  shows "triple (grown K mv s) (cspace_create K bits caps route) (\<lambda>_. grown K mv s) (grown K mv s)"
proof -
  let ?P = "\<lambda>root (c, v). grown K mv s (c, v) \<and> root \<in> new_caps K (fst s) c"
  have weak: "?P root t \<Longrightarrow> grown K mv s t" for root t by (cases t) simp
  have cell: "triple (?P root) (on_world fresh_cell :: ('a boot_state, nat, bootstrap_error) prog) (\<lambda>_. ?P root) (grown K mv s)"
    "triple (?P root) (on_world (pmodify (set_tracker cell slots)) :: ('a boot_state, unit, bootstrap_error) prog)
      (\<lambda>_. ?P root) (grown K mv s)" for root cell slots
    by (rule triple_weaken_err [OF triple_on_world [OF mem_only_new] weak], auto simp: fresh_cell_def pmodify_def)+
  have install: "triple (?P root) (on_world (cspace_install K \<lparr>cs_root = root, cs_size_bits = n, cs_slots = cell\<rparr> c))
      (\<lambda>_. ?P root) (grown K mv s)" for root n cell c
  proof (rule triple_pure)
    show "root \<noteq> init_cnode K" if "?P root t" for t
      using that new_caps_bare(1) [of K mv "fst s" "snd s" "fst t" "snd t" root] bare by (cases t) auto
    show "triple (?P root) (on_world (cspace_install K \<lparr>cs_root = root, cs_size_bits = n, cs_slots = cell\<rparr> c))
      (\<lambda>_. ?P root) (grown K mv s)" if "root \<noteq> init_cnode K"
      by (rule triple_weaken_err [OF mint_grows [OF laws mem_only_new] weak]) (simp_all add: that)
  qed
  have route: "triple (?P root) (case route of
         Some route \<Rightarrow> on_world (cspace_install K \<lparr>cs_root = root, cs_size_bits = n, cs_slots = cell\<rparr> (fault_route_delegation route))
       | None \<Rightarrow> pret ()) (\<lambda>_. ?P root) (grown K mv s)" for root n cell
    by (cases route) (simp_all add: install triple_return)
  have keep: "triple (?P root) (pres r) (\<lambda>_. ?P root) (grown K mv s)" for root and r :: "('x, bootstrap_error) res"
    by (rule triple_weaken_err [OF triple_keep_pres weak])
  have return: "triple (?P root) (pret x) (\<lambda>_. grown K mv s) (grown K mv s)" for root and x :: cspace
    by (rule tripleI) (auto simp: pret_def)
  show ?thesis
    unfolding cspace_create_def Let_def allocate_is_blueprint on_world_pfor
    by (rule triple_bind_keep [OF triple_keep_pres], rule triple_pbind [OF allocate_grows [OF laws]],
        (rule triple_bind_keep [OF keep] triple_bind_keep [OF cell(1)] triple_bind_keep [OF cell(2)]
          triple_bind_keep [OF triple_pfor [OF install]] triple_bind_keep [OF route] return)+)
qed

lemma vspace_root_reaches:
  assumes laws: "mem_laws K mv" and inj: "inj (slot_cptr K)" and bare: "bare K mv s"
    and H: "\<forall>(x, p) \<in> set H. mv_frame (memory mv (snd s)) x = Some p"
  shows "triple (grown K mv s) (bootstrap_allocate_blueprint K VSpaceBp)
    (\<lambda>root. reaches K mv s root Map.empty H) (grown K mv s)"
proof (rule tripleI)
  fix t r u
  assume gr: "grown K mv s t" and run: "bootstrap_allocate_blueprint K VSpaceBp t = (r, u)"
  obtain b w c v d z where s: "s = (b, w)" and t: "t = (c, v)" and u: "u = (d, z)" by (metis prod.exhaust)
  note effect = one_objectD [OF one_object_allocate [OF laws] run [unfolded t u]]
  show "case r of Ok root \<Rightarrow> reaches K mv s root Map.empty H u | _ \<Rightarrow> grown K mv s u"
  proof (cases r)
    case (Ok x)
    have eff: "fs_start (bt_slots c) < fs_end (bt_slots c)" "x = next_cap K c" "d = commit_slot c"
      "created VSpaceBp x (memory mv v) (memory mv z)"
      using effect unfolding Ok res.case by blast+
    from grown_commit [OF gr [unfolded s t] eff(1), of z] eff(2,4)
    have gr': "grown K mv (b, w) (d, z)" "x \<in> new_caps K b d" unfolding eff(3) by (simp_all add: created_def)
    have "mv_frame (memory mv z) y = Some p" if "(y, p) \<in> set H" for y p
      using grown_frame(1) [OF bare [unfolded s] gr'(1)] H that s by auto
    with gr' eff(4) Ok s u show ?thesis by (auto simp: reaches_def created_def)
  qed (use effect gr s t u grown_quiet in auto)
qed

lemma table_reaches:
  assumes laws: "mem_laws K mv" and inj: "inj (slot_cptr K)" and bare: "bare K mv s"
  shows "triple (reaches K mv s (vs_root vs) M H) (create_table K vs x)
    (\<lambda>_. reaches K mv s (vs_root vs) M H) (grown K mv s)"
proof -
  obtain ty a where x: "x = (ty, a)" by fastforce
  let ?P = "\<lambda>table (c, v). reaches K mv s (vs_root vs) M H (c, v) \<and> table \<in> new_caps K (fst s) c"
  have map: "triple (?P table) (on_world (pmap_err (\<lambda>_. VSpaceCreationFailed)
      (syscall (table_map K table ty (vs_root vs) a DefaultVmAttributes))))
      (\<lambda>_. reaches K mv s (vs_root vs) M H) (grown K mv s)" for table
  proof (rule tripleI)
    fix t r u
    assume at: "?P table t" and run: "on_world (pmap_err (\<lambda>_. VSpaceCreationFailed)
      (syscall (table_map K table ty (vs_root vs) a DefaultVmAttributes))) t = (r, u)"
    obtain b w c v d z where s: "s = (b, w)" and t: "t = (c, v)" and u: "u = (d, z)" by (metis prod.exhaust)
    from call_memory [OF mem_table [OF laws] run [unfolded t u]] have d: "d = c" and
      eff: "case r of Ok _ \<Rightarrow> table_placed table (vs_root vs) (memory mv v) (memory mv z)
        | _ \<Rightarrow> memory mv z = memory mv v" by auto
    from at t s have here: "reaches K mv (b, w) (vs_root vs) M H (c, v)" "table \<in> new_caps K b c" by simp_all
    then have gr: "grown K mv (b, w) (c, v)" and vs: "vs_root vs \<in> new_caps K b c" by (auto simp: reaches_def)
    show "case r of Ok _ \<Rightarrow> reaches K mv s (vs_root vs) M H u | _ \<Rightarrow> grown K mv s u"
    proof (cases r)
      case (Ok y)
      with eff have z: "memory mv z = (memory mv v)\<lparr>mv_in := (mv_in (memory mv v))(table := Some (vs_root vs))\<rparr>"
        by (simp add: table_placed_def)
      have "grown K mv (b, w) (c, z)"
        by (rule grown_within [OF gr here(2) vs]) (simp_all add: z same_at_def)
      with here z d Ok s u show ?thesis by (auto simp: reaches_def)
    qed (use eff gr grown_quiet d s t u in auto)
  qed
  have alloc: "triple (reaches K mv s (vs_root vs) M H) (bootstrap_allocate_blueprint K (TableBp ty)) ?P (grown K mv s)"
    by (rule triple_conseq [OF allocate_reaches [OF laws inj bare]]) auto
  show ?thesis unfolding create_table_def x prod.case by (rule triple_pbind [OF alloc map])
qed

lemma vspace_reaches:
  assumes laws: "mem_laws K mv" and inj: "inj (slot_cptr K)" and bare: "bare K mv s" and levels: "levels_ok K"
    and H: "\<forall>(x, p) \<in> set H. mv_frame (memory mv (snd s)) x = Some p"
  shows "triple (grown K mv s) (vspace_create K pages reserved)
    (\<lambda>vs. reaches K mv s (vs_root vs) Map.empty H) (grown K mv s)"
proof -
  have asid: "triple (reaches K mv s root Map.empty H) (on_world (pmap_err (\<lambda>_. VSpaceCreationFailed)
      (syscall (asid_pool_assign K (init_asid_pool K) root)))) (\<lambda>_. reaches K mv s root Map.empty H) (grown K mv s)" for root
    by (rule triple_weaken_err [OF triple_quiet_call [OF mem_only_reaches mem_asid [OF laws]] reaches_grown])
  have tables: "triple (reaches K mv s root Map.empty H)
      (pfor (table_plan K (pages @ reserved)) (create_table K \<lparr>vs_root = root\<rparr>)) (\<lambda>_. reaches K mv s root Map.empty H)
      (grown K mv s)" for root
    using table_reaches [OF laws inj bare, of "\<lparr>vs_root = root\<rparr>"] by (intro triple_pfor) simp
  show ?thesis
    unfolding vspace_create_def Let_def allocate_is_blueprint map_translation_tables_plan [OF levels]
    by (rule triple_pbind [OF vspace_root_reaches [OF laws inj bare H]], rule triple_bind_keep [OF asid],
        rule triple_bind_keep [OF tables])
      (rule triple_conseq [OF triple_pret [where Q = "\<lambda>vs. reaches K mv s (vs_root vs) Map.empty H"]], simp_all)
qed

lemma thread_reaches:
  assumes laws: "mem_laws K mv" and inj: "inj (slot_cptr K)" and bare: "bare K mv s"
  shows "triple (reaches K mv s vs M H) (thread_create K cs vspace config) (\<lambda>_. reaches K mv s vs M H) (grown K mv s)"
proof -
  have keep: "triple (reaches K mv s vs M H) (pres r) (\<lambda>_. reaches K mv s vs M H) (grown K mv s)"
    for r :: "('x, bootstrap_error) res"
    by (rule triple_weaken_err [OF triple_keep_pres reaches_grown])
  have call: "triple (reaches K mv s vs M H) (on_world (pmap_err g (syscall f))) (\<lambda>_. reaches K mv s vs M H) (grown K mv s)"
    if "affects mv (=) f" for f and g :: "sel4_error \<Rightarrow> bootstrap_error"
    by (rule triple_weaken_err [OF triple_quiet_call [OF mem_only_reaches that] reaches_grown])
  have alloc: "triple (reaches K mv s vs M H) (bootstrap_allocate_blueprint K TcbBp) (\<lambda>_. reaches K mv s vs M H) (grown K mv s)"
    by (rule triple_conseq [OF allocate_reaches [OF laws inj bare]]) auto
  show ?thesis
    unfolding thread_create_def allocate_is_blueprint
    by (intro triple_bind_keep keep alloc call triple_return mem_configure mem_registers laws)
qed

end
