(* ===== verification/Memory_Kernel.thy ===== *)
theory Memory_Kernel
  imports Memory_View
begin

text \<open>
  Every kernel can be watched. The kernel \<open>remembering K\<close> answers as \<open>K\<close> does and keeps, beside its
  state, a record of the frames, mappings and tables that its successful invocations make and
  delete; the record satisfies the laws of the memory view, whatever \<open>K\<close> is, and the contract of
  \<open>K\<close> carries over.
\<close>

section \<open>The record\<close>

record page_log =
  pl_frames :: "(cptr \<times> nat) list"
  pl_in :: "(cptr \<times> cptr) list"
  pl_maps :: "((cptr \<times> usize) \<times> (nat \<times> cap_rights)) list"

definition log_view :: "page_log \<Rightarrow> mem_view" where
  "log_view L = \<lparr>mv_frame = map_of (pl_frames L), mv_in = map_of (pl_in L),
     mv_maps = (\<lambda>vs a. map_of (pl_maps L) (vs, a))\<rparr>"

definition forget :: "cptr \<Rightarrow> (cptr \<times> 'a) list \<Rightarrow> (cptr \<times> 'a) list" where
  "forget c = filter (\<lambda>x. fst x \<noteq> c)"

definition keep_maps :: "(cptr \<times> usize \<Rightarrow> bool) \<Rightarrow> ((cptr \<times> usize) \<times> (nat \<times> cap_rights)) list \<Rightarrow>
    ((cptr \<times> usize) \<times> (nat \<times> cap_rights)) list" where
  "keep_maps Q = filter (\<lambda>x. Q (fst x))"

definition fresh_page :: "page_log \<Rightarrow> nat" where
  "fresh_page L = Suc (sum_list (map snd (pl_frames L) @ map (fst \<circ> snd) (pl_maps L)))"

definition log_create :: "blueprint \<Rightarrow> cptr \<Rightarrow> page_log \<Rightarrow> page_log" where
  "log_create bp c L = \<lparr>
     pl_frames = (if bp = GranuleBp then [(c, fresh_page L)] else []) @ forget c (pl_frames L),
     pl_in = forget c (pl_in L), pl_maps = keep_maps (\<lambda>k. fst k \<noteq> c) (pl_maps L)\<rparr>"

definition log_derive :: "cptr \<Rightarrow> cptr \<Rightarrow> page_log \<Rightarrow> page_log" where
  "log_derive c source L = L\<lparr>pl_in := forget c (pl_in L),
     pl_frames := (case map_of (pl_frames L) source of Some p \<Rightarrow> [(c, p)] | None \<Rightarrow> []) @ forget c (pl_frames L)\<rparr>"

definition log_map :: "cptr \<Rightarrow> cptr \<Rightarrow> usize \<Rightarrow> cap_rights \<Rightarrow> page_log \<Rightarrow> page_log" where
  "log_map c vs a r L = (case map_of (pl_frames L) c of
      Some p \<Rightarrow> L\<lparr>pl_in := (c, vs) # pl_in L, pl_maps := ((vs, a), (p, r)) # pl_maps L\<rparr>
    | None \<Rightarrow> L)"

definition log_table :: "cptr \<Rightarrow> cptr \<Rightarrow> page_log \<Rightarrow> page_log" where
  "log_table c vs L = L\<lparr>pl_in := (c, vs) # pl_in L\<rparr>"

text \<open>Withdrawing a frame takes its page out of the address space it is mapped in.\<close>

definition log_unmap :: "cptr \<Rightarrow> page_log \<Rightarrow> page_log" where
  "log_unmap c L = L\<lparr>pl_in := forget c (pl_in L),
     pl_maps := keep_maps (\<lambda>k. \<not> (map_of (pl_in L) c = Some (fst k) \<and>
       map_of (pl_frames L) c = map_option fst (map_of (pl_maps L) k))) (pl_maps L)\<rparr>"

definition log_delete :: "cptr \<Rightarrow> page_log \<Rightarrow> page_log" where
  "log_delete c L = (log_unmap c L)\<lparr>pl_frames := forget c (pl_frames L),
     pl_maps := keep_maps (\<lambda>k. fst k \<noteq> c) (pl_maps (log_unmap c L))\<rparr>"

lemma map_of_forget: "map_of (forget c xs) x = (if x = c then None else map_of xs x)"
  by (induction xs) (auto simp: forget_def)

lemma map_of_keep: "map_of (keep_maps Q xs) k = (if Q k then map_of xs k else None)"
  by (induction xs) (auto simp: keep_maps_def)

lemma fresh_page_new: "fresh_page L \<notin> pages_in_use (log_view L)"
proof
  assume "fresh_page L \<in> pages_in_use (log_view L)"
  then have "fresh_page L \<in> set (map snd (pl_frames L) @ map (fst \<circ> snd) (pl_maps L))"
    by (auto simp: pages_in_use_def log_view_def image_iff dest!: map_of_SomeD) force+
  from member_le_sum_list [OF this] show False by (simp add: fresh_page_def)
qed

lemma log_created: "created bp c (log_view L) (log_view (log_create bp c L))"
  using fresh_page_new [of L]
  by (auto simp: created_def same_at_def log_view_def log_create_def map_of_forget map_of_keep fun_eq_iff)

lemma log_derived: "derived c source (log_view L) (log_view (log_derive c source L))"
  by (auto simp: derived_def same_at_def log_view_def log_derive_def map_of_forget split: option.splits)

lemma log_mapped: "mapped_page c vs a r (log_view L) (log_view (log_map c vs a r L))"
  by (auto simp: mapped_page_def log_view_def log_map_def fun_eq_iff)

lemma log_tabled: "table_placed c vs (log_view L) (log_view (log_table c vs L))"
  by (simp add: table_placed_def log_view_def log_table_def fun_eq_iff)

lemma log_unmapped: "unmapped c (log_view L) (log_view (log_unmap c L))"
  by (auto simp: unmapped_def withdrawn_def log_view_def log_unmap_def map_of_forget map_of_keep map_le_def fun_eq_iff)

lemma log_deleted: "deleted c (log_view L) (log_view (log_delete c L))"
  by (auto simp: deleted_def withdrawn_def log_view_def log_delete_def log_unmap_def map_of_forget map_of_keep
      map_le_def fun_eq_iff)

section \<open>The kernel\<close>

definition noting :: "(page_log \<Rightarrow> page_log) \<Rightarrow> ('k, 'a) kcall \<Rightarrow> ('k \<times> page_log, 'a) kcall" where
  "noting upd f m = (case f \<lparr>kstate = fst (kstate m), ipcbuf = ipcbuf m\<rparr> of
     (r, n) \<Rightarrow> (r, \<lparr>kstate = (kstate n, case r of Ok _ \<Rightarrow> upd (snd (kstate m)) | _ \<Rightarrow> snd (kstate m)),
       ipcbuf = ipcbuf n\<rparr>))"

definition passing :: "('k machine \<Rightarrow> 'a \<times> 'k machine) \<Rightarrow> ('k \<times> page_log) machine \<Rightarrow> 'a \<times> ('k \<times> page_log) machine" where
  "passing f m = (case f \<lparr>kstate = fst (kstate m), ipcbuf = ipcbuf m\<rparr> of
     (a, n) \<Rightarrow> (a, \<lparr>kstate = (kstate n, snd (kstate m)), ipcbuf = ipcbuf n\<rparr>))"

text \<open>The capability an address in the root CNode stands for.\<close>

fun root_cap :: "abs_cptr \<Rightarrow> cptr" where
  "root_cap (AbsCPtr root c) = c"
| "root_cap (AbsSelf root) = root"
| "root_cap (AbsBits root index depth) = index"

definition remembering :: "'k sel4 \<Rightarrow> ('k \<times> page_log) sel4" where
  "remembering K = \<lparr>
     WORD_SIZE = WORD_SIZE K, NUM_MESSAGE_REGISTERS = NUM_MESSAGE_REGISTERS K,
     GRANULE_BYTES = GRANULE_BYTES K, IPC_BUFFER_SIZE = IPC_BUFFER_SIZE K,
     IPC_BUFFER_ALIGN = IPC_BUFFER_ALIGN K, NUM_LEVELS = NUM_LEVELS K, span_bits = span_bits K,
     table_from_level = table_from_level K, physical_size_bits = physical_size_bits K,
     slot_cptr = slot_cptr K, init_cnode = init_cnode K, init_vspace = init_vspace K,
     init_asid_pool = init_asid_pool K, null_cptr = null_cptr K, default_context = default_context K,
     message_info = message_info K,
     untyped_retype = (\<lambda>ut bp d i n. noting (log_create bp (slot_cptr K i)) (untyped_retype K ut bp d i n)),
     cnode_mint = (\<lambda>d s r b. noting id (cnode_mint K d s r b)),
     cnode_copy = (\<lambda>d s r. noting (log_derive (root_cap d) (root_cap s)) (cnode_copy K d s r)),
     cnode_delete = (\<lambda>d. noting (log_delete (root_cap d)) (cnode_delete K d)),
     cnode_save_caller = (\<lambda>d. noting id (cnode_save_caller K d)),
     asid_pool_assign = (\<lambda>p v. noting id (asid_pool_assign K p v)),
     table_map = (\<lambda>c ty v a at. noting (log_table c v) (table_map K c ty v a at)),
     frame_map = (\<lambda>c v a r at. noting (log_map c v a r) (frame_map K c v a r at)),
     frame_unmap = (\<lambda>c. noting (log_unmap c) (frame_unmap K c)),
     tcb_configure = (\<lambda>t e r d v a b. noting id (tcb_configure K t e r d v a b)),
     tcb_write_all_registers = (\<lambda>t b u. noting id (tcb_write_all_registers K t b u)),
     tcb_read_all_registers = (\<lambda>t b. noting id (tcb_read_all_registers K t b)),
     tcb_resume = (\<lambda>t. noting id (tcb_resume K t)), tcb_suspend = (\<lambda>t. noting id (tcb_suspend K t)),
     cap_send = (\<lambda>c info. passing (cap_send K c info)), ep_nb_send = (\<lambda>c info. passing (ep_nb_send K c info)),
     ep_call = (\<lambda>c info. passing (ep_call K c info)), ep_recv = (\<lambda>c. passing (ep_recv K c)),
     ep_nb_recv = (\<lambda>c. passing (ep_nb_recv K c)), sys_reply = (\<lambda>info. passing (sys_reply K info)),
     ntfn_signal = (\<lambda>c. passing (ntfn_signal K c)), ntfn_wait = (\<lambda>c. passing (ntfn_wait K c)),
     ntfn_poll = (\<lambda>c. passing (ntfn_poll K c))\<rparr>"

lemma affects_noting:
  "(\<And>L. eff (log_view L) (log_view (upd L))) \<Longrightarrow> affects (log_view \<circ> snd) eff (noting upd f)"
  by (simp add: affects_def noting_def split: prod.splits res.splits)

lemma remembering_mem_laws: "mem_laws (remembering K) (log_view \<circ> snd)"
  unfolding mem_laws_def
  by (simp add: remembering_def affects_noting log_created log_derived log_deleted log_mapped log_tabled log_unmapped)

lemma performs_noting:
  assumes "performs view room pre upd f"
  shows "performs (view \<circ> fst) (room \<circ> fst) pre upd (noting u f)"
  unfolding performs_def
proof (intro allI impI)
  fix m :: "('a \<times> page_log) machine"
  assume "pre ((view \<circ> fst) (kstate m))"
  with assms [unfolded performs_def, THEN spec, of "\<lparr>kstate = fst (kstate m), ipcbuf = ipcbuf m\<rparr>"]
  obtain n where "f \<lparr>kstate = fst (kstate m), ipcbuf = ipcbuf m\<rparr> = (Ok (), n)"
    "view (kstate n) = upd (view (fst (kstate m)))" "room (kstate n) = room (fst (kstate m))" by auto
  then show "\<exists>n. noting u f m = (Ok (), n) \<and> (view \<circ> fst) (kstate n) = upd ((view \<circ> fst) (kstate m)) \<and>
      (room \<circ> fst) (kstate n) = (room \<circ> fst) (kstate m)" by (simp add: noting_def)
qed

lemma retypes_noting:
  assumes "retypes view room bp ut dest f"
  shows "retypes (view \<circ> fst) (room \<circ> fst) bp ut dest (noting u f)"
  unfolding retypes_def
proof (intro allI impI)
  fix m :: "('a \<times> page_log) machine"
  let ?m = "\<lparr>kstate = fst (kstate m), ipcbuf = ipcbuf m\<rparr>"
  assume empty: "kv_caps ((view \<circ> fst) (kstate m)) dest = None"
  obtain r n where call: "f ?m = (r, n)" by fastforce
  from empty assms [unfolded retypes_def, THEN spec, of ?m] call
  show "case noting u f m of
      (Ok _, n) \<Rightarrow> (view \<circ> fst) (kstate n) = fresh bp dest ((view \<circ> fst) (kstate m)) \<and>
        (\<forall>v. (room \<circ> fst) (kstate m) v \<le> (room \<circ> fst) (kstate n) v + (if v = ut then 1 else 0))
    | (Err e, n) \<Rightarrow> e = NotEnoughMemory \<and> (room \<circ> fst) (kstate m) ut = 0 \<and>
        (view \<circ> fst) (kstate n) = (view \<circ> fst) (kstate m) \<and> (room \<circ> fst) (kstate n) = (room \<circ> fst) (kstate m)
    | (Panic, n) \<Rightarrow> False"
    by (cases r) (simp_all add: noting_def)
qed

lemma remembering_geometry:
  "region (remembering K) = region K" "covered (remembering K) = covered K"
  "can_map_table (remembering K) = can_map_table K" "mapped_table (remembering K) = mapped_table K"
  "can_map_frame (remembering K) = can_map_frame K" "can_configure (remembering K) = can_configure K"
  "suitable (remembering K) = suitable K" "levels_ok (remembering K) = levels_ok K"
  "table_plan (remembering K) = table_plan K" "delegations_ok (remembering K) = delegations_ok K"
  "task_objects (remembering K) = task_objects K" "acceptable (remembering K) = acceptable K"
  by (simp_all add: region_def covered_def can_map_table_def mapped_table_def can_map_frame_def can_configure_def
      suitable_def levels_ok_def table_plan_def delegations_ok_def task_objects_def acceptable_def remembering_def fun_eq_iff)

lemma remembering_obliging:
  assumes "obliging K bi B view room"
  shows "obliging (remembering K) bi B (view \<circ> fst) (room \<circ> fst)"
  using obligingD [OF assms]
  unfolding obliging_def remembering_geometry
  by (auto simp: remembering_def intro!: performs_noting retypes_noting)

end
