(* ===== verification/Isolation.thy ===== *)
theory Isolation
  imports Memory_Growth Memory_Kernel System
begin

text \<open>
  Memory isolation of tasks. The address space of a constructed task contains its four pages and
  nothing else, three of them on memory nobody had before; a failed construction leaves every
  address space as it was; and over any sequence of constructions and recovery mappings the tasks
  share no memory but the code and recovery frames the caller passed.
\<close>

section \<open>Undoing a construction\<close>

text \<open>
  What any construction, finished or undone, leaves outside the slots that were unallocated when it
  began.
\<close>

definition free_caps :: "'k sel4 \<Rightarrow> bootstrap \<Rightarrow> cptr set" where
  "free_caps K b = slot_cptr K ` {fs_start (bt_slots b) ..< fs_end (bt_slots b)}"

definition kept :: "'k sel4 \<Rightarrow> ('k \<Rightarrow> mem_view) \<Rightarrow> 'k boot_state \<Rightarrow> 'k boot_state \<Rightarrow> bool" where
  "kept K mv = (\<lambda>(b, w) (c, v). boot_ledger None (b, w) (c, v) \<and> bare K mv (c, v) \<and>
     (\<forall>x. x \<notin> free_caps K b \<longrightarrow> same_at (memory mv w) (memory mv v) x))"

lemma bare_free:
  assumes "bare K mv (b, w)" and "x \<in> free_caps K b"
  shows "x \<noteq> init_cnode K" "x \<noteq> init_vspace K" "mv_frame (memory mv w) x = None" "mv_maps (memory mv w) x = Map.empty"
  using assms by (auto simp: bare_def free_caps_def)

lemma bareI:
  "(\<And>x. x \<in> free_caps K b \<Longrightarrow> x \<noteq> init_cnode K \<and> x \<noteq> init_vspace K \<and> mv_frame (memory mv w) x = None \<and>
     mv_maps (memory mv w) x = Map.empty) \<Longrightarrow> bare K mv (b, w)"
  by (simp add: bare_def free_caps_def)

lemma new_caps_free: "grown K mv (b, w) (c, v) \<Longrightarrow> new_caps K b c \<subseteq> free_caps K b"
  using grown_slots(5) [of K mv b w c v] by (auto simp: new_caps_def free_caps_def)

lemma ledger_free: "boot_ledger None (b, w) (c, v) \<Longrightarrow> free_caps K c \<subseteq> free_caps K b"
  by (auto simp: boot_ledger_def ledger_def free_caps_def)

lemma kept_grown:
  assumes "inj (slot_cptr K)" and "bare K mv (b, w)" and "grown K mv (b, w) (c, v)"
  shows "kept K mv (b, w) (c, v)"
  using grown_slots(6) [OF assms(3)] bare_grown [OF assms] grown_same [OF assms(3)] new_caps_free [OF assms(3)]
  by (auto simp: kept_def)

lemma delete_slots_memory:
  assumes laws: "mem_laws K mv"
  shows "pfor xs (\<lambda>i. pmap_err (\<lambda>_. RollbackFailed)
      (syscall (cnode_delete K (AbsCPtr (init_cnode K) (slot_cptr K i))))) w = (r, v) \<Longrightarrow>
    slot_cptr K ` set xs \<subseteq> N \<Longrightarrow> \<forall>x \<in> N. \<forall>vs. mv_in (memory mv w) x = Some vs \<longrightarrow> vs \<in> N \<Longrightarrow>
    (\<forall>x. x \<notin> N \<longrightarrow> same_at (memory mv w) (memory mv v) x) \<and>
    (\<forall>x. (mv_frame (memory mv w) x = None \<longrightarrow> mv_frame (memory mv v) x = None) \<and>
      (mv_maps (memory mv w) x = Map.empty \<longrightarrow> mv_maps (memory mv v) x = Map.empty)) \<and>
    (r = Ok () \<longrightarrow> (\<forall>x \<in> slot_cptr K ` set xs. mv_frame (memory mv v) x = None \<and> mv_maps (memory mv v) x = Map.empty))"
proof (induction xs arbitrary: w)
  case Nil
  then show ?case by (auto simp: pret_def)
next
  case (Cons i xs)
  let ?c = "slot_cptr K i"
  let ?del = "syscall (cnode_delete K (AbsCPtr (init_cnode K) ?c))"
  obtain y u where del: "?del w = (y, u)" by fastforce
  note effect = affects_syscall [OF mem_delete [OF laws] del]
  show ?case
  proof (cases y)
    case (Ok a)
    with effect have gone: "withdrawn ?c (memory mv w) (memory mv u)" "mv_frame (memory mv u) ?c = None"
      "mv_maps (memory mv u) ?c = Map.empty" by (simp_all add: deleted_def)
    have c: "?c \<in> N" using Cons.prems(2) by simp
    from Cons.prems(1) del Ok have rest: "pfor xs (\<lambda>i. pmap_err (\<lambda>_. RollbackFailed)
        (syscall (cnode_delete K (AbsCPtr (init_cnode K) (slot_cptr K i))))) u = (r, v)"
      by (simp add: pmap_err_run [of ?del, OF del] pbind_def)
    have into: "\<forall>x \<in> N. \<forall>vs. mv_in (memory mv u) x = Some vs \<longrightarrow> vs \<in> N"
      using gone(1) Cons.prems(3) unfolding withdrawn_def by (metis option.distinct(1))
    have out: "same_at (memory mv w) (memory mv u) x" if "x \<notin> N" for x
    proof -
      from that c have "x \<noteq> ?c" by auto
      moreover have "mv_in (memory mv w) ?c \<noteq> Some x" using that c Cons.prems(3) by blast
      ultimately show ?thesis using gone(1) by (simp add: withdrawn_def same_at_def)
    qed
    have less: "mv_frame (memory mv u) x = None" if "mv_frame (memory mv w) x = None" for x
      using that gone by (cases "x = ?c") (simp_all add: withdrawn_def)
    have sub: "mv_maps (memory mv u) x = Map.empty" if "mv_maps (memory mv w) x = Map.empty" for x
    proof -
      have "mv_maps (memory mv u) x \<subseteq>\<^sub>m mv_maps (memory mv w) x" using gone(1) by (simp add: withdrawn_def)
      from map_le_implies_dom_le [OF this] that show ?thesis by simp
    qed
    have "slot_cptr K ` set xs \<subseteq> N" using Cons.prems(2) by auto
    from Cons.IH [OF rest this into] same_at_trans [OF out] less sub gone(2,3) show ?thesis by auto
  qed (use effect Cons.prems(1) in \<open>auto simp: pmap_err_run [of ?del, OF del] pbind_def\<close>)
qed

lemma rollback_memory:
  assumes laws: "mem_laws K mv" and inj: "inj (slot_cptr K)" and bare: "bare K mv (b, w)"
    and gr: "grown K mv (b, w) (c, v)"
    and roll: "bootstrap_rollback K (bootstrap_checkpoint b) (c, v) = (r, (d, u))"
  shows "kept K mv (b, w) (d, u)"
proof -
  let ?slots = "\<lparr>range_start = fs_start (bt_slots b), range_end = fs_start (bt_slots c)\<rparr>"
  let ?N = "new_caps K b c"
  note slots = grown_slots [OF gr]
  obtain x z where del: "delete_root_slots K ?slots v = (x, z)" by fastforce
  have N: "slot_cptr K ` set (rev (range_list ?slots)) = ?N" by (simp add: set_range_list new_caps_def)
  have "\<forall>x \<in> ?N. \<forall>vs. mv_in (memory mv v) x = Some vs \<longrightarrow> vs \<in> ?N" using grown_in [OF gr] by blast
  from delete_slots_memory [OF laws del [unfolded delete_root_slots_def] _ this, unfolded N]
  have gone: "\<And>y. y \<notin> ?N \<Longrightarrow> same_at (memory mv v) (memory mv z) y"
    "x = Ok () \<Longrightarrow> \<forall>y \<in> ?N. mv_frame (memory mv z) y = None \<and> mv_maps (memory mv z) y = Map.empty" by auto
  have unchanged: "same_at (memory mv w) (memory mv z) y" if "y \<notin> ?N" for y
    using same_at_trans [OF grown_same [OF gr that] gone(1) [OF that]] .
  have result: "(d = c \<and> (u = z \<or> u = v)) \<or> (d = b \<and> u = z \<and> x = Ok ())"
    using roll slots del rollback_cases [OF roll]
    by (auto simp: bootstrap_rollback_def bootstrap_committed_slots_def free_slots_allocated_since_def
        pbind_def on_world_def bootstrap_checkpoint_def free_slots_checkpoint_def set_start_def
        split: if_splits res.splits prod.splits)
  have led: "boot_ledger None (b, w) (d, u)"
    using result slots(6) by (auto simp: boot_ledger_def ledger_def)
  have same: "same_at (memory mv w) (memory mv u) y" if "y \<notin> ?N" for y
    using result unchanged [OF that] grown_same [OF gr that] by auto
  have "bare K mv (d, u)"
  proof (rule bareI)
    fix y
    assume y: "y \<in> free_caps K d"
    note old = bare_free [OF bare subsetD [OF ledger_free [OF led] y]]
    show "y \<noteq> init_cnode K \<and> y \<noteq> init_vspace K \<and> mv_frame (memory mv u) y = None \<and> mv_maps (memory mv u) y = Map.empty"
    proof (cases "y \<in> ?N")
      case False
      with old same show ?thesis by (simp add: same_at_def)
    next
      case True
      from y obtain i where "y = slot_cptr K i" "fs_start (bt_slots d) \<le> i" by (auto simp: free_caps_def)
      with new_caps_unallocated [OF inj, of c i b] True have "d \<noteq> c" by auto
      with True result gone(2) old show ?thesis by auto
    qed
  qed
  with led same new_caps_free [OF gr] show ?thesis by (auto simp: kept_def)
qed

section \<open>The address space of a task\<close>

text \<open>The four mappings of a task over the page of its code and three pages of its own.\<close>

definition task_space :: "task_config \<Rightarrow> nat \<Rightarrow> nat \<Rightarrow> nat \<Rightarrow> nat \<Rightarrow> usize \<Rightarrow> (nat \<times> cap_rights) option" where
  "task_space config code private stack ipc =
     [sc_address (tk_code config) \<mapsto> (code, RightsReadOnly),
      tk_private_memory_address config \<mapsto> (private, RightsReadWrite),
      tk_stack_address config \<mapsto> (stack, RightsReadWrite),
      tk_ipc_buffer_address config \<mapsto> (ipc, RightsReadWrite)]"

text \<open>What a finished construction guarantees: the space, the pages behind the task's frames, all new.\<close>

definition task_memory :: "'k sel4 \<Rightarrow> ('k \<Rightarrow> mem_view) \<Rightarrow> task_config \<Rightarrow> nat \<Rightarrow> 'k boot_state \<Rightarrow> task \<Rightarrow> 'k boot_state \<Rightarrow>
    nat \<Rightarrow> nat \<Rightarrow> nat \<Rightarrow> bool" where
  "task_memory K mv config code s t = (\<lambda>(c, v) p1 p2 p3.
     distinct [p1, p2, p3] \<and> code \<notin> {p1, p2, p3} \<and> {p1, p2, p3} \<inter> pages_in_use (memory mv (snd s)) = {} \<and>
     mv_frame (memory mv v) (frame_cap (tsk_private_memory t)) = Some p1 \<and>
     mv_frame (memory mv v) (frame_cap (tsk_stack t)) = Some p2 \<and>
     mv_frame (memory mv v) (frame_cap (tsk_ipc_buffer t)) = Some p3 \<and>
     vs_root (tsk_vspace t) \<in> new_caps K (fst s) c \<and>
     mv_maps (memory mv v) (vs_root (tsk_vspace t)) = task_space config code p1 p2 p3)"

lemma triple_ex:
  "(\<And>p. \<phi> p \<Longrightarrow> triple (P p) m Q E) \<Longrightarrow> triple (\<lambda>s. \<exists>p. \<phi> p \<and> P p s) m Q E"
  by (rule tripleI) (auto dest: tripleD)

lemma frame_reaches:
  assumes "mem_laws K mv" and "inj (slot_cptr K)" and "bare K mv s"
  shows "triple (reaches K mv s vs M H) (bootstrap_allocate_frame K)
    (\<lambda>x t. \<exists>p. (p \<notin> pages_in_use (memory mv (snd s)) \<and> p \<notin> snd ` set H) \<and> reaches K mv s vs M ((x, p) # H) t)
    (grown K mv s)"
  unfolding allocate_is_blueprint(1)
  by (rule triple_conseq [OF allocate_reaches [OF assms]]) (auto simp: reaches_def)

lemma triple_pret_pre: "(\<And>s. P s \<Longrightarrow> Q a s) \<Longrightarrow> triple P (pret a) Q E"
  by (rule tripleI) (auto simp: pret_def)

lemma task_memory_reached:
  assumes at: "reaches K mv s (vs_root (tsk_vspace t)) (task_space config code p1 p2 p3)
      [(frame_cap (tsk_ipc_buffer t), p3), (frame_cap (tsk_stack t), p2), (frame_cap (tsk_private_memory t), p1), x] u"
    and old: "code \<in> pages_in_use (memory mv (snd s))" "snd x = code"
    and p1: "p1 \<notin> pages_in_use (memory mv (snd s)) \<and> p1 \<notin> snd ` set [x]"
    and p2: "p2 \<notin> pages_in_use (memory mv (snd s)) \<and> p2 \<notin> snd ` set [(c1, p1), x]"
    and p3: "p3 \<notin> pages_in_use (memory mv (snd s)) \<and> p3 \<notin> snd ` set [(c2, p2), (c1, p1), x]"
  shows "grown K mv s u \<and> (\<exists>p1 p2 p3. task_memory K mv config code s t u p1 p2 p3)"
proof -
  obtain c v where u: "u = (c, v)" by fastforce
  from at u have "vs_root (tsk_vspace t) \<in> new_caps K (fst s) c"
    "mv_maps (memory mv v) (vs_root (tsk_vspace t)) = task_space config code p1 p2 p3"
    "mv_frame (memory mv v) (frame_cap (tsk_private_memory t)) = Some p1"
    "mv_frame (memory mv v) (frame_cap (tsk_stack t)) = Some p2"
    "mv_frame (memory mv v) (frame_cap (tsk_ipc_buffer t)) = Some p3"
    by (simp_all add: reaches_def)
  moreover have "distinct [p1, p2, p3]" "code \<notin> {p1, p2, p3}"
    "{p1, p2, p3} \<inter> pages_in_use (memory mv (snd s)) = {}" using old p1 p2 p3 by auto
  ultimately have "task_memory K mv config code s t u p1 p2 p3" unfolding task_memory_def u prod.case by blast
  with reaches_grown [OF at] show ?thesis by blast
qed

lemma create_task_inner_memory:
  assumes laws: "mem_laws K mv" and inj: "inj (slot_cptr K)" and bare: "bare K mv s" and levels: "levels_ok K"
    and code: "mv_frame (memory mv (snd s)) (frame_cap (sc_frame (tk_code config))) = Some code"
  shows "triple (grown K mv s) (create_task_inner K config layout cp)
    (\<lambda>t u. grown K mv s u \<and> (\<exists>p1 p2 p3. task_memory K mv config code s t u p1 p2 p3)) (grown K mv s)"
proof -
  let ?H = "[(frame_cap (sc_frame (tk_code config)), code)]"
  have H: "\<forall>(x, p) \<in> set ?H. mv_frame (memory mv (snd s)) x = Some p" using code by simp
  note map = map_frame_reaches [OF laws inj bare] and frame = frame_reaches [OF laws inj bare]
  have keep: "triple (reaches K mv s vs M G) (pres r) (\<lambda>_. reaches K mv s vs M G) (grown K mv s)"
    for vs M G and r :: "('x, bootstrap_error) res"
    by (rule triple_weaken_err [OF triple_keep_pres reaches_grown])
  have since: "triple (reaches K mv s vs M G) (committed_since cp) (\<lambda>_. reaches K mv s vs M G) (grown K mv s)" for vs M G
    by (rule tripleI) (auto simp: committed_since_def reaches_grown split: res.splits)
  have fresh_code: "code \<in> pages_in_use (memory mv (snd s))" using code by (auto simp: pages_in_use_def)
  show ?thesis
    unfolding create_task_inner_def Let_def
    apply (rule triple_pbind [OF cspace_grows [OF laws bare]])
    apply (rule triple_pbind [OF vspace_reaches [OF laws inj bare levels H]])
    apply (rule triple_pbind [OF map [where p = code]], simp)
    apply (rule triple_pbind [OF frame], rule triple_ex)
    subgoal for cspace vspace m1 c1 p1
      apply (rule triple_pbind [OF map [where p = p1]], simp)
      apply (rule triple_pbind [OF frame], rule triple_ex)
      subgoal for m2 c2 p2
        apply (rule triple_pbind [OF map [where p = p2]], simp)
        apply (rule triple_pbind [OF frame], rule triple_ex)
        subgoal for m3 c3 p3
          apply (rule triple_pbind [OF map [where p = p3]], simp)
          apply (rule triple_bind_keep [OF keep])
          apply (rule triple_bind_keep [OF thread_reaches [OF laws inj bare]])
          apply (rule triple_bind_keep [OF since])
          apply (rule triple_pret_pre)
          apply (rule task_memory_reached [where ?p1.0 = p1 and ?p2.0 = p2 and ?p3.0 = p3
            and ?c1.0 = c1 and ?c2.0 = c2 and x = "(frame_cap (sc_frame (tk_code config)), code)"])
          by (simp_all add: task_space_def fresh_code)
        done
      done
    done
qed

lemma create_task_memory:
  assumes laws: "mem_laws K mv" and inj: "inj (slot_cptr K)" and bare: "bare K mv (b, w)" and levels: "levels_ok K"
    and code: "mv_frame (memory mv w) (frame_cap (sc_frame (tk_code config))) = Some code"
    and run: "create_task K config (b, w) = (r, (c, v))"
  shows "(r \<noteq> Panic \<longrightarrow> kept K mv (b, w) (c, v)) \<and> (\<forall>t. r = Ok t \<longrightarrow>
    (\<exists>p1 p2 p3. task_memory K mv config code (b, w) t (c, v) p1 p2 p3) \<and> grown K mv (b, w) (c, v))"
proof (cases "layout_validate (GRANULE_BYTES K) (sc_address (tk_code config)) (sc_entry (tk_code config))
    (tk_private_memory_address config) (tk_stack_address config) (tk_ipc_buffer_address config)
    (tk_reserved_pages config)")
  case (Ok l)
  obtain x d u where inner: "create_task_inner K config l (bootstrap_checkpoint b) (b, w) = (x, (d, u))"
    by (metis prod.exhaust)
  have "mv_frame (memory mv (snd (b, w))) (frame_cap (sc_frame (tk_code config))) = Some code" using code by simp
  note memory = tripleD [OF create_task_inner_memory [OF laws inj bare levels this] grown_refl inner]
  show ?thesis
  proof (cases x)
    case ok: (Ok t)
    with run inner Ok have "r = Ok t" "d = c" "u = v" by (simp_all add: create_task_run)
    with memory ok kept_grown [OF inj bare] show ?thesis by auto
  next
    case (Err e)
    obtain y f z where roll: "bootstrap_rollback K (bootstrap_checkpoint b) (d, u) = (y, (f, z))"
      by (metis prod.exhaust)
    with run inner Ok Err
    have "r = (case y of Ok _ \<Rightarrow> Err e | Err _ \<Rightarrow> Err RollbackFailed | Panic \<Rightarrow> Panic) \<and> (c, v) = (f, z)"
      by (cases y) (simp_all add: create_task_run)
    moreover from memory Err have "grown K mv (b, w) (d, u)" by simp
    from rollback_memory [OF laws inj bare this roll] have "kept K mv (b, w) (f, z)" .
    ultimately show ?thesis by (auto split: res.splits)
  next
    case Panic
    with run inner Ok show ?thesis by (simp add: create_task_run)
  qed
next
  case (Err e)
  with run kept_grown [OF inj bare grown_refl] show ?thesis by (auto simp: create_task_run)
next
  case Panic
  with run show ?thesis by (simp add: create_task_run)
qed

section \<open>Mapping into an existing address space\<close>

lemma map_frame_memory:
  assumes laws: "mem_laws K mv" and bare: "bare K mv (b, w)"
    and f: "mv_frame (memory mv w) (frame_cap f) = Some p" and vs: "vs_root vs \<notin> free_caps K b"
    and run: "vspace_map_frame K vs f a rights (b, w) = (r, (c, v))"
  shows "case r of
      Ok m \<Rightarrow> fs_start (bt_slots b) < fs_end (bt_slots b) \<and> c = commit_slot b \<and> m = next_cap K b \<and>
        (\<forall>x. x \<noteq> m \<longrightarrow> x \<noteq> vs_root vs \<longrightarrow> same_at (memory mv w) (memory mv v) x) \<and>
        mv_frame (memory mv v) (vs_root vs) = mv_frame (memory mv w) (vs_root vs) \<and>
        mv_maps (memory mv v) (vs_root vs) = (mv_maps (memory mv w) (vs_root vs))(a \<mapsto> (p, rights))
    | _ \<Rightarrow> grown K mv (b, w) (c, v)"
proof (cases "is_multiple_of a (GRANULE_BYTES K)")
  case False
  with run grown_refl show ?thesis by (auto simp: vspace_map_frame_def pfail_def)
next
  case True
  obtain y d u where copy: "bootstrap_copy_cap K (frame_cap f) rights (b, w) = (y, (d, u))" by (metis prod.exhaust)
  note effect = one_objectD [OF one_object_copy [OF laws] copy]
  show ?thesis
  proof (cases y)
    case (Ok m)
    have eff: "fs_start (bt_slots b) < fs_end (bt_slots b)" "m = next_cap K b" "d = commit_slot b"
      "derived m (frame_cap f) (memory mv w) (memory mv u)"
      using effect unfolding Ok res.case by blast+
    then have m: "mv_frame (memory mv u) m = Some p" "mv_in (memory mv u) m = None" using f by (simp_all add: derived_def)
    have free: "m \<in> free_caps K b" using eff(1,2) by (auto simp: free_caps_def)
    with vs have ne: "vs_root vs \<noteq> m" by auto
    from grown_commit(1) [OF grown_refl [of K mv "(b, w)"] eff(1), of u] eff(2,4) m(2)
    have gr: "grown K mv (b, w) (d, u)" unfolding eff(3) by (simp add: derived_def)
    obtain z e g where call: "on_world (pmap_err (\<lambda>_. FrameMappingFailed)
        (syscall (frame_map K m (vs_root vs) a rights DefaultVmAttributes))) (d, u) = (z, (e, g))" by (metis prod.exhaust)
    from call_memory [OF mem_frame [OF laws] call] have e: "e = d" and mapped:
      "case z of Ok _ \<Rightarrow> mapped_page m (vs_root vs) a rights (memory mv u) (memory mv g) | _ \<Rightarrow> memory mv g = memory mv u"
      by auto
    have all: "c = e \<and> v = g \<and> r = map_ok (\<lambda>_. m) z"
      using run True copy call Ok by (cases z) (auto simp: vspace_map_frame_def pbind_def pret_def)
    show ?thesis
    proof (cases z)
      case z: (Ok q)
      with mapped m(1) have "memory mv g = (memory mv u)\<lparr>mv_in := (mv_in (memory mv u))(m := Some (vs_root vs)),
          mv_maps := (mv_maps (memory mv u))(vs_root vs := (mv_maps (memory mv u) (vs_root vs))(a := Some (p, rights)))\<rparr>"
        by (simp add: mapped_page_def)
      moreover have "same_at (memory mv w) (memory mv u) x" if "x \<noteq> m" for x
        using eff(4) that by (simp add: derived_def)
      ultimately show ?thesis using z all e eff ne by (auto simp: same_at_def)
    qed (use mapped gr grown_quiet all e in auto)
  next
    case (Err x)
    with effect run True copy grown_quiet [OF grown_refl] show ?thesis by (auto simp: vspace_map_frame_def pbind_def)
  next
    case Panic
    with effect run True copy grown_quiet [OF grown_refl] show ?thesis by (auto simp: vspace_map_frame_def pbind_def)
  qed
qed

lemma map_recovery_memory:
  assumes laws: "mem_laws K mv" and inj: "inj (slot_cptr K)" and bare: "bare K mv (b, w)"
    and first: "fs_first (bt_slots b) \<le> fs_start (bt_slots b)"
    and f: "mv_frame (memory mv w) (frame_cap f) = Some p" and vs: "vs_root (tsk_vspace t) \<notin> free_caps K b"
    and run: "task_map_recovery_frame K t f a (b, w) = (r, (c, v))"
  shows "case r of
      Ok m \<Rightarrow> boot_ledger None (b, w) (c, v) \<and> bare K mv (c, v) \<and>
        (\<forall>x. x \<notin> free_caps K b \<longrightarrow> mv_frame (memory mv v) x = mv_frame (memory mv w) x \<and>
          mv_maps (memory mv v) x = (if x = vs_root (tsk_vspace t)
            then (mv_maps (memory mv w) x)(a \<mapsto> (p, RightsReadWrite)) else mv_maps (memory mv w) x))
    | Err e \<Rightarrow> kept K mv (b, w) (c, v)
    | Panic \<Rightarrow> True"
proof -
  let ?vs = "vs_root (tsk_vspace t)"
  obtain x d u where map: "vspace_map_frame K (tsk_vspace t) f a RightsReadWrite (b, w) = (x, (d, u))"
    by (metis prod.exhaust)
  note memory = map_frame_memory [OF laws bare f vs map]
  show ?thesis
  proof (cases x)
    case (Err e)
    obtain y g z where roll: "bootstrap_rollback K (bootstrap_checkpoint b) (d, u) = (y, (g, z))"
      by (metis prod.exhaust)
    with run map Err rollback_cases [OF roll]
    have "r = (case y of Ok _ \<Rightarrow> Err e | Err _ \<Rightarrow> Err RollbackFailed | Panic \<Rightarrow> Panic) \<and> (c, v) = (g, z)"
      by (cases y) (simp_all add: task_map_recovery_frame_def Let_def pbind_def pfail_def)
    with rollback_memory [OF laws inj bare _ roll] memory Err show ?thesis by (auto split: res.splits)
  next
    case Panic
    with run map show ?thesis by (simp add: task_map_recovery_frame_def)
  next
    case (Ok m)
    from memory Ok have eff: "fs_start (bt_slots b) < fs_end (bt_slots b)" "d = commit_slot b" "m = next_cap K b"
      "\<And>y. y \<noteq> m \<Longrightarrow> y \<noteq> ?vs \<Longrightarrow> same_at (memory mv w) (memory mv u) y"
      "mv_frame (memory mv u) ?vs = mv_frame (memory mv w) ?vs"
      "mv_maps (memory mv u) ?vs = (mv_maps (memory mv w) ?vs)(a \<mapsto> (p, RightsReadWrite))" by auto
    from checked_succ_below [OF eff(1)] have succ: "unat (fs_start (bt_slots b) + 1) = Suc (unat (fs_start (bt_slots b)))"
      by simp
    have led: "boot_ledger None (b, w) (d, u)"
      using eff(1) succ unfolding eff(2) by (simp add: boot_ledger_def ledger_def word_le_nat_alt word_less_nat_alt)
    have m: "m \<in> free_caps K b" using eff(1,3) by (auto simp: free_caps_def)
    have "m \<notin> free_caps K d"
      using succ inj unfolding eff(2,3) by (auto simp: free_caps_def inj_eq word_le_nat_alt)
    have "bare K mv (d, u)"
    proof (rule bareI)
      fix y
      assume y: "y \<in> free_caps K d"
      then have old: "y \<in> free_caps K b" using ledger_free [OF led] by blast
      with y vs \<open>m \<notin> free_caps K d\<close> have "y \<noteq> m" "y \<noteq> ?vs" by auto
      from eff(4) [OF this] bare_free [OF bare old]
      show "y \<noteq> init_cnode K \<and> y \<noteq> init_vspace K \<and> mv_frame (memory mv u) y = None \<and> mv_maps (memory mv u) y = Map.empty"
        by (simp add: same_at_def)
    qed
    have outside: "mv_frame (memory mv u) y = mv_frame (memory mv w) y \<and> mv_maps (memory mv u) y =
        (if y = ?vs then (mv_maps (memory mv w) y)(a \<mapsto> (p, RightsReadWrite)) else mv_maps (memory mv w) y)"
      if y: "y \<notin> free_caps K b" for y
    proof (cases "y = ?vs")
      case False
      moreover have "y \<noteq> m" using y m by auto
      ultimately have "same_at (memory mv w) (memory mv u) y" by (rule eff(4) [rotated])
      with False show ?thesis by (simp add: same_at_def)
    qed (use eff(5,6) in simp)
    moreover from map_recovery_of_mapping [OF map [unfolded Ok] first] run have "\<exists>k. r = Ok k" "c = d" "v = u" by auto
    ultimately show ?thesis using led \<open>bare K mv (d, u)\<close> outside by auto
  qed
qed

section \<open>A system of tasks\<close>

text \<open>
  The tasks constructed so far, the code pages \<open>C\<close> and the recovery pages \<open>R\<close> their callers passed.
  \<open>iso_object\<close> covers every other constructor, successful or not; \<open>iso_scratch\<close> is the mapping of a frame in the initial
  address space and \<open>iso_other\<close> any activity that adds no mapping, such as unmapping a frame.
\<close>

type_synonym 'k tasks = "'k boot_state \<times> task list \<times> nat set \<times> nat set"

abbreviation space_of :: "task \<Rightarrow> cptr" where
  "space_of t \<equiv> vs_root (tsk_vspace t)"

inductive allocation_run :: "'k sel4 \<Rightarrow> 'k boot_state \<Rightarrow> 'k boot_state \<Rightarrow> bool" for K :: "'k sel4" where
  run_frame: "bootstrap_allocate_frame K s = (r, t) \<Longrightarrow> allocation_run K s t"
| run_endpoint: "bootstrap_allocate_endpoint K s = (r, t) \<Longrightarrow> allocation_run K s t"
| run_fault: "bootstrap_allocate_fault_endpoint K s = (r, t) \<Longrightarrow> allocation_run K s t"
| run_notification: "bootstrap_allocate_notification K s = (r, t) \<Longrightarrow> allocation_run K s t"
| run_pool: "bootstrap_allocate_reply_pool capacity s = (r, t) \<Longrightarrow> allocation_run K s t"

inductive iso_step :: "'k sel4 \<Rightarrow> ('k \<Rightarrow> mem_view) \<Rightarrow> 'k tasks \<Rightarrow> 'k tasks \<Rightarrow> bool"
  for K :: "'k sel4" and mv where
  iso_task: "mv_frame (memory mv w) (frame_cap (sc_frame (tk_code config))) = Some p \<Longrightarrow>
     create_task K config (b, w) = (Ok t, (c, v)) \<Longrightarrow>
     iso_step K mv ((b, w), ts, C, R) ((c, v), t # ts, insert p C, R)"
| iso_task_refused: "mv_frame (memory mv w) (frame_cap (sc_frame (tk_code config))) = Some p \<Longrightarrow>
     create_task K config (b, w) = (Err e, (c, v)) \<Longrightarrow>
     iso_step K mv ((b, w), ts, C, R) ((c, v), ts, C, R)"
| iso_recovery: "t \<in> set ts \<Longrightarrow> mv_frame (memory mv w) (frame_cap f) = Some p \<Longrightarrow>
     task_map_recovery_frame K t f a (b, w) = (Ok m, (c, v)) \<Longrightarrow>
     iso_step K mv ((b, w), ts, C, R) ((c, v), ts, C, insert p R)"
| iso_recovery_refused: "t \<in> set ts \<Longrightarrow> mv_frame (memory mv w) (frame_cap f) = Some p \<Longrightarrow>
     task_map_recovery_frame K t f a (b, w) = (Err e, (c, v)) \<Longrightarrow>
     iso_step K mv ((b, w), ts, C, R) ((c, v), ts, C, R)"
| iso_object: "allocation_run K (b, w) (c, v) \<Longrightarrow> iso_step K mv ((b, w), ts, C, R) ((c, v), ts, C, R)"
| iso_scratch: "mv_frame (memory mv w) (frame_cap f) = Some p \<Longrightarrow> frame_map_initial K f a w = (r, v) \<Longrightarrow>
     iso_step K mv ((b, w), ts, C, R) ((b, v), ts, C, R)"
| iso_other: "mv_frame (memory mv v) = mv_frame (memory mv w) \<Longrightarrow>
     (\<And>vs. mv_maps (memory mv v) vs \<subseteq>\<^sub>m mv_maps (memory mv w) vs) \<Longrightarrow>
     iso_step K mv ((b, w), ts, C, R) ((b, v), ts, C, R)"

text \<open>The pages behind the three frames of a task.\<close>

definition own_frames :: "task \<Rightarrow> cptr list" where
  "own_frames t = [frame_cap (tsk_private_memory t), frame_cap (tsk_stack t), frame_cap (tsk_ipc_buffer t)]"

definition own_pages :: "mem_view \<Rightarrow> task \<Rightarrow> nat option list" where
  "own_pages V t = map (mv_frame V) (own_frames t)"

definition confined :: "mem_view \<Rightarrow> nat set \<Rightarrow> nat set \<Rightarrow> task \<Rightarrow> bool" where
  "confined V C R t \<longleftrightarrow> (\<forall>a p r. mv_maps V (space_of t) a = Some (p, r) \<longrightarrow>
     Some p \<in> set (own_pages V t) \<or> (p \<in> C \<and> r = RightsReadOnly) \<or> p \<in> R)"

definition task_settled :: "'k sel4 \<Rightarrow> mem_view \<Rightarrow> bootstrap \<Rightarrow> task \<Rightarrow> bool" where
  "task_settled K V b t \<longleftrightarrow> space_of t \<noteq> init_vspace K \<and> None \<notin> set (own_pages V t) \<and>
     insert (space_of t) (set (own_frames t)) \<inter> free_caps K b = {}"

definition iso_inv :: "'k sel4 \<Rightarrow> ('k \<Rightarrow> mem_view) \<Rightarrow> 'k tasks \<Rightarrow> bool" where
  "iso_inv K mv = (\<lambda>((b, w), ts, C, R). bare K mv (b, w) \<and> fs_first (bt_slots b) \<le> fs_start (bt_slots b) \<and>
     (\<forall>t \<in> set ts. task_settled K (memory mv w) b t \<and> confined (memory mv w) C R t) \<and>
     distinct (map space_of ts) \<and> distinct (concat (map (own_pages (memory mv w)) ts)))"

text \<open>The invariant depends on the tasks' own frames and address spaces only.\<close>

lemma iso_inv_frame:
  assumes inv: "iso_inv K mv ((b, w), ts, C, R)" and led: "boot_ledger None (b, w) (c, v)" and bare: "bare K mv (c, v)"
    and frames: "\<And>x. x \<notin> free_caps K b \<Longrightarrow> mv_frame (memory mv v) x = mv_frame (memory mv w) x"
    and conf: "\<And>t. t \<in> set ts \<Longrightarrow> own_pages (memory mv v) t = own_pages (memory mv w) t \<Longrightarrow>
      space_of t \<notin> free_caps K b \<Longrightarrow> space_of t \<noteq> init_vspace K \<Longrightarrow>
      confined (memory mv w) C R t \<Longrightarrow> confined (memory mv v) C' R' t"
  shows "iso_inv K mv ((c, v), ts, C', R')"
proof -
  have own: "own_pages (memory mv v) t = own_pages (memory mv w) t" if "t \<in> set ts" for t
  proof -
    from inv that have "task_settled K (memory mv w) b t" by (simp add: iso_inv_def)
    then have "x \<notin> free_caps K b" if "x \<in> set (own_frames t)" for x using that unfolding task_settled_def by blast
    with frames show ?thesis by (simp add: own_pages_def)
  qed
  have "task_settled K (memory mv v) c t \<and> confined (memory mv v) C' R' t" if t: "t \<in> set ts" for t
  proof -
    from inv t have old: "task_settled K (memory mv w) b t" "confined (memory mv w) C R t" by (simp_all add: iso_inv_def)
    have "space_of t \<notin> free_caps K b" "space_of t \<noteq> init_vspace K" using old(1) unfolding task_settled_def by blast+
    with conf [OF t own [OF t]] old(2) have "confined (memory mv v) C' R' t" by blast
    moreover have "task_settled K (memory mv v) c t"
      using old(1) own [OF t] ledger_free [OF led] unfolding task_settled_def by auto
    ultimately show ?thesis by blast
  qed
  moreover have "concat (map (own_pages (memory mv v)) ts) = concat (map (own_pages (memory mv w)) ts)"
    using own by (metis (mono_tags, lifting) map_eq_conv)
  moreover have "fs_first (bt_slots c) \<le> fs_start (bt_slots c)"
    using inv led by (auto simp: iso_inv_def boot_ledger_def ledger_def)
  ultimately show ?thesis using inv bare by (simp add: iso_inv_def)
qed

lemma boot_ledger_world: "boot_ledger None (b, w) (b, v)"
  by (simp add: boot_ledger_def ledger_def)

lemma iso_inv_kept:
  assumes "iso_inv K mv ((b, w), ts, C, R)" and "kept K mv (b, w) (c, v)"
  shows "iso_inv K mv ((c, v), ts, C, R)"
  using assms(2) by (intro iso_inv_frame [OF assms(1)]) (auto simp: kept_def same_at_def confined_def)

lemma confined_mono: "confined V C R t \<Longrightarrow> C \<subseteq> C' \<Longrightarrow> R \<subseteq> R' \<Longrightarrow> confined V C' R' t"
  unfolding confined_def by blast

lemma confined_update:
  assumes "confined V C R t" and "own_pages V' t = own_pages V t"
    and "mv_maps V' (space_of t) = mv_maps V (space_of t) \<or>
      mv_maps V' (space_of t) = (mv_maps V (space_of t))(a \<mapsto> (p, r))"
  shows "confined V' C (insert p R) t"
  unfolding confined_def
proof (intro allI impI)
  fix a' p' r'
  assume here: "mv_maps V' (space_of t) a' = Some (p', r')"
  show "Some p' \<in> set (own_pages V' t) \<or> p' \<in> C \<and> r' = RightsReadOnly \<or> p' \<in> insert p R"
  proof (cases "mv_maps V (space_of t) a' = Some (p', r')")
    case True
    with assms(1,2) show ?thesis unfolding confined_def by (metis insertCI)
  next
    case False
    with here assms(3) show ?thesis by (auto split: if_splits)
  qed
qed

lemma confined_less:
  assumes "confined V C R t" and "own_pages V' t = own_pages V t" and "mv_maps V' (space_of t) \<subseteq>\<^sub>m mv_maps V (space_of t)"
  shows "confined V' C R t"
proof -
  have "mv_maps V (space_of t) a = Some x" if "mv_maps V' (space_of t) a = Some x" for a x
    using assms(3) that unfolding map_le_def by (metis domI)
  with assms(1,2) show ?thesis unfolding confined_def by metis
qed

lemma iso_inv_mono: "iso_inv K mv (s, ts, C, R) \<Longrightarrow> C \<subseteq> C' \<Longrightarrow> R \<subseteq> R' \<Longrightarrow> iso_inv K mv (s, ts, C', R')"
  by (cases s) (auto simp: iso_inv_def intro: confined_mono)

lemma one_object_kept:
  assumes inj: "inj (slot_cptr K)" and bare: "bare K mv (b, w)"
    and one: "one_object K mv (created bp) m" and run: "m (b, w) = (r, (c, v))"
  shows "kept K mv (b, w) (c, v)"
proof -
  note effect = one_objectD [OF one run]
  have "grown K mv (b, w) (c, v)"
  proof (cases r)
    case (Ok x)
    have eff: "fs_start (bt_slots b) < fs_end (bt_slots b)" "x = next_cap K b" "c = commit_slot b"
      "created bp x (memory mv w) (memory mv v)"
      using effect unfolding Ok res.case by blast+
    from grown_commit(1) [OF grown_refl [of K mv "(b, w)"] eff(1), of v] eff(2,4) show ?thesis
      unfolding eff(3) by (simp add: created_def)
  qed (use effect grown_quiet [OF grown_refl [of K mv "(b, w)"]] in auto)
  then show ?thesis by (rule kept_grown [OF inj bare])
qed

text \<open>No constructor but those of tasks and mappings touches memory outside its slots.\<close>

lemma endpoint_kept:
  assumes laws: "mem_laws K mv" and inj: "inj (slot_cptr K)" and bare: "bare K mv (b, w)"
    and run: "bootstrap_allocate_endpoint K (b, w) = (r, (c, v))"
  shows "kept K mv (b, w) (c, v)"
proof -
  from allocate_endpoint_run [OF run] obtain x u where
    u: "bootstrap_allocate_blueprint K EndpointBp (b, w) = (x, (c, u))" "mach v = mach u"
    unfolding allocate_is_blueprint by blast
  from one_object_kept [OF inj bare one_object_allocate [OF laws] u(1)] u(2) show ?thesis
    by (auto simp: kept_def bare_def boot_ledger_def ledger_def)
qed

lemma pmap_ran: "pmap f m s = (r, t) \<Longrightarrow> \<exists>x. m s = (x, t)"
  by (auto simp: pmap_def split: prod.splits)

lemma object_kept:
  assumes run: "allocation_run K (b, w) (c, v)" and laws: "mem_laws K mv" and inj: "inj (slot_cptr K)"
    and bare: "bare K mv (b, w)"
  shows "kept K mv (b, w) (c, v)"
  using run
proof cases
  case (run_frame r)
  then have "bootstrap_allocate_blueprint K GranuleBp (b, w) = (r, (c, v))" by (simp add: allocate_is_blueprint)
  from one_object_kept [OF inj bare one_object_allocate [OF laws] this] show ?thesis .
next
  case run_endpoint
  with endpoint_kept [OF laws inj bare] show ?thesis by blast
next
  case run_fault
  with endpoint_kept [OF laws inj bare] show ?thesis
    by (auto simp: bootstrap_allocate_fault_endpoint_def dest!: pmap_ran)
next
  case run_notification
  then obtain y where "bootstrap_allocate_blueprint K NotificationBp (b, w) = (y, (c, v))"
    by (auto simp: allocate_is_blueprint bootstrap_allocate_notification_def dest!: pmap_ran)
  from one_object_kept [OF inj bare one_object_allocate [OF laws] this] show ?thesis .
next
  case (run_pool capacity r)
  from allocate_pool_run [OF this] have led: "boot_ledger None (b, w) (c, v)" "mach v = mach w" by simp_all
  have "bare K mv (c, v)"
    using bare_free [OF bare subsetD [OF ledger_free [OF led(1)]]] led(2) by (intro bareI) auto
  with led show ?thesis by (simp add: kept_def)
qed

lemma iso_inv_task:
  assumes laws: "mem_laws K mv" and inj: "inj (slot_cptr K)" and levels: "levels_ok K"
    and inv: "iso_inv K mv ((b, w), ts, C, R)"
    and code: "mv_frame (memory mv w) (frame_cap (sc_frame (tk_code config))) = Some p"
    and run: "create_task K config (b, w) = (Ok t, (c, v))"
  shows "iso_inv K mv ((c, v), t # ts, insert p C, R)"
proof -
  from inv have bare: "bare K mv (b, w)" by (simp add: iso_inv_def)
  from create_task_memory [OF laws inj bare levels code run] obtain p1 p2 p3 where
    new: "task_memory K mv config p (b, w) t (c, v) p1 p2 p3" and gr: "grown K mv (b, w) (c, v)"
    and kept: "kept K mv (b, w) (c, v)" by auto
  from iso_inv_mono [OF iso_inv_kept [OF inv kept]] have inv': "iso_inv K mv ((c, v), ts, insert p C, R)" by blast
  let ?V = "memory mv v"
  from new have mem: "distinct [p1, p2, p3]" "{p1, p2, p3} \<inter> pages_in_use (memory mv w) = {}"
    "own_pages ?V t = [Some p1, Some p2, Some p3]" "space_of t \<in> new_caps K b c"
    "mv_maps ?V (space_of t) = task_space config p p1 p2 p3"
    by (simp_all add: task_memory_def own_pages_def own_frames_def)
  from bare_grown [OF inj bare gr] have bare': "bare K mv (c, v)" .
  have "space_of t \<notin> free_caps K c"
    using mem(4) new_caps_unallocated [OF inj, of c _ b] by (auto simp: free_caps_def)
  moreover have "x \<notin> free_caps K c" if "mv_frame ?V x \<noteq> None" for x using bare_free(3) [OF bare', of x] that by auto
  moreover have "space_of t \<noteq> init_vspace K" using new_caps_bare(4) [OF bare gr mem(4)] .
  ultimately have settled: "task_settled K ?V c t" using mem(3)
    by (simp add: task_settled_def own_pages_def own_frames_def)
  from inv' have inv'': "distinct (map space_of ts)" "distinct (concat (map (own_pages ?V) ts))"
    "fs_first (bt_slots c) \<le> fs_start (bt_slots c)"
    "\<forall>u \<in> set ts. task_settled K ?V c u \<and> confined ?V (insert p C) R u" by (simp_all add: iso_inv_def)
  have conf: "confined ?V (insert p C) R t"
    using mem(3,5) by (auto simp: confined_def task_space_def split: if_splits)
  have spaces: "space_of t \<notin> set (map space_of ts)"
  proof
    assume "space_of t \<in> set (map space_of ts)"
    then obtain u where u: "u \<in> set ts" "space_of u = space_of t" by auto
    with inv have "space_of t \<notin> free_caps K b" unfolding iso_inv_def task_settled_def by auto
    with mem(4) new_caps_free [OF gr] show False by blast
  qed
  have apart: "set (own_pages ?V t) \<inter> set (concat (map (own_pages ?V) ts)) = {}"
  proof (rule ccontr)
    assume "set (own_pages ?V t) \<inter> set (concat (map (own_pages ?V) ts)) \<noteq> {}"
    then obtain u q where u: "u \<in> set ts" "q \<in> {p1, p2, p3}" "Some q \<in> set (own_pages ?V u)" using mem(3) by auto
    then obtain x where x: "x \<in> set (own_frames u)" "mv_frame ?V x = Some q"
      unfolding own_pages_def set_map by (metis imageE)
    with inv u(1) have "x \<notin> free_caps K b" unfolding iso_inv_def task_settled_def by auto
    with kept x(2) have "mv_frame (memory mv w) x = Some q" by (simp add: kept_def same_at_def)
    then have "q \<in> pages_in_use (memory mv w)" by (auto simp: pages_in_use_def)
    with u(2) mem(2) show False by blast
  qed
  have "distinct (own_pages ?V t)" using mem(1,3) by simp
  with apart inv'' have "distinct (concat (map (own_pages ?V) (t # ts)))"
    unfolding list.map concat.simps distinct_append by blast
  moreover have "distinct (map space_of (t # ts))" using spaces inv'' by simp
  moreover have "\<forall>u \<in> set (t # ts). task_settled K ?V c u \<and> confined ?V (insert p C) R u"
    using settled conf inv'' by auto
  ultimately show ?thesis using bare' inv'' unfolding iso_inv_def prod.case by blast
qed

lemma iso_inv_step:
  assumes laws: "mem_laws K mv" and inj: "inj (slot_cptr K)" and levels: "levels_ok K"
    and step: "iso_step K mv s t" and inv: "iso_inv K mv s"
  shows "iso_inv K mv t"
  using step
proof cases
  case (iso_task w config p b t c v ts C R)
  with iso_inv_task [OF laws inj levels] inv show ?thesis by blast
next
  case (iso_task_refused w config p b e c v ts C R)
  with inv have "bare K mv (b, w)" by (simp add: iso_inv_def)
  from create_task_memory [OF laws inj this levels iso_task_refused(3,4)] iso_inv_kept inv iso_task_refused(1,2)
  show ?thesis by blast
next
  case (iso_recovery t ts w f p a b m c v C R)
  from inv iso_recovery(1,3) have bare: "bare K mv (b, w)" and first: "fs_first (bt_slots b) \<le> fs_start (bt_slots b)"
    and vs: "space_of t \<notin> free_caps K b" by (auto simp: iso_inv_def task_settled_def)
  from map_recovery_memory [OF laws inj bare first iso_recovery(4) vs iso_recovery(5)]
  have led: "boot_ledger None (b, w) (c, v)" and bare': "bare K mv (c, v)"
    and mem: "\<And>x. x \<notin> free_caps K b \<Longrightarrow> mv_frame (memory mv v) x = mv_frame (memory mv w) x \<and>
      mv_maps (memory mv v) x = (if x = space_of t then (mv_maps (memory mv w) x)(a \<mapsto> (p, RightsReadWrite))
        else mv_maps (memory mv w) x)" by auto
  show ?thesis unfolding iso_recovery(2)
  proof (rule iso_inv_frame [OF inv [unfolded iso_recovery(1)] led bare'])
    show "mv_frame (memory mv v) x = mv_frame (memory mv w) x" if "x \<notin> free_caps K b" for x using mem [OF that] by blast
    show "confined (memory mv v) C (insert p R) u"
      if "own_pages (memory mv v) u = own_pages (memory mv w) u" "space_of u \<notin> free_caps K b"
        "confined (memory mv w) C R u" for u
      using mem [OF that(2)]
      by (intro confined_update [OF that(3,1), where a = a and r = RightsReadWrite]) (simp split: if_splits)
  qed
next
  case (iso_recovery_refused t ts w f p a b e c v C R)
  from inv iso_recovery_refused(1,3) have bare: "bare K mv (b, w)"
    and first: "fs_first (bt_slots b) \<le> fs_start (bt_slots b)"
    and vs: "space_of t \<notin> free_caps K b" by (auto simp: iso_inv_def task_settled_def)
  from map_recovery_memory [OF laws inj bare first iso_recovery_refused(4) vs iso_recovery_refused(5)]
    iso_inv_kept inv iso_recovery_refused(1,2) show ?thesis by auto
next
  case (iso_object b w c v ts C R)
  with inv have "bare K mv (b, w)" by (simp add: iso_inv_def)
  from object_kept [OF iso_object(3) laws inj this] iso_inv_kept inv iso_object(1,2) show ?thesis by blast
next
  case (iso_scratch w f p a r v b ts C R)
  have mem: "mv_frame (memory mv v) = mv_frame (memory mv w)"
    "\<And>x. x \<noteq> init_vspace K \<Longrightarrow> mv_maps (memory mv v) x = mv_maps (memory mv w) x"
  proof -
    obtain y u where call: "syscall (frame_map K (frame_cap f) (init_vspace K) a RightsReadWrite DefaultVmAttributes) w = (y, u)"
      by fastforce
    from affects_syscall [OF mem_frame [OF laws] call] call iso_scratch(3,4)
    show "mv_frame (memory mv v) = mv_frame (memory mv w)"
      "\<And>x. x \<noteq> init_vspace K \<Longrightarrow> mv_maps (memory mv v) x = mv_maps (memory mv w) x"
      by (cases y; auto simp: frame_map_initial_def pmap_err_def pfail_def mapped_page_def split: if_splits)+
  qed
  have "bare K mv (b, v)"
    using inv iso_scratch(1) mem by (auto simp: iso_inv_def bare_def)
  from iso_inv_frame [OF inv [unfolded iso_scratch(1)] boot_ledger_world this] mem show ?thesis
    unfolding iso_scratch(2) by (auto simp: confined_def)
next
  case (iso_other v w b ts C R)
  have "mv_maps (memory mv v) x = Map.empty" if "mv_maps (memory mv w) x = Map.empty" for x
    using map_le_implies_dom_le [OF iso_other(4), of x] that by simp
  then have "bare K mv (b, v)"
    using inv iso_other(1,3) by (auto simp: iso_inv_def bare_def)
  show ?thesis
    unfolding iso_other(2)
    by (rule iso_inv_frame [OF inv [unfolded iso_other(1)] boot_ledger_world \<open>bare K mv (b, v)\<close>])
      (simp_all add: iso_other(3) confined_less [OF _ _ iso_other(4)])
qed

lemma iso_inv_reachable:
  assumes "mem_laws K mv" and "inj (slot_cptr K)" and "levels_ok K" and "(iso_step K mv)\<^sup>*\<^sup>* s t" and "iso_inv K mv s"
  shows "iso_inv K mv t"
  using assms(4,5) by (induction rule: rtranclp_induct) (auto intro: iso_inv_step [OF assms(1-3)])

lemma iso_inv_start:
  "bootstrap_new bi = Ok b \<Longrightarrow> bare K mv (b, w) \<Longrightarrow> iso_inv K mv ((b, w), [], {}, {})"
  by (auto simp: iso_inv_def bootstrap_new_def free_slots_new_def split: if_splits)

text \<open>A page two tasks map is not the own page of both.\<close>

lemma confined_shared:
  assumes own: "distinct (concat (map (own_pages V) ts))" and t: "t \<in> set ts" "u \<in> set ts" "t \<noteq> u"
    and conf: "confined V C R t" "confined V C R u"
    and maps: "mv_maps V (space_of t) a = Some (p, r)" "mv_maps V (space_of u) a' = Some (p, r')"
  shows "p \<in> R \<or> (p \<in> C \<and> (r = RightsReadOnly \<or> r' = RightsReadOnly))"
proof -
  have "\<not> (Some p \<in> set (own_pages V t) \<and> Some p \<in> set (own_pages V u))"
    using distinct_concat_unique [of "own_pages V" ts t u "Some p", OF own t(1,2)] t(3) by blast
  with conf maps show ?thesis unfolding confined_def by blast
qed

section \<open>The reference kernel, watched\<close>

definition log_world :: "(view_kernel \<times> page_log) world" where
  "log_world = \<lparr>
     mach = \<lparr>kstate = (kstate (mach view_world), \<lparr>pl_frames = [(7, 1)], pl_in = [], pl_maps = []\<rparr>),
       ipcbuf = ipcbuf (mach view_world)\<rparr>,
     flag_cells = (\<lambda>_. False), mask_cells = (\<lambda>_. 0),
     tracker_cells = (\<lambda>_. \<lparr>st_capacity = 0, st_states = []\<rparr>), next_cell = 0\<rparr>"

abbreviation log_sel4 :: "(view_kernel \<times> page_log) sel4" where
  "log_sel4 \<equiv> remembering view_sel4"

lemma log_basics: "inj (slot_cptr log_sel4)" "levels_ok log_sel4" "context_wf (default_context log_sel4)"
  using view_basics by (simp_all add: remembering_geometry) (simp_all add: remembering_def)

lemma log_stands:
  assumes "unat stop = 100 + n" and "k \<le> 40"
  shows "stands log_sel4 (bt_bootinfo (ref_boot 100 stop)) view_objects (fst \<circ> fst) (snd \<circ> fst)
    (bootstrap_checkpoint (ref_boot 100 stop)) n k view_start (ref_boot 100 stop, log_world)"
proof -
  have "slot_cptr log_sel4 = slot_cptr view_sel4" by (simp add: remembering_def)
  with view_stands [OF assms] show ?thesis by (simp add: stands_def remembering_geometry log_world_def)
qed

lemma log_bare: "bare log_sel4 (log_view \<circ> snd) (ref_boot 100 stop, log_world)"
proof -
  have "\<forall>i \<in> {100 ..< stop}. i \<noteq> 7 \<and> i \<noteq> 3 \<and> i \<noteq> root_task_cnode" by (auto simp: root_task_cnode_def)
  then show ?thesis
    by (simp add: bare_def ref_boot_def free_slots_new_def remembering_def view_sel4_def log_view_def log_world_def)
qed

text \<open>Creating the reference task there, as often as there are slots, memory and identifiers.\<close>

lemma log_create_task:
  assumes "retains view_start V" and "0 < kv_asids V"
    and "stands log_sel4 bi view_objects (fst \<circ> fst) (snd \<circ> fst) (bootstrap_checkpoint b) (14 + n) (10 + k) V (b, w)"
  shows "\<exists>t c v V'. create_task log_sel4 view_config (b, w) = (Ok t, (c, v)) \<and>
    stands log_sel4 bi view_objects (fst \<circ> fst) (snd \<circ> fst) (bootstrap_checkpoint c) n k V' (c, v) \<and>
    retains view_start V' \<and> kv_asids V = Suc (kv_asids V') \<and> task_ready log_sel4 view_config t V'"
proof -
  have objects: "task_objects log_sel4 view_config \<subseteq> view_objects"
    using view_objects_in by (simp add: remembering_geometry)
  have config: "acceptable log_sel4 view_config V"
    using view_acceptable [OF assms(1,2)] by (simp add: remembering_geometry)
  have plan: "length (table_plan log_sel4 (task_pages view_config)) = 4"
    using view_plan by (simp add: remembering_geometry)
  from create_task_runs [OF remembering_obliging [OF view_sel4_obliging] objects log_basics config,
      unfolded plan, where n = n and k = k, of bi b w] assms(3)
  obtain t c v V' where "create_task log_sel4 view_config (b, w) = (Ok t, (c, v))"
    "stands log_sel4 bi view_objects (fst \<circ> fst) (snd \<circ> fst) (bootstrap_checkpoint c) n k V' (c, v)"
    "retains V V'" "kv_asids V = Suc (kv_asids V')" "task_ready log_sel4 view_config t V'"
    by (auto simp: eval_nat_numeral)
  with retains_trans [OF assms(1)] show ?thesis by blast
qed

section \<open>Properties\<close>

text \<open>
  C6. A constructed task has exactly the memory it was configured with: its new address space
  contains the code page, read-only, three private pages at their configured addresses, and nothing
  else; the three pages are different, the task's own frame capabilities designate them, and before
  the construction no capability designated them and no address space contained them. Outside the
  root slots that were unallocated, neither a successful nor a failed construction changes an
  address space or a frame capability, and the slots that are unallocated afterwards
  designate no memory.
\<close>

theorem task_memory_exact:
  assumes "mem_laws K mv" and "inj (slot_cptr K)" and "levels_ok K" and "bare K mv (b, w)"
    and "mv_frame (memory mv w) (frame_cap (sc_frame (tk_code config))) = Some code"
    and "create_task K config (b, w) = (r, (c, v))"
  shows "(r \<noteq> Panic \<longrightarrow> kept K mv (b, w) (c, v)) \<and>
    (\<forall>t. r = Ok t \<longrightarrow> (\<exists>private stack ipc. task_memory K mv config code (b, w) t (c, v) private stack ipc))"
  using create_task_memory [OF assms(1,2,4,3,5,6)] by blast

theorem task_memory_exact_witness:
  "\<exists>t c v private stack ipc. create_task log_sel4 view_config (ref_boot 100 128, log_world) = (Ok t, (c, v)) \<and>
     distinct [1, private, stack, ipc] \<and>
     mv_maps (memory (log_view \<circ> snd) v) (vs_root (tsk_vspace t)) =
       [0x1000 \<mapsto> (1, RightsReadOnly), 0x2000 \<mapsto> (private, RightsReadWrite),
        0x3000 \<mapsto> (stack, RightsReadWrite), 0x4000 \<mapsto> (ipc, RightsReadWrite)]"
proof -
  have "0 < kv_asids view_start" by (simp add: view_start_def)
  from log_create_task [OF retains_refl this, where n = 14 and k = 10] log_stands [of 128 28 20] obtain t c v where
    run: "create_task log_sel4 view_config (ref_boot 100 128, log_world) = (Ok t, (c, v))" by fastforce
  have code: "mv_frame (memory (log_view \<circ> snd) log_world) (frame_cap (sc_frame (tk_code view_config))) = Some 1"
    by (simp add: log_world_def log_view_def view_config_def ref_config_def)
  from task_memory_exact [OF remembering_mem_laws log_basics(1,2) log_bare code run] run show ?thesis
    by (auto simp: task_memory_def task_space_def view_config_def ref_config_def)
qed

text \<open>
  C2. Tasks are isolated from each other. Start with no tasks and let constructions of tasks and
  other objects, recovery mappings into tasks, mappings in the initial address space and
  invocations that only remove mappings run in any order, each with any outcome. Then each task has an address
  space of its own and three pages of its own, all different; its address space contains its own
  pages, code pages that were passed to some construction, read-only, recovery pages that
  were passed to some recovery, and nothing else; so two tasks share a page only if it is a recovery page,
  or a code page that at least one of them cannot write.
\<close>

theorem tasks_isolated:
  assumes "mem_laws K mv" and "inj (slot_cptr K)" and "levels_ok K"
    and "bootstrap_new bi = Ok b0" and "bare K mv (b0, w0)"
    and "(iso_step K mv)\<^sup>*\<^sup>* ((b0, w0), [], {}, {}) ((b, w), ts, C, R)"
  shows "distinct (map space_of ts) \<and> distinct (concat (map (own_pages (memory mv w)) ts)) \<and>
    (\<forall>t \<in> set ts. None \<notin> set (own_pages (memory mv w) t) \<and> confined (memory mv w) C R t) \<and>
    (\<forall>t \<in> set ts. \<forall>u \<in> set ts. \<forall>p a r a' r'. t \<noteq> u \<longrightarrow>
      mv_maps (memory mv w) (space_of t) a = Some (p, r) \<longrightarrow>
      mv_maps (memory mv w) (space_of u) a' = Some (p, r') \<longrightarrow>
      p \<in> R \<or> (p \<in> C \<and> (r = RightsReadOnly \<or> r' = RightsReadOnly)))"
proof -
  from iso_inv_reachable [OF assms(1-3,6) iso_inv_start [OF assms(4,5)]]
  have inv: "\<forall>t \<in> set ts. task_settled K (memory mv w) b t \<and> confined (memory mv w) C R t"
    "distinct (map space_of ts)" "distinct (concat (map (own_pages (memory mv w)) ts))" by (simp_all add: iso_inv_def)
  moreover have "\<forall>t \<in> set ts. None \<notin> set (own_pages (memory mv w) t)" using inv(1) by (simp add: task_settled_def)
  ultimately show ?thesis using confined_shared [OF inv(3)] by blast
qed

text \<open>Two tasks of the same configuration, one after the other.\<close>

theorem tasks_isolated_witness:
  "\<exists>t u s x. create_task log_sel4 view_config (ref_boot 100 128, log_world) = (Ok t, s) \<and>
     create_task log_sel4 view_config s = (Ok u, x) \<and> space_of t \<noteq> space_of u \<and>
     distinct (own_pages (memory (log_view \<circ> snd) (snd x)) u @ own_pages (memory (log_view \<circ> snd) (snd x)) t)"
proof -
  let ?mv = "log_view \<circ> snd" and ?b = "ref_boot 100 128"
  have asids: "0 < kv_asids view_start" by (simp add: view_start_def)
  from log_create_task [OF retains_refl asids, where n = 14 and k = 10] log_stands [of 128 28 20] obtain t c v V where
    one: "create_task log_sel4 view_config (?b, log_world) = (Ok t, (c, v))"
    and st: "stands log_sel4 (bt_bootinfo ?b) view_objects (fst \<circ> fst) (snd \<circ> fst) (bootstrap_checkpoint c) 14 10 V (c, v)"
    and V: "retains view_start V" "kv_asids view_start = Suc (kv_asids V)" by fastforce
  have "0 < kv_asids V" using V(2) by (simp add: view_start_def)
  from log_create_task [OF V(1) this, where n = 0 and k = 0] st obtain u d z where
    two: "create_task log_sel4 view_config (c, v) = (Ok u, (d, z))" by fastforce
  let ?code = "frame_cap (sc_frame (tk_code view_config))"
  have code: "mv_frame (memory ?mv log_world) ?code = Some 1"
    by (simp add: log_world_def log_view_def view_config_def ref_config_def)
  have "?code \<notin> free_caps log_sel4 ?b"
    by (auto simp: free_caps_def ref_boot_def free_slots_new_def remembering_def view_sel4_def view_config_def ref_config_def)
  moreover from create_task_memory [OF remembering_mem_laws log_basics(1) log_bare log_basics(2) code one]
  have "kept log_sel4 ?mv (?b, log_world) (c, v)" by blast
  ultimately have code': "mv_frame (memory ?mv v) ?code = Some 1" using code by (simp add: kept_def same_at_def)
  have "(iso_step log_sel4 ?mv)\<^sup>*\<^sup>* ((?b, log_world), [], {}, {}) ((d, z), [u, t], {1}, {})"
    using iso_task [where mv = ?mv and ts = "[]" and C = "{}" and R = "{}", OF code one]
      iso_task [where mv = ?mv and ts = "[t]" and C = "{1}" and R = "{}", OF code' two] by simp
  moreover have "bootstrap_new (ref_bootinfo 100 128) = Ok ?b"
    by (simp add: bootstrap_new_def ref_bootinfo_def ref_boot_def)
  ultimately have "distinct (map space_of [u, t])" "distinct (concat (map (own_pages (memory ?mv z)) [u, t]))"
    using tasks_isolated [OF remembering_mem_laws log_basics(1,2) _ log_bare] by blast+
  with one two show ?thesis by fastforce
qed

end
