(* ===== verification/Scenario.thy ===== *)
theory Scenario
  imports Refusal Unit_Tests
begin

text \<open>
  The integration scenario of \<open>tests/root-task/main.rs\<close> up to the point where its tasks start to
  run: two notifications, a task that must be refused because a delegated capability is absent, two
  tasks of the same layout, and the assertions about them. Under the contract of the kernel every
  assertion holds.
\<close>

section \<open>The configuration\<close>

definition TASK_CODE_ADDRESS :: usize where "TASK_CODE_ADDRESS = 0x01000000"
definition PRIVATE_ADDRESS :: usize where "PRIVATE_ADDRESS = 0x02000000"
definition STACK_ADDRESS :: usize where "STACK_ADDRESS = 0x02001000"
definition IPC_BUFFER_ADDRESS :: usize where "IPC_BUFFER_ADDRESS = 0x02002000"
definition TASK_ONE_VALUE :: usize where "TASK_ONE_VALUE = 0x1111111111111111"
definition TASK_TWO_VALUE :: usize where "TASK_TWO_VALUE = 0x2222222222222222"
definition COMPLETION_SLOT :: usize where "COMPLETION_SLOT = 1"

lemmas test_constants = TASK_CODE_ADDRESS_def PRIVATE_ADDRESS_def STACK_ADDRESS_def IPC_BUFFER_ADDRESS_def
  TASK_ONE_VALUE_def TASK_TWO_VALUE_def COMPLETION_SLOT_def

text \<open>\<open>send\<close> is the number of the kernel's send system call.\<close>

definition test_config :: "usize \<Rightarrow> frame \<Rightarrow> delegated_capability list \<Rightarrow> usize \<Rightarrow> task_config" where
  "test_config send code capabilities datum = \<lparr>
     tk_cspace_size_bits = 4,
     tk_code = \<lparr>sc_frame = code, sc_address = TASK_CODE_ADDRESS, sc_entry = TASK_CODE_ADDRESS\<rparr>,
     tk_private_memory_address = PRIVATE_ADDRESS,
     tk_stack_address = STACK_ADDRESS,
     tk_ipc_buffer_address = IPC_BUFFER_ADDRESS,
     tk_reserved_pages = [],
     tk_initial_arguments = [PRIVATE_ADDRESS, datum, IPC_BUFFER_ADDRESS, send],
     tk_delegated_capabilities = capabilities,
     tk_fault_route = None\<rparr>"

section \<open>The set-up\<close>

fun err_of :: "('a, 'e) res \<Rightarrow> 'e option" where
  "err_of (Err e) = Some e"
| "err_of _ = None"

text \<open>The capability of a slot is named by its number (\<open>from_bits\<close>).\<close>

definition exercise_setup ::
  "'k sel4 \<Rightarrow> bootinfo \<Rightarrow> usize \<Rightarrow> frame \<Rightarrow> ('k boot_state, task \<times> task, bootstrap_error) prog" where
  "exercise_setup K bi send code =
     pbind (bootstrap_allocate_notification K) (\<lambda>completion_one.
     pbind (bootstrap_allocate_notification K) (\<lambda>completion_two.
     pbind (pres (ok_or InvalidTaskConfiguration (checked_add (range_start (bi_empty_range bi)) 2))) (\<lambda>first_task_slot.
     pbind (pres (ok_or InvalidTaskConfiguration (checked_add first_task_slot 1))) (\<lambda>slot.
     pbind (pres (map_err (\<lambda>_. InvalidTaskConfiguration) (try_into_word slot))) (\<lambda>invalid_source.
     pbind (inspect (create_task K (test_config send code
         [delegated_new invalid_source COMPLETION_SLOT RightsWriteOnly 0] 0))) (\<lambda>refused.
     pbind (assert_that (err_of refused = Some CSpaceCreationFailed)) (\<lambda>_.
     pbind (create_task K (test_config send code
         [delegated_notification completion_one COMPLETION_SLOT] TASK_ONE_VALUE)) (\<lambda>task_one.
     pbind (create_task K (test_config send code
         [delegated_notification completion_two COMPLETION_SLOT] TASK_TWO_VALUE)) (\<lambda>task_two.
     pbind (assert_that (range_start (tsk_root_slots task_one) = first_task_slot)) (\<lambda>_.
     pbind (assert_that (cs_root (tsk_cspace task_one) \<noteq> cs_root (tsk_cspace task_two))) (\<lambda>_.
     pbind (assert_that (vs_root (tsk_vspace task_one) \<noteq> vs_root (tsk_vspace task_two))) (\<lambda>_.
     pret (task_one, task_two)))))))))))))"

text \<open>The assertions about values that need no kernel, further down; \<open>cnode\<close> is the initial CNode.\<close>

fun refused_length :: "('a, ipc_error) res \<Rightarrow> bool" where
  "refused_length (Err (MessageTooLong _ _)) = True"
| "refused_length _ = False"

fun refused_capabilities :: "('a, ipc_error) res \<Rightarrow> bool" where
  "refused_capabilities (Err (TooManyCapabilities _ _)) = True"
| "refused_capabilities _ = False"

fun refused_index :: "('a, ipc_error) res \<Rightarrow> bool" where
  "refused_index (Err (InvalidMessageIndex _ _)) = True"
| "refused_index _ = False"

definition exercise_values :: "'k sel4 \<Rightarrow> cptr \<Rightarrow> ('s, unit, bootstrap_error) prog" where
  "exercise_values K cnode =
     pbind (assert_that (badge_new 0 = Err ReservedZero)) (\<lambda>_.
     pbind (assert_that (refused_length (message_new K 0 (replicate (MESSAGE_CAPACITY K + 1) 0)))) (\<lambda>_.
     pbind (assert_that (refused_capabilities
       (message_with_capabilities K 0 [] (replicate (EXTRA_CAPACITY + 1) cnode)))) (\<lambda>_.
     pbind (pres (map_err (\<lambda>_. InvalidTaskConfiguration) (message_new K 0 [1]))) (\<lambda>one_word.
     assert_that (refused_index (message_word one_word 1))))))"

lemma exercise_values_pass:
  assumes "ipc_asserts K"
  shows "exercise_values K cnode s = (Ok (), s)"
proof -
  have some: "0 < MESSAGE_CAPACITY K" using assms by (simp add: ipc_asserts_def)
  then obtain m where m: "message_new K 0 [1] = Ok m" "msg_length m = 1"
    by (simp add: message_new_def message_with_capabilities_def message_empty_def copy_prefix_def
        Let_def)
  have "refused_length (message_new K 0 (replicate (MESSAGE_CAPACITY K + 1) 0))"
    "refused_capabilities (message_with_capabilities K 0 [] (replicate (EXTRA_CAPACITY + 1) cnode))"
    by (simp_all add: message_new_def message_with_capabilities_def)
  with m show ?thesis
    by (simp add: exercise_values_def assert_that_def pbind_def pres_def badge_new_def message_word_def)
qed

section \<open>Its steps\<close>

lemma test_layout:
  "layout_validate 4096 TASK_CODE_ADDRESS TASK_CODE_ADDRESS PRIVATE_ADDRESS STACK_ADDRESS IPC_BUFFER_ADDRESS [] =
     Ok \<lparr>tl_stack_pointer = 0x02002000\<rparr>"
  by (simp add: test_constants layout_validate_def ref_power check_pages.simps(2) is_multiple_of_def checked_add_def Let_def)

lemma test_acceptable:
  assumes "GRANULE_BYTES K = 4096" and "4 < WORD_SIZE K" and "0x02003000 \<le> kv_user_top V"
    and "kv_caps V (dc_source c) = Some (SignalCap 0)" and "dc_source c \<noteq> 0" and "dc_destination c = COMPLETION_SLOT"
    and "kv_caps V (frame_cap code) = Some (FrameCap x)" and "0 < kv_asids V"
  shows "acceptable K (test_config send code [c] datum) V"
proof -
  have "\<forall>a \<in> {0x01000000, 0x02000000, 0x02001000, 0x02002000}. a < kv_user_top V"
    using less_le_trans [OF _ assms(3)] by simp
  with assms test_layout show ?thesis
    by (auto simp: acceptable_def test_config_def delegations_ok_def test_constants)
qed

lemma notification_runs:
  assumes "obliging K bi B view room" and "inj (slot_cptr K)" and "{GranuleBp, EndpointBp, NotificationBp} \<subseteq> B"
    and "stands K bi B view room cp (Suc n) (Suc k) V (b, w)"
  shows "\<exists>a c v V'. bootstrap_allocate_notification K (b, w) = (Ok a, (c, v)) \<and>
    stands K bi B view room cp n k V' (c, v) \<and> grows V V' \<and> kv_caps V' (ntfn_cap a) = Some (SignalCap 0) \<and>
    ntfn_cap a = slot_cptr K (bootstrap_checkpoint b) \<and>
    unat (bootstrap_checkpoint c) = Suc (unat (bootstrap_checkpoint b))"
proof -
  from allocatesD [OF allocates_objects(4) [OF assms(1-3)] assms(4)] obtain a c v V' where
    run: "bootstrap_allocate_notification K (b, w) = (Ok a, (c, v))" and
    rest: "stands K bi B view room cp n k V' (c, v)" "grows V V'" "kv_caps V' (ntfn_cap a) = Some (SignalCap 0)"
    "ntfn_cap a = slot_cptr K (bootstrap_checkpoint b)" by (metis prod.exhaust fst_conv)
  from run obtain x where "bootstrap_allocate_object K NotificationBp (b, w) = (Ok x, (c, v))"
    by (auto simp: bootstrap_allocate_notification_def pmap_Ok)
  from advancesD [OF advances_allocations(2) this]
  have "unat (bootstrap_checkpoint c) = Suc (unat (bootstrap_checkpoint b))" by simp
  with run rest show ?thesis by blast
qed

text \<open>All configurations of the test have the same pages and objects.\<close>

lemma test_config_same:
  "task_pages (test_config send code caps datum) = task_pages (test_config send code [] 0)"
  "task_objects K (test_config send code caps datum) = task_objects K (test_config send code [] 0)"
  by (simp_all add: test_config_def task_objects_def)

lemma test_task_runs:
  fixes K :: "'k sel4" and send :: usize and code :: frame
  defines "p \<equiv> length (table_plan K (task_pages (test_config send code [] 0)))"
  assumes kernel: "obliging K bi B view room" and objects: "task_objects K (test_config send code [] 0) \<subseteq> B"
    and inj: "inj (slot_cptr K)" and levels: "levels_ok K" and ctxt: "context_wf (default_context K)"
    and geometry: "GRANULE_BYTES K = 4096" "4 < WORD_SIZE K" and top: "0x02003000 \<le> kv_user_top V"
    and cap: "kv_caps V (ntfn_cap n) = Some (SignalCap 0)" "ntfn_cap n \<noteq> 0"
    and code: "kv_caps V (frame_cap code) = Some (FrameCap x)" and asids: "0 < kv_asids V"
    and st: "stands K bi B view room (bootstrap_checkpoint b) (10 + p + m) (6 + p + k) V (b, w)"
  shows "\<exists>t c v V'. create_task K (test_config send code [delegated_notification n COMPLETION_SLOT] datum) (b, w) =
      (Ok t, (c, v)) \<and> stands K bi B view room (bootstrap_checkpoint c) m k V' (c, v) \<and> retains V V' \<and>
    kv_asids V = Suc (kv_asids V') \<and> kv_caps V' (cs_root (tsk_cspace t)) \<noteq> None \<and>
    kv_caps V' (vs_root (tsk_vspace t)) \<noteq> None \<and>
    kv_caps V (cs_root (tsk_cspace t)) = None \<and> kv_caps V (vs_root (tsk_vspace t)) = None \<and>
    tsk_root_slots t = \<lparr>range_start = bootstrap_checkpoint b, range_end = bootstrap_checkpoint c\<rparr>"
proof -
  let ?c = "delegated_notification n COMPLETION_SLOT"
  have c: "kv_caps V (dc_source ?c) = Some (SignalCap 0)" "dc_source ?c \<noteq> 0" "dc_destination ?c = COMPLETION_SLOT"
    using cap by (simp_all add: delegated_notification_def delegated_new_def)
  note config = test_acceptable [OF geometry top c code asids, of send datum]
  note same = test_config_same [where send = send and code = code and caps = "[?c]" and datum = datum]
  from create_task_runs [OF kernel _ inj levels ctxt config, unfolded same, OF objects st [unfolded p_def]]
  obtain t d v V' where run: "create_task K (test_config send code [?c] datum) (b, w) = (Ok t, (d, v))"
    and post: "stands K bi B view room (bootstrap_checkpoint d) m k V' (d, v)" "retains V V'" "kv_asids V = Suc (kv_asids V')"
      "task_ready K (test_config send code [?c] datum) t V'"
      "kv_caps V (cs_root (tsk_cspace t)) = None" "kv_caps V (vs_root (tsk_vspace t)) = None" by blast
  from post(4) have "kv_caps V' (cs_root (tsk_cspace t)) \<noteq> None" "kv_caps V' (vs_root (tsk_vspace t)) \<noteq> None"
    by (simp_all add: task_ready_def aspace_def)
  with run post create_task_slots [OF run] show ?thesis by blast
qed

text \<open>The task that asks for an absent capability.\<close>

lemma test_task_refused:
  assumes kernel: "obliging K bi B view room" and objects: "task_objects K (test_config send code [] 0) \<subseteq> B"
    and inj: "inj (slot_cptr K)" and laws: "clears K view room" "needs_source K view room"
    and geometry: "GRANULE_BYTES K = 4096" "4 < WORD_SIZE K"
    and st: "stands K bi B view room (bootstrap_checkpoint b) (Suc n) (Suc k) V (b, w)"
    and absent: "kv_caps V source = None" "source \<noteq> slot_cptr K (bootstrap_checkpoint b)" "source \<noteq> 0"
  shows "\<exists>u V'. create_task K (test_config send code [delegated_new source COMPLETION_SLOT RightsWriteOnly 0] 0) (b, w) =
      (Err CSpaceCreationFailed, (b, u)) \<and>
    stands K bi B view room (bootstrap_checkpoint b) (Suc n) k V' (b, u) \<and>
    kv_caps V' = kv_caps V \<and> kv_asids V' = kv_asids V \<and> kv_user_top V' = kv_user_top V"
proof (rule absent_task [OF kernel inj _ laws(2,1) _ st, where caps = "[]"])
  let ?c = "delegated_new source COMPLETION_SLOT RightsWriteOnly 0"
  let ?config = "test_config send code [?c] 0"
  show "CNodeBp (tk_cspace_size_bits ?config) \<in> B"
    using objects by (auto simp: task_objects_def test_config_def)
  show "layout_validate (GRANULE_BYTES K) (sc_address (tk_code ?config)) (sc_entry (tk_code ?config))
      (tk_private_memory_address ?config) (tk_stack_address ?config) (tk_ipc_buffer_address ?config)
      (tk_reserved_pages ?config) = Ok \<lparr>tl_stack_pointer = 0x02002000\<rparr>"
    using test_layout geometry(1) by (simp add: test_config_def)
  show "delegations_ok K (tk_cspace_size_bits ?config) [?c]"
    using geometry(2) absent(3) by (simp add: delegations_ok_def test_config_def delegated_new_def COMPLETION_SLOT_def)
qed (use absent in \<open>simp_all add: test_config_def delegated_new_def\<close>)

text \<open>The slot after the next one is a free one as well.\<close>

lemma stands_slots:
  assumes "stands K bi B view room cp n k V (b, w)" and "0 < m" "m < n"
  shows "bootstrap_checkpoint b < bootstrap_checkpoint b + of_nat m \<and>
    bootstrap_checkpoint b + of_nat m < fs_end (bt_slots b) \<and>
    kv_caps V (slot_cptr K (bootstrap_checkpoint b + of_nat m)) = None"
proof -
  let ?i = "fs_start (bt_slots b)"
  from assms(1) have fit: "unat ?i + n \<le> unat (fs_end (bt_slots b))"
    and empty: "\<And>i. ?i \<le> i \<Longrightarrow> i < fs_end (bt_slots b) \<Longrightarrow> kv_caps V (slot_cptr K i) = None"
    by (simp_all add: stands_def)
  have "unat (fs_end (bt_slots b)) < 2 ^ LENGTH(64)" by (rule unsigned_less)
  with fit assms(3) have "unat (?i + of_nat m) = unat ?i + m"
    by (simp add: unat_word_ariths unsigned_of_nat take_bit_eq_mod)
  then have "?i < ?i + of_nat m" "?i + of_nat m < fs_end (bt_slots b)"
    using fit assms(2,3) by (simp_all add: word_less_nat_alt)
  moreover from this have "?i \<le> ?i + of_nat m" by simp
  ultimately show ?thesis using empty by (simp add: bootstrap_checkpoint_def free_slots_checkpoint_def)
qed

lemma next_slots:
  assumes "stands K bi B view room cp n k V (b, w)" and "1 < n"
    and "unat (bootstrap_checkpoint b) = Suc (Suc (unat i))" and ids: "\<And>i. slot_cptr K i = i"
  shows "checked_add i 2 = Some (bootstrap_checkpoint b)"
    and "checked_add (bootstrap_checkpoint b) 1 = Some (bootstrap_checkpoint b + 1)"
    and "kv_caps V (bootstrap_checkpoint b + 1) = None"
    and "bootstrap_checkpoint b + 1 \<noteq> slot_cptr K (bootstrap_checkpoint b)" and "bootstrap_checkpoint b + 1 \<noteq> 0"
proof -
  have "unat (bootstrap_checkpoint b) < 2 ^ LENGTH(64)" by (rule unsigned_less)
  with assms(3) show "checked_add i 2 = Some (bootstrap_checkpoint b)"
    by (simp add: checked_add_def word_unat_eq_iff unat_word_ariths)
  from stands_slots [OF assms(1), of 1] assms(2)
  have next_slot: "bootstrap_checkpoint b < bootstrap_checkpoint b + 1" "kv_caps V (bootstrap_checkpoint b + 1) = None"
    by (simp_all add: ids)
  then show "checked_add (bootstrap_checkpoint b) 1 = Some (bootstrap_checkpoint b + 1)"
    by (simp add: checked_add_def word_less_nat_alt unat_word_ariths)
  show "kv_caps V (bootstrap_checkpoint b + 1) = None" by (rule next_slot(2))
  show "bootstrap_checkpoint b + 1 \<noteq> slot_cptr K (bootstrap_checkpoint b)" "bootstrap_checkpoint b + 1 \<noteq> 0"
    using next_slot(1) ids by auto
qed

lemma notifications_run:
  assumes kernel: "obliging K bi B view room" "{GranuleBp, EndpointBp, NotificationBp} \<subseteq> B" and ids: "\<And>i. slot_cptr K i = i"
    and start: "0 < bootstrap_checkpoint b"
    and st: "stands K bi B view room (bootstrap_checkpoint b) (Suc (Suc n)) (Suc (Suc k)) V (b, w)"
  shows "\<exists>c1 c2 b1 b2 w1 w2 V2. bootstrap_allocate_notification K (b, w) = (Ok c1, (b1, w1)) \<and>
    bootstrap_allocate_notification K (b1, w1) = (Ok c2, (b2, w2)) \<and> grows V V2 \<and>
    (\<forall>c \<in> {c1, c2}. kv_caps V2 (ntfn_cap c) = Some (SignalCap 0) \<and> ntfn_cap c \<noteq> 0) \<and>
    unat (bootstrap_checkpoint b2) = Suc (Suc (unat (bootstrap_checkpoint b))) \<and>
    stands K bi B view room (bootstrap_checkpoint b2) n k V2 (b2, w2)"
proof -
  have inj: "inj (slot_cptr K)" by (simp add: inj_def ids)
  from notification_runs [OF kernel(1) inj kernel(2) st] obtain c1 b1 w1 V1 where
    one: "bootstrap_allocate_notification K (b, w) = (Ok c1, (b1, w1))" "grows V V1"
      "kv_caps V1 (ntfn_cap c1) = Some (SignalCap 0)" "ntfn_cap c1 = bootstrap_checkpoint b"
      "unat (bootstrap_checkpoint b1) = Suc (unat (bootstrap_checkpoint b))"
    and st1: "stands K bi B view room (bootstrap_checkpoint b) (Suc n) (Suc k) V1 (b1, w1)" using ids by auto
  from notification_runs [OF kernel(1) inj kernel(2) st1] obtain c2 b2 w2 V2 where
    two: "bootstrap_allocate_notification K (b1, w1) = (Ok c2, (b2, w2))" "grows V1 V2"
      "kv_caps V2 (ntfn_cap c2) = Some (SignalCap 0)" "ntfn_cap c2 = bootstrap_checkpoint b1"
      "unat (bootstrap_checkpoint b2) = Suc (Suc (unat (bootstrap_checkpoint b)))"
    and st2: "stands K bi B view room (bootstrap_checkpoint b) n k V2 (b2, w2)" using one(5) ids by auto
  have "\<forall>c \<in> {c1, c2}. kv_caps V2 (ntfn_cap c) = Some (SignalCap 0) \<and> ntfn_cap c \<noteq> 0"
    using grows_caps [OF two(2) one(3)] two(3,4) one(4,5) start by auto
  with one(1) two(1,5) grows_trans [OF one(2) two(2)] stands_anew [OF st2] show ?thesis by blast
qed

lemma test_tasks_run:
  fixes K :: "'k sel4" and send :: usize and code :: frame
  defines "p \<equiv> length (table_plan K (task_pages (test_config send code [] 0)))"
  assumes kernel: "obliging K bi B view room" and objects: "task_objects K (test_config send code [] 0) \<subseteq> B"
    and rest: "inj (slot_cptr K)" "levels_ok K" "context_wf (default_context K)"
      "GRANULE_BYTES K = 4096" "4 < WORD_SIZE K" "0x02003000 \<le> kv_user_top V"
    and caps: "\<forall>c \<in> {c1, c2}. kv_caps V (ntfn_cap c) = Some (SignalCap 0) \<and> ntfn_cap c \<noteq> 0"
    and code: "kv_caps V (frame_cap code) = Some (FrameCap x)" and asids: "2 \<le> kv_asids V"
    and st: "stands K bi B view room (bootstrap_checkpoint b) (20 + 2 * p) (12 + 2 * p) V (b, w)"
  shows "\<exists>one two c v s. create_task K (test_config send code [delegated_notification c1 COMPLETION_SLOT] i) (b, w) =
      (Ok one, (c, v)) \<and>
    create_task K (test_config send code [delegated_notification c2 COMPLETION_SLOT] j) (c, v) = (Ok two, s) \<and>
    cs_root (tsk_cspace one) \<noteq> cs_root (tsk_cspace two) \<and> vs_root (tsk_vspace one) \<noteq> vs_root (tsk_vspace two) \<and>
    range_start (tsk_root_slots one) = bootstrap_checkpoint b \<and>
    range_start (tsk_root_slots two) = range_end (tsk_root_slots one)"
proof -
  have caps': "kv_caps V (ntfn_cap c1) = Some (SignalCap 0)" "ntfn_cap c1 \<noteq> 0"
    "kv_caps V (ntfn_cap c2) = Some (SignalCap 0)" "ntfn_cap c2 \<noteq> 0" and "0 < kv_asids V"
    using caps asids by auto
  have st': "stands K bi B view room (bootstrap_checkpoint b) (10 + p + (10 + p)) (6 + p + (6 + p)) V (b, w)"
    using st by (simp add: eval_nat_numeral mult_2)
  from test_task_runs [OF kernel objects rest caps'(1,2) code \<open>0 < kv_asids V\<close> st' [unfolded p_def], of i]
  obtain one c v W where first: "create_task K (test_config send code [delegated_notification c1 COMPLETION_SLOT] i) (b, w) =
      (Ok one, (c, v))" "retains V W" "kv_asids V = Suc (kv_asids W)"
      "kv_caps W (cs_root (tsk_cspace one)) \<noteq> None" "kv_caps W (vs_root (tsk_vspace one)) \<noteq> None"
      "tsk_root_slots one = \<lparr>range_start = bootstrap_checkpoint b, range_end = bootstrap_checkpoint c\<rparr>"
    and st2: "stands K bi B view room (bootstrap_checkpoint c) (10 + p + 0) (6 + p + 0) W (c, v)"
    unfolding p_def by fastforce
  have "0x02003000 \<le> kv_user_top W" "kv_caps W (ntfn_cap c2) = Some (SignalCap 0)"
    "kv_caps W (frame_cap code) = Some (FrameCap x)" "0 < kv_asids W"
    using rest(6) caps'(3) code asids first(2,3) by (simp_all add: retains_def)
  from test_task_runs [OF kernel objects rest(1-5) this(1,2) caps'(4) this(3,4) st2 [unfolded p_def], of j]
  obtain two d z where "create_task K (test_config send code [delegated_notification c2 COMPLETION_SLOT] j) (c, v) =
      (Ok two, (d, z))" "kv_caps W (cs_root (tsk_cspace two)) = None" "kv_caps W (vs_root (tsk_vspace two)) = None"
      "tsk_root_slots two = \<lparr>range_start = bootstrap_checkpoint c, range_end = bootstrap_checkpoint d\<rparr>" by fastforce
  with first(1,4-6) show ?thesis by fastforce
qed

section \<open>Properties\<close>

text \<open>
  C11. The integration scenario is set up as its assertions say: with a kernel that keeps the
  contract, deletes root capabilities on request and refuses to mint an absent one, with the root
  slots and memory the scenario takes, the task that asks for an absent capability is
  refused with \<open>CSpaceCreationFailed\<close> and undone, the slot it took is given to the first
  of the two tasks, which are both created, and their CSpaces and address spaces are different.
\<close>

theorem integration_set_up_passes:
  fixes K :: "'k sel4" and send :: usize and code :: frame
  defines "p \<equiv> length (table_plan K (task_pages (test_config send code [] 0)))"
  assumes "obliging K bi B view room" and "clears K view room" and "needs_source K view room"
    and "{GranuleBp, EndpointBp, NotificationBp} \<union> task_objects K (test_config send code [] 0) \<subseteq> B"
    and "\<And>i. slot_cptr K i = i" and "levels_ok K" and "context_wf (default_context K)"
    and "GRANULE_BYTES K = 4096" and "4 < WORD_SIZE K" and "0x02003000 \<le> kv_user_top V"
    and "kv_caps V (frame_cap code) = Some (FrameCap x)" and "2 \<le> kv_asids V"
    and "bootstrap_new bi = Ok b" and "0 < range_start (bi_empty_range bi)"
    and "stands K bi B view room (bootstrap_checkpoint b) (22 + 2 * p) (15 + 2 * p) V (b, w)"
  shows "\<exists>one two s. exercise_setup K bi send code (b, w) = (Ok (one, two), s) \<and>
    unat (range_start (tsk_root_slots one)) = unat (range_start (bi_empty_range bi)) + 2 \<and>
    range_start (tsk_root_slots two) = range_end (tsk_root_slots one)"
proof -
  note kernel = assms(2) and ids = assms(6)
  have inj: "inj (slot_cptr K)" by (simp add: inj_def ids)
  have objects: "{GranuleBp, EndpointBp, NotificationBp} \<subseteq> B" "task_objects K (test_config send code [] 0) \<subseteq> B"
    using assms(5) by auto
  from assms(14) have start: "bootstrap_checkpoint b = range_start (bi_empty_range bi)"
    by (auto simp: bootstrap_new_def bootstrap_checkpoint_def free_slots_checkpoint_def free_slots_new_def split: if_splits)
  have "stands K bi B view room (bootstrap_checkpoint b) (Suc (Suc (20 + 2 * p))) (Suc (Suc (13 + 2 * p))) V (b, w)"
    using assms(16) by (simp add: eval_nat_numeral)
  from notifications_run [OF kernel objects(1) ids _ this] assms(15) start obtain c1 c2 b1 b2 w1 w2 V2 where
    signals: "bootstrap_allocate_notification K (b, w) = (Ok c1, (b1, w1))"
      "bootstrap_allocate_notification K (b1, w1) = (Ok c2, (b2, w2))" "grows V V2"
      "\<forall>c \<in> {c1, c2}. kv_caps V2 (ntfn_cap c) = Some (SignalCap 0) \<and> ntfn_cap c \<noteq> 0"
      "unat (bootstrap_checkpoint b2) = Suc (Suc (unat (bootstrap_checkpoint b)))"
    and st2: "stands K bi B view room (bootstrap_checkpoint b2) (20 + 2 * p) (13 + 2 * p) V2 (b2, w2)" by auto
  let ?source = "bootstrap_checkpoint b2 + 1"
  have "1 < 20 + 2 * p" "unat (bootstrap_checkpoint b2) = Suc (Suc (unat (range_start (bi_empty_range bi))))"
    using signals(5) by (simp_all add: start)
  note next_slots = next_slots [OF st2 this ids]
  have st2': "stands K bi B view room (bootstrap_checkpoint b2) (Suc (19 + 2 * p)) (Suc (12 + 2 * p)) V2 (b2, w2)"
    using st2 by (simp add: eval_nat_numeral)
  from test_task_refused [OF kernel objects(2) inj assms(3,4,9,10) st2' next_slots(3-5)] obtain w3 V3 where
    refused: "create_task K (test_config send code [delegated_new ?source COMPLETION_SLOT RightsWriteOnly 0] 0) (b2, w2) =
      (Err CSpaceCreationFailed, (b2, w3))"
    and st3: "stands K bi B view room (bootstrap_checkpoint b2) (Suc (19 + 2 * p)) (12 + 2 * p) V3 (b2, w3)"
    and V3: "kv_caps V3 = kv_caps V2" "kv_asids V3 = kv_asids V2" "kv_user_top V3 = kv_user_top V2" by blast
  have st3': "stands K bi B view room (bootstrap_checkpoint b2) (20 + 2 * p) (12 + 2 * p) V3 (b2, w3)"
    using st3 by (simp add: eval_nat_numeral)
  have held: "0x02003000 \<le> kv_user_top V3" "kv_caps V3 (frame_cap code) = Some (FrameCap x)" "2 \<le> kv_asids V3"
    "\<forall>c \<in> {c1, c2}. kv_caps V3 (ntfn_cap c) = Some (SignalCap 0) \<and> ntfn_cap c \<noteq> 0"
    using grows_caps [OF signals(3) assms(12)] signals(3,4) assms(11,13) V3 by (simp_all add: grows_def retains_def)
  from test_tasks_run [OF kernel objects(2) inj assms(7-10) held(1,4,2,3) st3' [unfolded p_def], of TASK_ONE_VALUE TASK_TWO_VALUE]
  obtain one two c v s where tasks: "create_task K (test_config send code [delegated_notification c1 COMPLETION_SLOT] TASK_ONE_VALUE)
      (b2, w3) = (Ok one, (c, v))"
    "create_task K (test_config send code [delegated_notification c2 COMPLETION_SLOT] TASK_TWO_VALUE) (c, v) = (Ok two, s)"
    "cs_root (tsk_cspace one) \<noteq> cs_root (tsk_cspace two)" "vs_root (tsk_vspace one) \<noteq> vs_root (tsk_vspace two)"
    "range_start (tsk_root_slots one) = bootstrap_checkpoint b2"
    "range_start (tsk_root_slots two) = range_end (tsk_root_slots one)" by auto
  have "exercise_setup K bi send code (b, w) = (Ok (one, two), s)"
    using signals(1,2) next_slots(1,2) refused tasks
    by (simp add: exercise_setup_def pbind_def pres_def pret_def inspect_def assert_that_def try_into_word_def)
  with tasks(5,6) signals(5) start show ?thesis by simp
qed

lemma view_sel4_clears: "clears view_sel4 fst snd"
  by (auto simp: clears_def dropped_def view_sel4_def act_def fun_eq_iff)

lemma view_sel4_needs_source: "needs_source view_sel4 fst snd"
  by (auto simp: needs_source_def view_sel4_def act_def can_mint_def)

theorem integration_set_up_passes_witness:
  "\<exists>one two s. exercise_setup view_sel4 (ref_bootinfo 100 130) 1 (Frame 7) (ref_boot 100 130, view_world) = (Ok (one, two), s)"
proof -
  let ?config = "test_config 1 (Frame 7) [] 0"
  let ?B = "{GranuleBp, EndpointBp, NotificationBp} \<union> task_objects view_sel4 ?config"
  have plan: "length (table_plan view_sel4 (task_pages ?config)) = 4"
    by (simp add: table_plan_def view_sel4_def ref_sel4_def test_config_def test_constants upt_conv_Cons)
  have suits: "\<forall>bp \<in> ?B. suitable view_sel4 bp \<lparr>ud_is_device = False, ud_size_bits = 30\<rparr>"
    by (auto simp: task_objects_def suitable_def view_sel4_def ref_sel4_def test_config_def)
  have b: "bootstrap_new (ref_bootinfo 100 130) = Ok (ref_boot 100 130)" "0 < range_start (bi_empty_range (ref_bootinfo 100 130))"
    by (simp_all add: bootstrap_new_def ref_bootinfo_def ref_boot_def)
  have geometry: "\<And>i. slot_cptr view_sel4 i = i" "GRANULE_BYTES view_sel4 = 4096" "4 < WORD_SIZE view_sel4"
    by (simp_all add: view_sel4_def)
  have start: "0x02003000 \<le> kv_user_top view_start" "kv_caps view_start (frame_cap (Frame 7)) = Some (FrameCap False)"
    "2 \<le> kv_asids view_start" by (simp_all add: view_start_def)
  have "stands view_sel4 (ref_bootinfo 100 130) ?B fst snd (bootstrap_checkpoint (ref_boot 100 130)) (22 + 2 * 4) (15 + 2 * 4)
      view_start (ref_boot 100 130, view_world)"
    using view_stands_for [of 130 30 23, OF _ _ suits] by (simp add: stands_def ref_boot_def)
  from integration_set_up_passes [OF view_sel4_obliging view_sel4_clears view_sel4_needs_source order_refl geometry(1)
      view_basics(2,3) geometry(2,3) start b, of 1, unfolded plan, OF this] show ?thesis by blast
qed

end
