(* ===== verification/Fault_Recovery.thy ===== *)
theory Fault_Recovery
  imports Provision Unit_Tests
begin

text \<open>
  Recovery from a page fault, as \<open>tests/root-task/main.rs\<close> does it: a fault endpoint delivers the
  fault, the bootstrap allocates a frame, the task maps it at the missing page, and the fault is
  answered. The reply comes last and only after the mapping; under the contract of the kernel it
  does come.
\<close>

section \<open>The handler\<close>

definition recover_page ::
  "'k sel4 \<Rightarrow> fault_endpoint \<Rightarrow> task \<Rightarrow> received_fault \<Rightarrow> usize \<Rightarrow> ('k boot_state, task_mapping, bootstrap_error) prog" where
  "recover_page K ep t received address =
     pbind (bootstrap_allocate_frame K) (\<lambda>frame.
     pbind (task_map_recovery_frame K t (Frame frame) address) (\<lambda>mapping.
     pbind (assert_that (range_end (tsk_root_slots t) \<le> tm_root_slot mapping)) (\<lambda>_.
     pbind (on_world (fault_endpoint_reply K ep received)) (\<lambda>_.
     pret mapping))))"

section \<open>Construction does not touch pending replies\<close>

definition same_flags :: "'k world \<Rightarrow> 'k world \<Rightarrow> bool" where
  "same_flags w v \<longleftrightarrow> flag_cells v = flag_cells w"

definition same_flags_in :: "'a \<times> 'k world \<Rightarrow> 'a \<times> 'k world \<Rightarrow> bool" where
  "same_flags_in s t \<longleftrightarrow> same_flags (snd s) (snd t)"

interpretation same_flags: step_order same_flags
  by unfold_locales (simp_all add: same_flags_def)

interpretation same_flags_in: step_order same_flags_in
  by unfold_locales (simp_all add: same_flags_in_def same_flags_def)

lemma flags_syscall: "keeps same_flags (syscall f)"
  by (auto simp: keeps_def same_flags_def syscall_def split: prod.splits)

lemma flags_on_world: "keeps same_flags m \<Longrightarrow> keeps same_flags_in (on_world m)"
  by (auto simp: keeps_def same_flags_in_def on_world_def split: prod.splits) (metis snd_conv)

lemma flags_on_slots: "keeps same_flags_in m \<Longrightarrow> keeps same_flags_in (on_slots m)"
  by (auto simp: keeps_def same_flags_in_def on_slots_def split: prod.splits) (metis snd_conv)

lemma flags_try_allocate:
  assumes "\<And>i. keeps same_flags (create i)"
  shows "keeps same_flags_in (free_slots_try_allocate create)"
proof (rule keepsI)
  fix s t :: "free_slots \<times> 'a world" and r
  assume run: "free_slots_try_allocate create s = (r, t)"
  obtain f w g v where st: "s = (f, w)" "t = (g, v)" by fastforce
  obtain x u where "create (fs_start f) w = (x, u)" by fastforce
  with run st keepsD [OF assms this] show "same_flags_in s t"
    by (cases x) (auto simp: try_allocate_cases same_flags_in_def same_flags.R_refl split: if_splits)
qed

lemma flags_retype: "keeps same_flags (retype_candidates K bi bp slot ds)"
proof (induction ds)
  case Nil
  show ?case by (simp add: keeps_def same_flags_def)
next
  case (Cons x ds)
  obtain i d where x: "x = (i, d)" by fastforce
  have "same_flags w v" if run: "retype_candidates K bi bp slot (x # ds) w = (r, v)" for w r v
  proof -
    obtain y u where att: "retype_into K bi bp slot i w = (y, u)" by fastforce
    from keepsD [OF flags_syscall att] keepsD [OF Cons.IH] run att x show ?thesis
      by (auto simp: retype_candidates_Cons same_flags_def split: if_splits res.splits sel4_error.splits)
  qed
  then show ?case by (rule keepsI)
qed

lemma flags_allocate_frame: "keeps same_flags_in (bootstrap_allocate_frame K)"
proof -
  have "keeps same_flags_in (on_slots (object_allocate K bi GranuleBp))" for bi
    unfolding object_allocate_def object_allocate_blueprint_def
    by (intro flags_on_slots same_flags_in.keeps_intros flags_try_allocate flags_retype)
  then show ?thesis
    by (auto simp: bootstrap_allocate_frame_def keeps_def)
qed

lemma flags_map_frame: "keeps same_flags_in (vspace_map_frame K vs f a rights)"
proof -
  have copy: "keeps same_flags_in (bootstrap_copy_cap K c r)" for c r
    unfolding bootstrap_copy_cap_def copy_to_root_def
    by (intro flags_on_slots same_flags_in.keeps_intros same_flags.keeps_intros flags_try_allocate flags_syscall)
  show ?thesis
    unfolding vspace_map_frame_def
    by (auto intro!: same_flags_in.keeps_intros same_flags.keeps_intros copy flags_on_world flags_syscall)
qed

lemma flags_rollback: "keeps same_flags_in (bootstrap_rollback K cp)"
proof -
  have "keeps same_flags (delete_root_slots K slots)" for slots
    unfolding delete_root_slots_def by (intro same_flags.keeps_intros flags_syscall)
  moreover have "keeps same_flags_in (\<lambda>(b, w). (bootstrap_committed_slots b cp, (b, w)))"
    by (simp add: keeps_def same_flags_in_def same_flags_def)
  ultimately show ?thesis
    unfolding bootstrap_rollback_def
    by (intro same_flags_in.keeps_pbind flags_on_world) (auto simp: keeps_def same_flags_in_def same_flags_def split: prod.splits)
qed

lemma flags_map_recovery: "keeps same_flags_in (task_map_recovery_frame K t f a)"
proof (rule keepsI)
  fix s u :: "'a boot_state" and r
  assume run: "task_map_recovery_frame K t f a s = (r, u)"
  obtain b w where s: "s = (b, w)" by fastforce
  obtain x y where map: "vspace_map_frame K (tsk_vspace t) f a RightsReadWrite (b, w) = (x, y)" by (metis prod.exhaust)
  note here = keepsD [OF flags_map_frame map]
  have since: "keeps same_flags_in (committed_since cp)" for cp
    by (auto simp: keeps_def committed_since_def same_flags_in_def same_flags_def)
  have ok: "keeps same_flags_in (pbind (committed_since cp) (\<lambda>slots.
      pbind (pres (ok_or RollbackFailed (single_slot slots))) (\<lambda>root_slot. pret \<lparr>tm_mapping = m, tm_root_slot = root_slot\<rparr>)))" for cp m
    by (intro same_flags_in.keeps_intros since)
  have failed: "keeps same_flags_in (pbind (bootstrap_rollback K cp) (\<lambda>_. pfail e))" for cp and e :: bootstrap_error
    by (intro same_flags_in.keeps_intros flags_rollback)
  have "same_flags_in y u"
  proof (cases x)
    case (Ok m)
    with run map s show ?thesis
      by (intro keepsD [OF ok]) (simp add: task_map_recovery_frame_def Let_def)
  next
    case (Err e)
    with run map s show ?thesis
      by (intro keepsD [OF failed]) (simp add: task_map_recovery_frame_def Let_def)
  next
    case Panic
    with run map s show ?thesis by (simp add: task_map_recovery_frame_def Let_def same_flags_in.R_refl)
  qed
  with here s show "same_flags_in s u" by (auto intro: same_flags_in.R_trans)
qed

section \<open>The answer\<close>

lemma empty_reply_runs:
  "\<exists>v. fault_endpoint_reply K ep f w = (Ok () :: (unit, 'e) res, v) \<and> mach v = snd (sys_reply K (default_info K) (mach w)) \<and>
     flag_cells v = (flag_cells w)(ep_pending (rm_endpoint (rf_received f)) := False)"
proof -
  have "message_prepare K (message_empty_reply K) w = (Ok (default_info K) :: (msg_info, 'e) res, w)"
    by (simp add: message_prepare_def message_empty_reply_def message_empty_def message_words_def slice_to_def
        copy_prefix_def set_buf_def default_info_def)
  moreover obtain m where "sys_reply K (default_info K) (mach w) = ((), m)"
    by (cases "sys_reply K (default_info K) (mach w)") auto
  ultimately show ?thesis
    by (simp add: fault_endpoint_reply_def received_message_reply_def pbind_def invoke_def pmodify_def set_flag_def)
qed

text \<open>A run of the handler, step by step.\<close>

lemma recover_cases:
  assumes f: "rm_endpoint (rf_received f) = fe_endpoint ep" and run: "recover_page K ep t f a (b, w) = (r, (c, v))"
  shows "case r of
      Ok m \<Rightarrow> (\<exists>frame s u. bootstrap_allocate_frame K (b, w) = (Ok frame, s) \<and>
        task_map_recovery_frame K t (Frame frame) a s = (Ok m, (c, u)) \<and>
        mach v = snd (sys_reply K (default_info K) (mach u))) \<and> \<not> flag_cells v (ep_pending (fe_endpoint ep))
    | _ \<Rightarrow> flag_cells v = flag_cells w"
proof -
  obtain x s where alloc: "bootstrap_allocate_frame K (b, w) = (x, s)" by (metis prod.exhaust)
  have s: "flag_cells (snd s) = flag_cells w"
    using keepsD [OF flags_allocate_frame alloc] by (simp add: same_flags_in_def same_flags_def)
  show ?thesis
  proof (cases x)
    case (Ok frame)
    obtain y d u where map: "task_map_recovery_frame K t (Frame frame) a s = (y, (d, u))" by (metis prod.exhaust)
    have u: "flag_cells u = flag_cells w"
      using keepsD [OF flags_map_recovery map] s by (simp add: same_flags_in_def same_flags_def)
    show ?thesis
    proof (cases y)
      case m: (Ok m)
      from empty_reply_runs [where 'e = bootstrap_error, of K ep f u] f obtain z where
        z: "fault_endpoint_reply K ep f u = (Ok () :: (unit, bootstrap_error) res, z)" "mach z = snd (sys_reply K (default_info K) (mach u))"
        "\<not> flag_cells z (ep_pending (fe_endpoint ep))" by auto
      show ?thesis
        using run alloc map z m Ok u
        by (auto simp: recover_page_def pbind_def assert_that_def pres_def pret_def on_world_def split: if_splits)
    qed (use run alloc map Ok u in \<open>auto simp: recover_page_def pbind_def\<close>)
  qed (use run alloc s in \<open>auto simp: recover_page_def pbind_def\<close>)
qed

section \<open>A kernel that reports a page fault\<close>

text \<open>The kernel of the contract, with the fault of a thread at \<open>0x200000\<close> waiting at every endpoint.\<close>

definition page_fault :: vm_fault where
  "page_fault = \<lparr>vm_instruction_pointer = 0x1000, vm_address = 0x200000, vm_instruction_fault = False, vm_syndrome = 9\<rparr>"

definition page_fault_recv :: "cptr \<Rightarrow> 'k machine \<Rightarrow> (msg_info \<times> u64) \<times> 'k machine" where
  "page_fault_recv c m = ((\<lparr>mi_label = 5, mi_caps_unwrapped = 0, mi_extra_caps = 0, mi_length = 4\<rparr>, 7),
     m\<lparr>ipcbuf := (ipcbuf m)\<lparr>msg_regs := [0x1000, 0x200000, 0, 9]\<rparr>\<rparr>)"

definition fault_sel4 :: "view_kernel sel4" where
  "fault_sel4 = view_sel4\<lparr>ep_recv := page_fault_recv\<rparr>"

lemma fault_geometry:
  "region fault_sel4 = region view_sel4" "covered fault_sel4 = covered view_sel4"
  "can_map_table fault_sel4 = can_map_table view_sel4" "mapped_table fault_sel4 = mapped_table view_sel4"
  "can_map_frame fault_sel4 = can_map_frame view_sel4" "can_configure fault_sel4 = can_configure view_sel4"
  "suitable fault_sel4 = suitable view_sel4" "levels_ok fault_sel4 = levels_ok view_sel4"
  "table_plan fault_sel4 = table_plan view_sel4" "delegations_ok fault_sel4 = delegations_ok view_sel4"
  "task_objects fault_sel4 = task_objects view_sel4" "acceptable fault_sel4 = acceptable view_sel4"
  "slot_cptr fault_sel4 = slot_cptr view_sel4" "default_context fault_sel4 = default_context view_sel4"
  by (simp_all add: region_def covered_def can_map_table_def mapped_table_def can_map_frame_def can_configure_def
      suitable_def levels_ok_def table_plan_def delegations_ok_def task_objects_def acceptable_def fault_sel4_def fun_eq_iff)

lemma fault_sel4_obliging: "obliging fault_sel4 bi B fst snd"
  using view_sel4_obliging [of bi B] unfolding obliging_def fault_geometry by (simp add: fault_sel4_def)

lemma fault_basics: "inj (slot_cptr fault_sel4)" "levels_ok fault_sel4" "context_wf (default_context fault_sel4)"
  unfolding fault_geometry by (rule view_basics)+

abbreviation page_fault_endpoint :: fault_endpoint where
  "page_fault_endpoint \<equiv> \<lparr>fe_endpoint = \<lparr>ep_cap = 10, ep_pending = 0\<rparr>\<rparr>"

lemma page_fault_received:
  assumes "\<not> flag_cells w 0"
  shows "\<exists>f v. fault_endpoint_receive fault_sel4 page_fault_endpoint w = (Ok f, v) \<and>
    rf_fault f = VmFault page_fault \<and> kstate (mach v) = kstate (mach w)"
proof -
  have "ep_recv fault_sel4 = page_fault_recv" "NUM_MESSAGE_REGISTERS fault_sel4 = 4"
    by (simp_all add: fault_sel4_def view_sel4_def)
  with assms show ?thesis
    by (simp add: fault_endpoint_receive_def pmap_err_def pbind_def receive_run configure_receive_path_def
        pmodify_def page_fault_recv_def deliver_run slot_ready_def slot_done_def message_received_def
        MESSAGE_CAPACITY_def EXTRA_CAPACITY_def message_empty_def slice_to_def copy_prefix_def set_buf_def
        set_flag_def badge_ok_def badge_new_def message_words_def fault_decode_def decode_vm_fault_def
        expect_length_def register_at_def decode_boolean_def pres_def pret_def Let_def page_fault_def)
qed

text \<open>A task is created there, and the fault arrives.\<close>

lemma page_fault_scene:
  "\<exists>t b w0 w f V. stands fault_sel4 (bt_bootinfo (ref_boot 100 116)) view_objects fst snd (bootstrap_checkpoint b) 2 1 V (b, w) \<and>
     task_ready fault_sel4 view_config t V \<and> range_end (tsk_root_slots t) = bootstrap_checkpoint b \<and>
     fault_endpoint_receive fault_sel4 page_fault_endpoint w0 = (Ok f, w) \<and> rf_fault f = VmFault page_fault"
proof -
  have start: "acceptable fault_sel4 view_config view_start" unfolding fault_geometry
    by (rule view_acceptable [OF retains_refl]) (simp add: view_start_def)
  have plan: "length (table_plan fault_sel4 (task_pages view_config)) = 4" using view_plan by (simp add: fault_geometry)
  have objects: "task_objects fault_sel4 view_config \<subseteq> view_objects" using view_objects_in by (simp add: fault_geometry)
  have "stands fault_sel4 (bt_bootinfo (ref_boot 100 116)) view_objects fst snd (bootstrap_checkpoint (ref_boot 100 116))
      16 11 view_start (ref_boot 100 116, view_world)"
    using view_stands [of 116 16 11] by (simp add: stands_def fault_geometry)
  then obtain t b w V where run: "create_task fault_sel4 view_config (ref_boot 100 116, view_world) = (Ok t, (b, w))"
    and st: "stands fault_sel4 (bt_bootinfo (ref_boot 100 116)) view_objects fst snd (bootstrap_checkpoint b) 2 1 V (b, w)"
    and ready: "task_ready fault_sel4 view_config t V"
    using create_task_runs [OF fault_sel4_obliging objects fault_basics start, unfolded plan, where n = 2 and k = 1]
    by fastforce
  let ?w = "w\<lparr>flag_cells := (\<lambda>_. False)\<rparr>"
  from page_fault_received [of ?w] obtain f v where
    f: "fault_endpoint_receive fault_sel4 page_fault_endpoint ?w = (Ok f, v)" "rf_fault f = VmFault page_fault"
    "kstate (mach v) = kstate (mach w)" by auto
  from stands_seen [OF st, of v] f(3)
  have "stands fault_sel4 (bt_bootinfo (ref_boot 100 116)) view_objects fst snd (bootstrap_checkpoint b) 2 1 V (b, v)" by simp
  moreover have "range_end (tsk_root_slots t) = bootstrap_checkpoint b" using create_task_slots [OF run] by simp
  ultimately show ?thesis using ready f(1,2) by blast
qed

section \<open>Properties\<close>

text \<open>
  C14. A fault is answered only when it is repaired: if the handler of a received fault returns a
  mapping, then the frame was allocated, it was mapped at the missing page, and after that
  the faulting thread was sent one empty reply, so the endpoint is open again; if it fails, at
  whichever step, nothing was answered, the fault is still outstanding and the endpoint accepts
  no other.
\<close>

theorem answered_only_when_repaired:
  assumes "fault_endpoint_receive K ep w0 = (Ok f, w)" and "recover_page K ep t f a (b, w) = (r, (c, v))"
  shows "case r of
      Ok m \<Rightarrow> (\<exists>frame s u. bootstrap_allocate_frame K (b, w) = (Ok frame, s) \<and>
          task_map_recovery_frame K t (Frame frame) a s = (Ok m, (c, u)) \<and>
          mach v = snd (sys_reply K (default_info K) (mach u))) \<and>
        fst (fault_endpoint_receive K ep v) \<noteq> Err (FaultIpc ReplyPending)
    | _ \<Rightarrow> fst (fault_endpoint_receive K ep v) = Err (FaultIpc ReplyPending)"
proof -
  from fault_receive_outcome [OF assms(1)] have "flag_cells w (ep_pending (fe_endpoint ep))"
    and ep: "rm_endpoint (rf_received f) = fe_endpoint ep" by (simp_all add: fault_contract_def)
  with recover_cases [OF ep assms(2)] show ?thesis by (simp add: fault_refused_iff split: res.splits)
qed

theorem answered_only_when_repaired_witness:
  "\<exists>w0 w f t b r c v. fault_endpoint_receive fault_sel4 page_fault_endpoint w0 = (Ok f, w) \<and>
     recover_page fault_sel4 page_fault_endpoint t f 0x200000 (b, w) = (r, (c, v)) \<and>
     ((\<exists>m. r = Ok m) \<longleftrightarrow> fst (fault_endpoint_receive fault_sel4 page_fault_endpoint v) \<noteq> Err (FaultIpc ReplyPending))"
proof -
  from page_fault_scene obtain t :: task and b :: bootstrap and w0 w f where
    f: "fault_endpoint_receive fault_sel4 page_fault_endpoint w0 = (Ok f, w)" by blast
  obtain r c v where run: "recover_page fault_sel4 page_fault_endpoint t f 0x200000 (b, w) = (r, (c, v))"
    by (metis prod.exhaust)
  from answered_only_when_repaired [OF f run]
  have "(\<exists>m. r = Ok m) \<longleftrightarrow> fst (fault_endpoint_receive fault_sel4 page_fault_endpoint v) \<noteq> Err (FaultIpc ReplyPending)"
    by (cases r) simp_all
  with f run show ?thesis by blast
qed

text \<open>
  C13. Recovery completes: under the contract of the kernel, and if answering a thread takes
  no capability or memory away, a page fault of a task at a reserved page that is still missing
  is repaired and answered, with two root slots and memory for one frame: the page is then mapped,
  nothing else of the address space changed, and the endpoint receives the next fault.
\<close>

theorem fault_recovery_completes:
  assumes "obliging K bi B view room" and "inj (slot_cptr K)" and "GranuleBp \<in> B"
    and "\<And>info m. view (kstate (snd (sys_reply K info m))) = view (kstate m) \<and>
      room (kstate (snd (sys_reply K info m))) = room (kstate m)"
    and "layout_validate (GRANULE_BYTES K) (sc_address (tk_code config)) (sc_entry (tk_code config))
      (tk_private_memory_address config) (tk_stack_address config) (tk_ipc_buffer_address config)
      (tk_reserved_pages config) = Ok l"
    and "fault_endpoint_receive K ep w0 = (Ok f, w)" and "rf_fault f = VmFault fault"
    and "vm_address fault \<in> set (tk_reserved_pages config) - A"
    and "aspace K (set (task_pages config)) (vs_root (tsk_vspace t)) A V"
    and "range_end (tsk_root_slots t) \<le> bootstrap_checkpoint b"
    and "stands K bi B view room (bootstrap_checkpoint b) (Suc (Suc n)) (Suc k) V (b, w)"
  shows "\<exists>m c v V'. recover_page K ep t f (vm_address fault) (b, w) = (Ok m, (c, v)) \<and>
    stands K bi B view room (bootstrap_checkpoint c) n k V' (c, v) \<and> grows V V' \<and>
    aspace K (set (task_pages config)) (vs_root (tsk_vspace t)) (insert (vm_address fault) A) V' \<and>
    fst (fault_endpoint_receive K ep v) \<noteq> Err (FaultIpc ReplyPending)"
proof -
  let ?a = "vm_address fault" and ?P = "set (task_pages config)" and ?vs = "vs_root (tsk_vspace t)"
  from assms(8) layout_reserved(3) [OF assms(5)] have a: "?a \<in> ?P" "?a \<notin> A" "is_multiple_of ?a (GRANULE_BYTES K)" by auto
  from frame_succeeds [OF assms(1-3,11,9)] obtain c b1 w1 V1 where
    frame: "bootstrap_allocate_frame K (b, w) = (Ok c, (b1, w1))" "kv_caps V1 (frame_cap (Frame c)) = Some (FrameCap False)"
    and st1: "stands K bi B view room (bootstrap_checkpoint b) (Suc n) k V1 (b1, w1)"
    and g1: "grows V V1" and a1: "aspace K ?P ?vs A V1" by (metis prod.exhaust frame.sel)
  from recovery_runs [OF assms(1,2) stands_anew [OF st1] a1 frame(2) a] obtain m b2 w2 V2 where
    map: "task_map_recovery_frame K t (Frame c) ?a (b1, w1) = (Ok m, (b2, w2))" "tm_root_slot m = bootstrap_checkpoint b1"
    and st2: "stands K bi B view room (bootstrap_checkpoint b1) n k V2 (b2, w2)"
    and g2: "grows V1 V2" and a2: "aspace K ?P ?vs (insert ?a A) V2" by blast
  from fault_receive_outcome [OF assms(6)] have ep: "rm_endpoint (rf_received f) = fe_endpoint ep"
    by (simp add: fault_contract_def)
  from empty_reply_runs [where 'e = bootstrap_error, of K ep f w2] obtain v where
    reply: "fault_endpoint_reply K ep f w2 = (Ok () :: (unit, bootstrap_error) res, v)"
    and v: "mach v = snd (sys_reply K (default_info K) (mach w2))" "\<not> flag_cells v (ep_pending (fe_endpoint ep))"
    using ep by auto
  have "range_end (tsk_root_slots t) \<le> tm_root_slot m"
  proof -
    have "bootstrap_checkpoint b \<le> bootstrap_checkpoint b1"
      using st1 by (simp add: stands_def bootstrap_checkpoint_def free_slots_checkpoint_def)
    with assms(10) map(2) show ?thesis by simp
  qed
  then have "recover_page K ep t f ?a (b, w) = (Ok m, (b2, v))"
    using frame(1) map(1) reply by (simp add: recover_page_def pbind_def assert_that_def pres_def pret_def on_world_def)
  moreover have "stands K bi B view room (bootstrap_checkpoint b2) n k V2 (b2, v)"
    using stands_seen [OF stands_anew [OF st2]] assms(4) [of "default_info K" "mach w2"] v(1) by simp
  ultimately show ?thesis using grows_trans [OF g1 g2] a2 v(2) by (auto simp: fault_refused_iff)
qed

theorem fault_recovery_completes_witness:
  "\<exists>w0 w f t b m c v. fault_endpoint_receive fault_sel4 page_fault_endpoint w0 = (Ok f, w) \<and>
     recover_page fault_sel4 page_fault_endpoint t f 0x200000 (b, w) = (Ok m, (c, v))"
proof -
  from page_fault_scene obtain t b w0 w f V where
    st: "stands fault_sel4 (bt_bootinfo (ref_boot 100 116)) view_objects fst snd (bootstrap_checkpoint b) 2 1 V (b, w)"
    and ready: "task_ready fault_sel4 view_config t V" and slots: "range_end (tsk_root_slots t) = bootstrap_checkpoint b"
    and f: "fault_endpoint_receive fault_sel4 page_fault_endpoint w0 = (Ok f, w)" "rf_fault f = VmFault page_fault" by blast
  have B: "GranuleBp \<in> view_objects" by (simp add: view_objects_def)
  have replies: "fst (kstate (snd (sys_reply fault_sel4 info m))) = fst (kstate m) \<and>
      snd (kstate (snd (sys_reply fault_sel4 info m))) = snd (kstate m)" for info m
    by (simp add: fault_sel4_def view_sel4_def)
  have "acceptable fault_sel4 view_config view_start" unfolding fault_geometry
    by (rule view_acceptable [OF retains_refl]) (simp add: view_start_def)
  then obtain l where l: "layout_validate (GRANULE_BYTES fault_sel4) (sc_address (tk_code view_config))
      (sc_entry (tk_code view_config)) (tk_private_memory_address view_config) (tk_stack_address view_config)
      (tk_ipc_buffer_address view_config) (tk_reserved_pages view_config) = Ok l" unfolding acceptable_def by blast
  let ?A = "{tk_ipc_buffer_address view_config, tk_stack_address view_config, tk_private_memory_address view_config,
    sc_address (tk_code view_config)}"
  have a: "vm_address page_fault \<in> set (tk_reserved_pages view_config) - ?A"
    by (simp add: page_fault_def view_config_def ref_config_def)
  have vs: "aspace fault_sel4 (set (task_pages view_config)) (vs_root (tsk_vspace t)) ?A V"
    using ready by (simp add: task_ready_def)
  have st': "stands fault_sel4 (bt_bootinfo (ref_boot 100 116)) view_objects fst snd (bootstrap_checkpoint b) (Suc (Suc 0)) (Suc 0) V (b, w)"
    using st by (simp add: eval_nat_numeral)
  from fault_recovery_completes [OF fault_sel4_obliging fault_basics(1) B replies l f a vs eq_refl [OF slots] st']
  obtain m c v where "recover_page fault_sel4 page_fault_endpoint t f 0x200000 (b, w) = (Ok m, (c, v))"
    by (auto simp: page_fault_def)
  with f(1) show ?thesis by blast
qed

end
