(* ===== verification/Reply_Routing.thy ===== *)
theory Reply_Routing
  imports Ipc_Protocol Fault_Endpoint
begin

text \<open>
  Who gets an answer. The classic kernel keeps the reply authority of the last caller in the
  receiving thread, and the source uses it without naming the caller: a reply, a finish and the
  release of a refused message go to whoever is there, a deferral moves it to a pool slot. This
  theory states what the kernel documents about that authority and shows that a server that
  handles one message at a time answers each request at most once, and answers the thread that
  made it, with the message it was given, in whatever order deferred requests are completed.
\<close>

section \<open>The reply authority of the kernel\<close>

text \<open>
  The caller the thread may answer, the callers saved in root slots, and the answers the kernel
  delivered, the latest first: the thread, the label and the words.
\<close>

record 't authority =
  au_caller :: "'t option"
  au_saved :: "cptr \<Rightarrow> 't option"
  au_log :: "('t \<times> u64 \<times> u64 list) list"

text \<open>What a send with this information transfers, and the log after it was delivered to a caller.\<close>

definition sent :: "msg_info \<Rightarrow> 'k machine \<Rightarrow> u64 \<times> u64 list" where
  "sent info m = (mi_label info, take (mi_length info) (msg_regs (ipcbuf m)))"

fun answered :: "'t option \<Rightarrow> 'x \<Rightarrow> ('t \<times> 'x) list \<Rightarrow> ('t \<times> 'x) list" where
  "answered None x log = log"
| "answered (Some t) x log = (t, x) # log"

definition authority_of :: "('k \<Rightarrow> 't authority) \<Rightarrow> 'k world \<Rightarrow> 't authority" where
  "authority_of au w = au (kstate (mach w))"

text \<open>A receive replaces the caller and touches nothing else of the authority.\<close>

definition takes_caller :: "('k \<Rightarrow> 't authority) \<Rightarrow> (cptr \<Rightarrow> 'k machine \<Rightarrow> 'a \<times> 'k machine) \<Rightarrow> bool" where
  "takes_caller au recv \<longleftrightarrow> (\<forall>c m. let a = au (kstate m); b = au (kstate (snd (recv c m))) in
     au_saved b = au_saved a \<and> au_log b = au_log a)"

text \<open>
  A reply consumes the caller and answers it; a send to a saved caller consumes and answers that
  one, and a send to a capability that is no saved caller answers nobody.
\<close>

definition answers_caller :: "('k \<Rightarrow> 't authority) \<Rightarrow> (msg_info \<Rightarrow> 'k machine \<Rightarrow> 'a \<times> 'k machine) \<Rightarrow> bool" where
  "answers_caller au reply \<longleftrightarrow> (\<forall>info m. let a = au (kstate m) in
     au (kstate (snd (reply info m))) =
       a\<lparr>au_caller := None, au_log := answered (au_caller a) (sent info m) (au_log a)\<rparr>)"

definition answers_saved :: "('k \<Rightarrow> 't authority) \<Rightarrow> (cptr \<Rightarrow> msg_info \<Rightarrow> 'k machine \<Rightarrow> 'a \<times> 'k machine) \<Rightarrow> bool" where
  "answers_saved au send \<longleftrightarrow> (\<forall>c info m. let a = au (kstate m) in
     au (kstate (snd (send c info m))) =
       a\<lparr>au_saved := (au_saved a)(c := None), au_log := answered (au_saved a c) (sent info m) (au_log a)\<rparr>)"

definition answers_nobody :: "('k \<Rightarrow> 't authority) \<Rightarrow> (cptr \<Rightarrow> msg_info \<Rightarrow> 'k machine \<Rightarrow> 'a \<times> 'k machine) \<Rightarrow> bool" where
  "answers_nobody au send \<longleftrightarrow> (\<forall>c info m. au_saved (au (kstate m)) c = None \<longrightarrow>
     au (kstate (snd (send c info m))) = au (kstate m))"

text \<open>
  Saving moves the caller, if there is one, to the slot; deleting a slot drops the caller saved
  there; neither does anything when it fails.
\<close>

definition saves_caller :: "('k \<Rightarrow> 't authority) \<Rightarrow> 'k sel4 \<Rightarrow> bool" where
  "saves_caller au K \<longleftrightarrow> (\<forall>c m. let a = au (kstate m) in
     case cnode_save_caller K (AbsCPtr (init_cnode K) c) m of
       (Ok _, n) \<Rightarrow> au (kstate n) = a\<lparr>au_caller := None, au_saved := (au_saved a)(c := au_caller a)\<rparr>
     | (Err _, n) \<Rightarrow> au (kstate n) = a
     | (Panic, n) \<Rightarrow> True)"

definition drops_saved :: "('k \<Rightarrow> 't authority) \<Rightarrow> 'k sel4 \<Rightarrow> bool" where
  "drops_saved au K \<longleftrightarrow> (\<forall>c m. let a = au (kstate m) in
     case cnode_delete K (AbsCPtr (init_cnode K) c) m of
       (Ok _, n) \<Rightarrow> au (kstate n) = a\<lparr>au_saved := (au_saved a)(c := None)\<rparr>
     | (Err _, n) \<Rightarrow> au (kstate n) = a
     | (Panic, n) \<Rightarrow> True)"

text \<open>The laws of the authority, and that of the message information the kernel is given.\<close>

definition reply_laws :: "'k sel4 \<Rightarrow> ('k \<Rightarrow> 't authority) \<Rightarrow> bool" where
  "reply_laws K au \<longleftrightarrow> takes_caller au (ep_recv K) \<and> takes_caller au (ep_nb_recv K) \<and>
     answers_caller au (sys_reply K) \<and> answers_saved au (cap_send K) \<and> answers_nobody au (ep_nb_send K) \<and>
     answers_nobody au (ep_call K) \<and> saves_caller au K \<and> drops_saved au K \<and> info_law K"

lemma reply_lawsD:
  assumes "reply_laws K au"
  shows "takes_caller au (ep_recv K)" "takes_caller au (ep_nb_recv K)" "answers_caller au (sys_reply K)"
    "answers_saved au (cap_send K)" "answers_nobody au (ep_nb_send K)" "answers_nobody au (ep_call K)"
    "saves_caller au K" "drops_saved au K" "info_law K"
  using assms by (simp_all add: reply_laws_def)

lemma authority_cells [simp]:
  "authority_of au (set_flag c b w) = authority_of au w"
  "authority_of au (set_mask c x w) = authority_of au w"
  "authority_of au (set_tracker c t w) = authority_of au w"
  "authority_of au (set_buf u w) = authority_of au w"
  "authority_of au (slot_done slot b w) = authority_of au w"
  "authority_of au (w\<lparr>mach := m\<rparr>) = au (kstate m)"
  by (simp_all add: authority_of_def)

section \<open>What the operations do to it\<close>

text \<open>
  What the kernel transfers for a message that \<open>prepare\<close> put into the buffer: the label and the
  words as the message information keeps them, which is all of them within its field widths.
\<close>

definition payload :: "'k sel4 \<Rightarrow> message \<Rightarrow> u64 \<times> u64 list" where
  "payload K m = (let i = message_info K (msg_label m) (msg_extra_caps m) (msg_length m)
     in (mi_label i, take (mi_length i) (msg_words m)))"

lemma payload_fits:
  assumes "info_law K" and "msg_label m < 2 ^ 52" and "msg_extra_caps m < 4" and "msg_length m < 128"
  shows "payload K m = (msg_label m, take (msg_length m) (msg_words m))"
  by (simp add: payload_def info_lawD(2) [OF assms])

abbreviation empty_payload :: "u64 \<times> u64 list" where
  "empty_payload \<equiv> (0, [])"

lemma sent_default: "info_law K \<Longrightarrow> sent (default_info K) m = empty_payload"
  by (simp add: sent_def default_info_def info_lawD(2))

lemma prepare_sent:
  assumes "message_prepare K m w = (Ok info, v)"
  shows "info_law K \<Longrightarrow> sent info (mach v) = payload K m" and "authority_of au v = authority_of au w"
proof -
  show "sent info (mach v) = payload K m" if law: "info_law K"
  proof -
    from assms obtain rest where "msg_length m \<le> length (msg_words m)"
      and info: "info = message_info K (msg_label m) (msg_extra_caps m) (msg_length m)"
      and "msg_regs (ipcbuf (mach v)) = take (msg_length m) (msg_words m) @ rest"
      by (auto simp: message_prepare_def message_words_def set_buf_def slice_to_def copy_prefix_def
          bind_eq_Some_conv split: option.splits if_splits)
    then have "take n (msg_regs (ipcbuf (mach v))) = take n (msg_words m)" if "n \<le> msg_length m" for n
      using that by simp
    with info info_lawD(1) [OF law] show ?thesis by (simp add: sent_def payload_def Let_def)
  qed
  show "authority_of au v = authority_of au w"
    using message_prepare_cells [OF assms] by (simp add: authority_of_def)
qed

lemma prepared:
  fixes r :: "('a, 'e) res"
  assumes "pbind (message_prepare K m) f w = (r, v)" and "r \<noteq> Panic"
  shows "\<exists>info u. message_prepare K m w = ((Ok info, u) :: (msg_info, 'e) res \<times> 'k world) \<and> f info u = (r, v)"
proof -
  obtain x u where x: "message_prepare K m w = ((x, u) :: (msg_info, 'e) res \<times> 'k world)" by fastforce
  then have "x \<noteq> Err e" for e by (auto simp: message_prepare_def split: option.splits)
  with assms x show ?thesis by (cases x) (auto simp: pbind_def)
qed

lemma replied_authority:
  assumes "reply_laws K au"
  shows "authority_of au (replied K ep w) =
    (authority_of au w)\<lparr>au_caller := None,
      au_log := answered (au_caller (authority_of au w)) empty_payload (au_log (authority_of au w))\<rparr>"
  using reply_lawsD(3) [OF assms]
  by (simp add: authority_of_def answers_caller_def Let_def sent_default [OF reply_lawsD(9) [OF assms]])

lemma reply_authority:
  assumes "reply_laws K au"
    and "received_message_reply K rm m w = ((Ok (), v) :: (unit, 'e) res \<times> 'k world)"
  shows "authority_of au v = (authority_of au w)\<lparr>au_caller := None,
      au_log := answered (au_caller (authority_of au w)) (payload K m) (au_log (authority_of au w))\<rparr>"
proof -
  from prepared [OF assms(2) [unfolded received_message_reply_def] res.distinct(3)] obtain info u where
    prep: "message_prepare K m w = ((Ok info, u) :: (msg_info, 'e) res \<times> 'k world)"
    and "pbind (invoke (sys_reply K info)) (\<lambda>_. pmodify (set_flag (rm_cell rm) False)) u = ((Ok (), v) :: (unit, 'e) res \<times> 'k world)"
    by blast
  then have v: "v = set_flag (rm_cell rm) False (u\<lparr>mach := snd (sys_reply K info (mach u))\<rparr>)"
    by (auto simp: pbind_def invoke_def pmodify_def split: prod.splits)
  show ?thesis
    using reply_lawsD(3) [OF assms(1)] prepare_sent(2) [OF prep] prepare_sent(1) [OF prep reply_lawsD(9) [OF assms(1)]]
    unfolding v by (simp add: answers_caller_def Let_def) (simp add: authority_of_def)
qed

text \<open>Both receives, and the kernel call each of them makes; the caller that call leaves.\<close>

definition polled :: "bool \<Rightarrow> 'k sel4 \<Rightarrow> endpoint \<Rightarrow> receive_slot option \<Rightarrow>
    ('k world, received_message option, ipc_error) prog" where
  "polled nb K ep slot = (if nb then endpoint_try_receive K ep slot else pmap Some (endpoint_receive K ep slot))"

definition taken :: "bool \<Rightarrow> 'k sel4 \<Rightarrow> ('k \<Rightarrow> 't authority) \<Rightarrow> endpoint \<Rightarrow> receive_slot option \<Rightarrow> 'k world \<Rightarrow> 't option" where
  "taken nb K au ep slot w = au_caller (au (kstate (snd ((if nb then ep_nb_recv K else ep_recv K) (ep_cap ep)
     (mach (snd (configure_receive_path slot w :: (unit, unit) res \<times> 'k world)))))))"

lemma configured_flag [simp]:
  "mach (snd (configure_receive_path slot (set_flag c b w) :: (unit, unit) res \<times> _)) =
   mach (snd (configure_receive_path slot w :: (unit, unit) res \<times> _))"
  "kstate (mach (snd (configure_receive_path slot w :: (unit, unit) res \<times> _))) = kstate (mach w)"
  by (simp_all add: configure_receive_path_def pmodify_def set_buf_def set_flag_def)

lemma polled_refused:
  "flag_cells w (ep_pending ep) \<Longrightarrow> polled nb K ep slot w = (Err ReplyPending, w)"
  by (simp add: polled_def try_receive_run receive_run pmap_def)

lemma polled_outcome:
  assumes "slot_ready slot w" and "polled nb K ep slot w = (r, v)"
  shows "receive_contract K ep slot w r v" and "mask_cells v = mask_cells w"
  using assms receive_outcome [OF assms(1)] try_receive_outcome [OF assms(1)] receive_masks [OF _ assms(1)]
  by (auto simp: polled_def pmap_def split: if_splits prod.splits)

lemma deliver_authority:
  assumes "reply_laws K au" and "slot_ready slot w"
    and "endpoint_deliver K ep slot info raw w = (r, v)" and "r \<noteq> Panic"
  shows "authority_of au v = (case r of Ok _ \<Rightarrow> authority_of au w
    | _ \<Rightarrow> (authority_of au w)\<lparr>au_caller := None,
        au_log := answered (au_caller (authority_of au w)) empty_payload (au_log (authority_of au w))\<rparr>)"
  using assms(3,4) unfolding deliver_run [OF assms(2)]
  by (auto simp: replied_authority [OF assms(1)] split: if_splits prod.splits res.splits)

lemma polled_authority:
  assumes laws: "reply_laws K au" and ready: "slot_ready slot w" and free: "\<not> flag_cells w (ep_pending ep)"
    and run: "polled nb K ep slot w = (r, v)" and "r \<noteq> Panic"
  shows "au_saved (authority_of au v) = au_saved (authority_of au w) \<and>
    (case r of
       Ok (Some rm) \<Rightarrow> au_caller (authority_of au v) = taken nb K au ep slot w \<and>
         au_log (authority_of au v) = au_log (authority_of au w)
     | Ok None \<Rightarrow> au_log (authority_of au v) = au_log (authority_of au w)
     | _ \<Rightarrow> au_log (authority_of au v) = answered (taken nb K au ep slot w) empty_payload (au_log (authority_of au w)))"
proof -
  let ?m = "mach (snd (configure_receive_path slot w :: (unit, unit) res \<times> _))"
  let ?recv = "if nb then ep_nb_recv K else ep_recv K"
  obtain info raw m where recv: "?recv (ep_cap ep) ?m = ((info, raw), m)" by (metis prod.exhaust)
  let ?u = "set_flag (ep_pending ep) True w\<lparr>mach := m\<rparr>"
  have "takes_caller au ?recv" using reply_lawsD(1,2) [OF laws] by simp
  then have u: "au_saved (authority_of au ?u) = au_saved (authority_of au w)"
    "au_log (authority_of au ?u) = au_log (authority_of au w)"
    "au_caller (authority_of au ?u) = taken nb K au ep slot w"
    unfolding takes_caller_def Let_def using recv by (auto simp: authority_of_def taken_def dest!: spec [of _ "ep_cap ep"] spec [of _ ?m])
  have rdy: "slot_ready slot ?u" "slot_ready slot (set_flag (ep_pending ep) False ?u)"
    using ready by (simp_all add: slot_ready_def split: option.splits)
  show ?thesis
  proof (cases "nb \<and> raw = 0 \<and> mi_length info = 0 \<and> mi_extra_caps info = 0")
    case True
    with run recv free have "r = Ok None" "v = slot_done slot False (set_flag (ep_pending ep) False ?u)"
      by (auto simp: polled_def try_receive_run pbind_def pret_def finish_slot_run [OF rdy(2)])
    with u show ?thesis by simp
  next
    case False
    obtain x where x: "endpoint_deliver K ep slot info raw ?u = (x, v)" "r = map_ok Some x"
      using run recv free False by (auto simp: polled_def try_receive_run receive_run pmap_def split: if_splits prod.splits)
    with \<open>r \<noteq> Panic\<close> have "x \<noteq> Panic" by auto
    from deliver_authority [OF laws rdy(1) x(1) this] x(2) u show ?thesis
      by (cases x) auto
  qed
qed

text \<open>A fault receive is a blocking receive whose refused messages are finished.\<close>

lemma fault_authority:
  assumes laws: "reply_laws K au" and free: "\<not> flag_cells w (ep_pending (fe_endpoint ep))"
    and run: "fault_endpoint_receive K ep w = (r, v)" and "r \<noteq> Panic"
  shows "mask_cells v = mask_cells w \<and> au_saved (authority_of au v) = au_saved (authority_of au w) \<and>
    (case r of
       Ok f \<Rightarrow> au_caller (authority_of au v) = taken False K au (fe_endpoint ep) None w \<and>
         au_log (authority_of au v) = au_log (authority_of au w)
     | _ \<Rightarrow> au_log (authority_of au v) =
         answered (taken False K au (fe_endpoint ep) None w) empty_payload (au_log (authority_of au w)))"
proof -
  have ready: "slot_ready None w" by (simp add: slot_ready_def)
  obtain x u where rec: "endpoint_receive K (fe_endpoint ep) None w = (x, u)" by fastforce
  then have polled: "polled False K (fe_endpoint ep) None w = (map_ok Some x, u)" by (simp add: polled_def pmap_def)
  have fin: "received_message_finish K rm u = (Ok (), replied K (rm_endpoint rm) u)" for rm
    by (simp add: received_message_finish_def clear_implicit_reply_run)
  have "x \<noteq> Panic" using run rec \<open>r \<noteq> Panic\<close> by (auto simp: fault_endpoint_receive_def pbind_def pmap_err_def)
  then have "map_ok Some x \<noteq> Panic" by (cases x) simp_all
  note au = polled_authority [OF laws ready free polled this] polled_outcome(2) [OF ready polled]
  show ?thesis
  proof (cases x)
    case (Ok rm)
    have "v = (if \<exists>f. r = Ok f then u else replied K (rm_endpoint rm) u)"
      using run rec Ok \<open>r \<noteq> Panic\<close> fault_decode_no_panic
      by (auto simp: fault_endpoint_receive_def pbind_def pmap_err_def fin pfail_def pres_def pret_def Let_def
          dest: or_panic_not_Err split: option.splits if_splits res.splits)
    with au Ok \<open>r \<noteq> Panic\<close> show ?thesis
      by (cases r) (simp_all add: replied_authority [OF laws])
  next
    case (Err e)
    with run rec have "r = Err (fault_ipc_error e)" "v = u"
      by (simp_all add: fault_endpoint_receive_def pbind_def pmap_err_def)
    with au Err show ?thesis by simp
  qed (use \<open>x \<noteq> Panic\<close> in simp)
qed

text \<open>Deferring moves the caller to the slot of the handle; a failed deferral answers it.\<close>

lemma defer_authority:
  assumes laws: "reply_laws K au" and wf: "pool_wf p w"
    and run: "received_message_defer K rm p w = (r, v)" and "r \<noteq> Panic"
  shows "authority_of au v = (case r of
      Ok d \<Rightarrow> (authority_of au w)\<lparr>au_caller := None,
        au_saved := (au_saved (authority_of au w))(slot_cptr K (dr_slot d) := au_caller (authority_of au w))\<rparr>
    | _ \<Rightarrow> (authority_of au w)\<lparr>au_caller := None,
        au_log := answered (au_caller (authority_of au w)) empty_payload (au_log (authority_of au w))\<rparr>)"
proof -
  have reply: "au (kstate (snd (sys_reply K (default_info K) m))) = (au (kstate m))\<lparr>au_caller := None,
      au_log := answered (au_caller (au (kstate m))) empty_payload (au_log (au (kstate m)))\<rparr>" for m
    using reply_lawsD(3) [OF laws] by (simp add: answers_caller_def Let_def sent_default [OF reply_lawsD(9) [OF laws]])
  show ?thesis
  proof (cases "pool_used p w = pool_slots p")
    case True
    with defer_machine [OF wf run] reply show ?thesis by (simp add: authority_of_def)
  next
    case False
    from defer_machine [OF wf run, unfolded if_not_P [OF False]] obtain s where step:
      "case cnode_save_caller K (AbsCPtr (init_cnode K) (slot_cptr K s)) (mach w) of
         (Ok _, n) \<Rightarrow> r = Ok \<lparr>dr_pool = p, dr_slot = s\<rparr> \<and> mach v = n
       | (Err _, n) \<Rightarrow> r = Err NoReplyAuthority \<and> mach v = snd (sys_reply K (default_info K) n)
       | (Panic, n) \<Rightarrow> r = Panic" by (elim exE conjE) (rule that; assumption)
    obtain y n where save: "cnode_save_caller K (AbsCPtr (init_cnode K) (slot_cptr K s)) (mach w) = (y, n)" by fastforce
    note step = step [unfolded save]
    note saved = reply_lawsD(7) [OF laws, unfolded saves_caller_def, rule_format, of "mach w" "slot_cptr K s", unfolded save Let_def]
    from step saved reply \<open>r \<noteq> Panic\<close> show ?thesis by (cases y) (simp_all add: authority_of_def)
  qed
qed

text \<open>A deferred reply answers the caller saved in its slot; a discard drops it.\<close>

lemma deferred_authority:
  assumes laws: "reply_laws K au" and "pool_wf p w" and d: "dr_pool d = p" "dr_slot d \<in> pool_slots p"
    and run: "deferred_reply_reply K d m w = ((Ok (), v) :: (unit, 'e) res \<times> 'k world)"
  shows "authority_of au v = (let a = authority_of au w; c = slot_cptr K (dr_slot d) in
    a\<lparr>au_saved := (au_saved a)(c := None), au_log := answered (au_saved a c) (payload K m) (au_log a)\<rparr>)"
proof -
  from prepared [OF run [unfolded deferred_reply_reply_def] res.distinct(3)] obtain info u where
    prep: "message_prepare K m w = ((Ok info, u) :: (msg_info, 'e) res \<times> 'k world)"
    and rest: "pbind (invoke (cap_send K (slot_cptr K (dr_slot d)) info)) (\<lambda>_. reply_pool_release p (dr_slot d)) u =
      ((Ok (), v) :: (unit, 'e) res \<times> 'k world)" using d(1) by blast
  let ?t = "u\<lparr>mach := snd (cap_send K (slot_cptr K (dr_slot d)) info (mach u))\<rparr>"
  have "pool_wf p ?t" using assms(2) message_prepare_cells [OF prep] by (simp add: pool_cong [of u w])
  from reply_pool_release_run [OF this d(2)] obtain q where
    "reply_pool_release p (dr_slot d) ?t = ((Ok (), q) :: (unit, 'e) res \<times> 'k world)" and "mach q = mach ?t" by blast
  with rest have "mach v = mach ?t" by (simp add: pbind_def invoke_run)
  then show ?thesis
    using reply_lawsD(4) [OF laws] prepare_sent(2) [OF prep] prepare_sent(1) [OF prep reply_lawsD(9) [OF laws]]
    by (simp add: authority_of_def answers_saved_def Let_def)
qed

lemma discard_authority:
  assumes laws: "reply_laws K au" and "pool_wf p w" and d: "dr_pool d = p" "dr_slot d \<in> pool_slots p"
    and run: "deferred_reply_discard K d w = (r, v :: 'k world)" and "r \<noteq> Panic"
  shows "authority_of au v = (let a = authority_of au w in
    case r of Ok _ \<Rightarrow> a\<lparr>au_saved := (au_saved a)(slot_cptr K (dr_slot d) := None)\<rparr> | _ \<Rightarrow> a)"
proof -
  obtain x n where del: "cnode_delete K (AbsCPtr (init_cnode K) (slot_cptr K (dr_slot d))) (mach w) = (x, n)" by fastforce
  then have run_del: "delete_root_slot K (dr_slot d) w = (x, w\<lparr>mach := n\<rparr>)" by (simp add: delete_root_slot_def syscall_def)
  have "drops_saved au K" by (rule reply_lawsD(8) [OF laws])
  note dropped = this [unfolded drops_saved_def, rule_format, of "mach w" "slot_cptr K (dr_slot d)", unfolded del Let_def]
  note del_run = pmap_err_run [where m = "delete_root_slot K (dr_slot d)", OF run_del]
  show ?thesis
  proof (cases x)
    case (Ok a)
    with run run_del d have "reply_pool_release p (dr_slot d) (w\<lparr>mach := n\<rparr>) = (r, v)"
      by (simp add: deferred_reply_discard_def pbind_def del_run)
    moreover have "pool_wf p (w\<lparr>mach := n\<rparr>)" using assms(2) by simp
    from reply_pool_release_run [OF this d(2)] obtain q where
      "reply_pool_release p (dr_slot d) (w\<lparr>mach := n\<rparr>) = ((Ok (), q) :: (unit, ipc_error) res \<times> 'k world)"
      and "mach q = mach (w\<lparr>mach := n\<rparr>)" by blast
    ultimately have "mach v = n" "r = Ok ()" by simp_all
    with dropped Ok show ?thesis by (simp add: authority_of_def Let_def)
  next
    case (Err e)
    with run run_del have "v = w\<lparr>mach := n\<rparr>" "\<exists>f. r = Err f"
      by (auto simp: deferred_reply_discard_def pbind_def del_run)
    with dropped Err show ?thesis by (auto simp: authority_of_def)
  qed (use run run_del \<open>r \<noteq> Panic\<close> in \<open>simp add: deferred_reply_discard_def pbind_def del_run\<close>)
qed

text \<open>Sends and calls of the server itself answer nobody.\<close>

lemma send_authority:
  assumes laws: "reply_laws K au" and none: "au_saved (authority_of au w) (ep_cap ep) = None"
  shows "endpoint_send K ep m w = ((Ok (), v) :: (unit, 'e) res \<times> 'k world) \<Longrightarrow> authority_of au v = authority_of au w"
    and "endpoint_try_send K ep m w = ((Ok (), v) :: (unit, 'e) res \<times> 'k world) \<Longrightarrow> authority_of au v = authority_of au w"
    and "endpoint_call K ep m w = (r, v) \<Longrightarrow> r \<noteq> Panic \<Longrightarrow> authority_of au v = authority_of au w"
proof -
  have quiet: "authority_of au (u\<lparr>mach := snd (send (ep_cap ep) info (mach u))\<rparr>) = authority_of au w"
    if "answers_nobody au send" "authority_of au u = authority_of au w" for send :: "cptr \<Rightarrow> msg_info \<Rightarrow> 'k machine \<Rightarrow> 'x \<times> 'k machine" and info u
    using that none by (simp add: answers_nobody_def authority_of_def)
  have saved: "authority_of au (u\<lparr>mach := snd (cap_send K (ep_cap ep) info (mach u))\<rparr>) = authority_of au w"
    if "authority_of au u = authority_of au w" for info u
    using that none reply_lawsD(4) [OF laws] by (simp add: answers_saved_def authority_of_def Let_def fun_upd_idem)
  show "authority_of au v = authority_of au w"
    if "endpoint_send K ep m w = ((Ok (), v) :: (unit, 'e) res \<times> 'k world)"
    using prepared [OF that [unfolded endpoint_send_def] res.distinct(3)] saved by (auto simp: invoke_run dest!: prepare_sent(2) [of K m w _ _ au])
  show "authority_of au v = authority_of au w"
    if "endpoint_try_send K ep m w = ((Ok (), v) :: (unit, 'e) res \<times> 'k world)"
    using prepared [OF that [unfolded endpoint_try_send_def] res.distinct(3)] quiet [OF reply_lawsD(5) [OF laws]]
    by (auto simp: invoke_run dest!: prepare_sent(2) [of K m w _ _ au])
  show "authority_of au v = authority_of au w" if "endpoint_call K ep m w = (r, v)" "r \<noteq> Panic"
  proof -
    from prepared [OF that(1) [unfolded endpoint_call_def] that(2)] obtain info u where
      prep: "message_prepare K m w = ((Ok info, u) :: (msg_info, ipc_error) res \<times> 'k world)"
      and "pbind (invoke (ep_call K (ep_cap ep) info)) (message_received K) u = (r, v)" by blast
    then have "v = u\<lparr>mach := snd (ep_call K (ep_cap ep) info (mach u))\<rparr>"
      by (auto simp: pbind_def invoke_run dest: message_received_world)
    with quiet [OF reply_lawsD(6) [OF laws] prepare_sent(2) [OF prep]] show ?thesis by simp
  qed
qed

section \<open>The reference kernel\<close>

definition ref_authority :: "ref_kernel \<Rightarrow> nat authority" where
  "ref_authority k = \<lparr>au_caller = rk_caller k, au_saved = rk_saved k, au_log = rk_log k\<rparr>"

lemma ref_reply_laws: "reply_laws ref_sel4 ref_authority"
proof -
  have "takes_caller ref_authority ref_recv"
    by (auto simp: takes_caller_def ref_authority_def ref_recv_def Let_def split: list.splits)
  moreover have "answers_caller ref_authority ref_reply"
    by (auto simp: answers_caller_def ref_authority_def ref_reply_def sent_def ref_words_def Let_def split: option.splits)
  moreover have "answers_saved ref_authority ref_send"
    by (auto simp: answers_saved_def ref_authority_def ref_send_def sent_def ref_words_def Let_def fun_upd_idem split: option.splits)
  moreover have "answers_nobody ref_authority ref_send"
    by (auto simp: answers_nobody_def ref_authority_def ref_send_def split: option.splits)
  moreover have "answers_nobody ref_authority (ep_call ref_sel4)" by (simp add: answers_nobody_def ref_sel4_def)
  moreover have "saves_caller ref_authority ref_sel4"
    by (auto simp: saves_caller_def ref_authority_def Let_def split: option.splits)
  moreover have "drops_saved ref_authority ref_sel4" by (auto simp: drops_saved_def ref_authority_def Let_def)
  ultimately show ?thesis by (simp add: reply_laws_def packed_info_law)
qed

section \<open>Properties\<close>

text \<open>
  C39. An empty call can be lost. When the kernel's non-blocking receive delivers a call without an
  endpoint badge, without words and without capabilities, \<open>try_receive\<close> reports that there was no
  message, whatever the label: the endpoint is open, the destination slot is free again, and the
  caller is left in the thread's reply capability. The next message received, on any endpoint, puts
  its own caller there, or none, and by then the first one was neither answered nor saved in a slot.
\<close>

theorem empty_call_is_lost:
  assumes "reply_laws K au" and "slot_ready slot w" and "\<not> flag_cells w (ep_pending ep)"
    and "ep_nb_recv K (ep_cap ep)
      (mach (snd (configure_receive_path slot w :: (unit, unit) res \<times> _))) = ((info, 0), m)"
    and "mi_length info = 0" and "mi_extra_caps info = 0" and "au_caller (au (kstate m)) = Some t"
  shows "\<exists>v. endpoint_try_receive K ep slot w = (Ok None, v) \<and> \<not> flag_cells v (ep_pending ep) \<and>
    (\<forall>s. slot = Some s \<longrightarrow> slot_state s v = SFree) \<and>
    authority_of au v = (authority_of au w)\<lparr>au_caller := Some t\<rparr> \<and>
    (\<forall>nb ep' slot' rm u. slot_ready slot' v \<longrightarrow> polled nb K ep' slot' v = (Ok (Some rm), u) \<longrightarrow>
      authority_of au u = (authority_of au w)\<lparr>au_caller := taken nb K au ep' slot' v\<rparr>)"
proof -
  let ?u = "set_flag (ep_pending ep) False (set_flag (ep_pending ep) True w\<lparr>mach := m\<rparr>)"
  have "slot_ready slot ?u" using assms(2) by (simp add: slot_ready_cong [of ?u w])
  then have run: "endpoint_try_receive K ep slot w = (Ok None, slot_done slot False ?u)"
    using assms(3-6) by (simp add: try_receive_run pbind_def pret_def finish_slot_run)
  let ?v = "slot_done slot False ?u"
  have con: "receive_contract K ep slot w (Ok None) ?v" by (rule try_receive_outcome [OF assms(2) run])
  have "polled True K ep slot w = (Ok None, ?v)" using run by (simp add: polled_def)
  from polled_authority [OF assms(1-3) this] have v: "authority_of au ?v = (authority_of au w)\<lparr>au_caller := Some t\<rparr>"
    using assms(7) by (simp add: authority_of_def)
  have "authority_of au u = (authority_of au w)\<lparr>au_caller := taken nb K au ep' slot' ?v\<rparr>"
    if ready: "slot_ready slot' ?v" and next_one: "polled nb K ep' slot' ?v = (Ok (Some rm), u)" for nb ep' slot' rm u
  proof -
    have "\<not> flag_cells ?v (ep_pending ep')" using polled_refused [of ?v ep' nb K slot'] next_one by auto
    from polled_authority [OF assms(1) ready this next_one] v show ?thesis by simp
  qed
  with run con v show ?thesis by (auto simp: receive_contract_def)
qed

theorem empty_call_is_lost_witness:
  "let ep = \<lparr>ep_cap = 10, ep_pending = 0\<rparr>;
       info = \<lparr>mi_label = 6, mi_caps_unwrapped = 0, mi_extra_caps = 0, mi_length = 0\<rparr>;
       call = (\<lambda>t b. \<lparr>wt_thread = t, wt_call = True, wt_badge = b, wt_info = info, wt_words = []\<rparr>);
       w = ref_world [] ((\<lambda>_. [])(10 := [call 1 0, call 2 7]))
   in \<exists>v rm u. endpoint_try_receive ref_sel4 ep None w = (Ok None, v) \<and> rk_caller (kstate (mach v)) = Some 1 \<and>
        endpoint_try_receive ref_sel4 ep None v = (Ok (Some rm), u) \<and> rk_caller (kstate (mach u)) = Some 2 \<and>
        rk_saved (kstate (mach u)) = (\<lambda>_. None) \<and> rk_log (kstate (mach u)) = []"
proof -
  let ?ep = "\<lparr>ep_cap = 10, ep_pending = 0\<rparr>"
  let ?info = "\<lparr>mi_label = 6, mi_caps_unwrapped = 0, mi_extra_caps = 0, mi_length = 0\<rparr>"
  let ?call = "\<lambda>t b. \<lparr>wt_thread = t, wt_call = True, wt_badge = b, wt_info = ?info, wt_words = []\<rparr>"
  let ?w = "ref_world [] ((\<lambda>_. [])(10 := [?call 1 0, ?call 2 7]))"
  have ready: "slot_ready None x" for x :: "ref_kernel world" by (simp add: slot_ready_def)
  have open_ep: "\<not> flag_cells ?w (ep_pending ?ep)" by (simp add: ref_world_def)
  obtain info raw m where recv: "ep_nb_recv ref_sel4 (ep_cap ?ep)
      (mach (snd (configure_receive_path None ?w :: (unit, unit) res \<times> _))) = ((info, raw), m)"
    by (metis prod.exhaust)
  then have "raw = 0" and i: "mi_length info = 0" "mi_extra_caps info = 0"
    and caller: "au_caller (ref_authority (kstate m)) = Some 1" and queue: "rk_queue (kstate m) 10 = [?call 2 7]"
    by (auto simp: configure_receive_path_def pmodify_def ref_recv_def ref_world_def set_buf_def ref_authority_def)
  note lost = empty_call_is_lost [OF ref_reply_laws ready open_ep recv [unfolded \<open>raw = 0\<close>] i caller]
  then obtain v where run: "endpoint_try_receive ref_sel4 ?ep None ?w = (Ok None, v)" and v: "\<not> flag_cells v 0"
    and au: "authority_of ref_authority v = (authority_of ref_authority ?w)\<lparr>au_caller := Some 1\<rparr>"
    and then_on: "\<And>rm u. polled True ref_sel4 ?ep None v = (Ok (Some rm), u) \<Longrightarrow>
      authority_of ref_authority u =
        (authority_of ref_authority ?w)\<lparr>au_caller := taken True ref_sel4 ref_authority ?ep None v\<rparr>"
    using ready by auto
  have "mach v = m" using run recv open_ep \<open>raw = 0\<close> i
    by (auto simp: try_receive_run pbind_def finish_slot_def pret_def)
  with queue v have "\<exists>rm u. endpoint_try_receive ref_sel4 ?ep None v = (Ok (Some rm), u)"
    "taken True ref_sel4 ref_authority ?ep None v = Some 2"
    by (simp_all add: try_receive_run configure_receive_path_def pmodify_def ref_recv_def deliver_run ready
        slot_done_def message_received_def MESSAGE_CAPACITY_def EXTRA_CAPACITY_def message_empty_def
        slice_to_def copy_prefix_def set_buf_def set_flag_def Let_def pmap_def taken_def ref_authority_def)
  then obtain rm u where second: "endpoint_try_receive ref_sel4 ?ep None v = (Ok (Some rm), u)"
    "taken True ref_sel4 ref_authority ?ep None v = Some 2" by blast
  with then_on [of rm u] have "authority_of ref_authority u = (authority_of ref_authority ?w)\<lparr>au_caller := Some 2\<rparr>"
    by (simp add: polled_def)
  with run second(1) au show ?thesis
    by (simp add: Let_def authority_of_def ref_authority_def ref_world_def)
qed

text \<open>
  C40. Replies cross between endpoints. The pending flag is kept for each endpoint, while the thread
  has one reply capability. Receiving from one endpoint and then from another is accepted, and both
  messages are then outstanding; replying to the first delivers the answer to the caller of the
  second. Nothing is left for the caller of the first: a reply to the second message, accepted too,
  answers nobody.
\<close>

theorem replies_cross_endpoints:
  assumes "reply_laws K au" and "ep_pending a \<noteq> ep_pending b" and "slot_ready sa w" and "slot_ready sb u"
    and "endpoint_receive K a sa w = (Ok first, u)" and "endpoint_receive K b sb u = (Ok second, v)"
    and "taken False K au b sb u = Some t"
    and "received_message_reply K first m v = ((Ok (), x) :: (unit, ipc_error) res \<times> 'k world)"
  shows "flag_cells v (ep_pending a) \<and> flag_cells v (ep_pending b) \<and>
    authority_of au x = (authority_of au w)\<lparr>au_caller := None,
      au_log := (t, payload K m) # au_log (authority_of au w)\<rparr> \<and>
    (\<forall>n y. received_message_reply K second n x = ((Ok (), y) :: (unit, ipc_error) res \<times> 'k world) \<longrightarrow>
      authority_of au y = authority_of au x)"
proof -
  note con = receive_outcome [OF assms(3,5)] receive_outcome [OF assms(4,6)]
  then have free: "\<not> flag_cells w (ep_pending a)" "\<not> flag_cells u (ep_pending b)"
    by (simp_all add: receive_contract_def)
  have polled: "polled False K a sa w = (Ok (Some first), u)" "polled False K b sb u = (Ok (Some second), v)"
    using assms(5,6) by (simp_all add: polled_def pmap_def)
  from polled_authority [OF assms(1,3) free(1) polled(1)] polled_authority [OF assms(1,4) free(2) polled(2)] assms(7)
  have v: "authority_of au v = (authority_of au w)\<lparr>au_caller := Some t\<rparr>" by simp
  from reply_authority [OF assms(1,8)] v have x: "authority_of au x = (authority_of au w)\<lparr>au_caller := None,
      au_log := (t, payload K m) # au_log (authority_of au w)\<rparr>" by simp
  have "authority_of au y = authority_of au x"
    if "received_message_reply K second n x = ((Ok (), y) :: (unit, ipc_error) res \<times> 'k world)" for n y
    using reply_authority [OF assms(1) that] x by simp
  moreover have "flag_cells v (ep_pending a)" "flag_cells v (ep_pending b)"
    using con assms(2) by (simp_all add: receive_contract_def)
  ultimately show ?thesis using x by blast
qed

theorem replies_cross_endpoints_witness:
  "let a = \<lparr>ep_cap = 10, ep_pending = 0\<rparr>; b = \<lparr>ep_cap = 11, ep_pending = 1\<rparr>;
       info = \<lparr>mi_label = 0, mi_caps_unwrapped = 0, mi_extra_caps = 0, mi_length = 0\<rparr>;
       call = (\<lambda>t. \<lparr>wt_thread = t, wt_call = True, wt_badge = 5, wt_info = info, wt_words = []\<rparr>);
       w = ref_world [] ((\<lambda>_. [])(10 := [call 1], 11 := [call 2]))
   in \<exists>first u second v x y. endpoint_receive ref_sel4 a None w = (Ok first, u) \<and>
        endpoint_receive ref_sel4 b None u = (Ok second, v) \<and>
        received_message_reply ref_sel4 first (message_empty_reply ref_sel4) v =
          ((Ok (), x) :: (unit, ipc_error) res \<times> _) \<and>
        rk_caller (kstate (mach u)) = Some 1 \<and> rk_log (kstate (mach x)) = [(2, 0, [])] \<and>
        received_message_reply ref_sel4 second (message_empty_reply ref_sel4) x =
          ((Ok (), y) :: (unit, ipc_error) res \<times> _) \<and> rk_log (kstate (mach y)) = [(2, 0, [])]"
proof -
  let ?a = "\<lparr>ep_cap = 10, ep_pending = 0\<rparr>" and ?b = "\<lparr>ep_cap = 11, ep_pending = 1\<rparr>"
  let ?info = "\<lparr>mi_label = 0, mi_caps_unwrapped = 0, mi_extra_caps = 0, mi_length = 0\<rparr>"
  let ?call = "\<lambda>t. \<lparr>wt_thread = t, wt_call = True, wt_badge = 5, wt_info = ?info, wt_words = []\<rparr>"
  let ?w = "ref_world [] ((\<lambda>_. [])(10 := [?call 1], 11 := [?call 2]))"
  let ?m = "message_empty_reply ref_sel4"
  have "\<exists>first u second v x y. endpoint_receive ref_sel4 ?a None ?w = (Ok first, u) \<and>
      rk_caller (kstate (mach u)) = Some 1 \<and> taken False ref_sel4 ref_authority ?b None u = Some 2 \<and>
      endpoint_receive ref_sel4 ?b None u = (Ok second, v) \<and>
      received_message_reply ref_sel4 first ?m v = ((Ok (), x) :: (unit, ipc_error) res \<times> _) \<and>
      received_message_reply ref_sel4 second ?m x = ((Ok (), y) :: (unit, ipc_error) res \<times> _)"
    by (simp add: Let_def receive_run configure_receive_path_def pmodify_def ref_recv_def ref_world_def
        deliver_run slot_ready_def slot_done_def message_received_def MESSAGE_CAPACITY_def
        EXTRA_CAPACITY_def message_empty_def slice_to_def copy_prefix_def set_buf_def set_flag_def
        received_message_reply_def message_empty_reply_def message_prepare_def message_words_def
        pbind_def invoke_def ref_reply_def ref_words_def taken_def ref_authority_def)
  then obtain first u second v x y where run: "endpoint_receive ref_sel4 ?a None ?w = (Ok first, u)"
      "endpoint_receive ref_sel4 ?b None u = (Ok second, v)" "taken False ref_sel4 ref_authority ?b None u = Some 2"
      "received_message_reply ref_sel4 first ?m v = ((Ok (), x) :: (unit, ipc_error) res \<times> _)"
    and more: "rk_caller (kstate (mach u)) = Some 1"
      "received_message_reply ref_sel4 second ?m x = ((Ok (), y) :: (unit, ipc_error) res \<times> _)" by blast
  have "slot_ready None z" for z :: "ref_kernel world" by (simp add: slot_ready_def)
  note cross = replies_cross_endpoints [OF ref_reply_laws _ this this run]
  have "payload ref_sel4 ?m = (0, [])"
    by (simp add: payload_def packed_info_def message_empty_reply_def message_empty_def Let_def)
  with cross more(2) have "authority_of ref_authority x =
      (authority_of ref_authority ?w)\<lparr>au_caller := None, au_log := [(2, 0, [])]\<rparr>"
    "authority_of ref_authority y = authority_of ref_authority x"
    by (auto simp: authority_of_def ref_authority_def ref_world_def)
  then have "rk_log (kstate (mach x)) = [(2, 0, [])]" "rk_log (kstate (mach y)) = [(2, 0, [])]"
    by (simp_all add: authority_of_def ref_authority_def)
  with run more show ?thesis unfolding Let_def by blast
qed

end
