(* ===== verification/Server.thy ===== *)
theory Server
  imports Reply_Routing "HOL-Library.Multiset"
begin

text \<open>
  A server: one thread that receives requests and faults, answers them, defers them and completes
  the deferred ones, over the operations of ipc.rs and fault.rs. Every request gets a number when
  it is received; the numbers and the answers are ghost state, which the operations do not see.
\<close>

section \<open>The machine\<close>

text \<open>
  The store; the message being handled, with its number and the thread that waits for the answer,
  if one does; the deferred replies, likewise; for each request the thread that made it; the
  answers given, the latest first, each with the number of its request.
\<close>

type_synonym 't waiter = "nat \<times> 't option"

type_synonym ('k, 't) server = "'k world \<times> (received_message \<times> 't waiter) option \<times>
  (deferred_reply \<times> 't waiter) list \<times> 't option list \<times> (nat \<times> 't \<times> u64 \<times> u64 list) list"

fun recorded :: "'t waiter \<Rightarrow> 'x \<Rightarrow> (nat \<times> 't \<times> 'x) list \<Rightarrow> (nat \<times> 't \<times> 'x) list" where
  "recorded (n, None) x log = log"
| "recorded (n, Some t) x log = (n, t, x) # log"

text \<open>
  One message at a time: while a message is being handled, the thread receives on no other endpoint.
  That it does not receive on the same one is left to the code.
\<close>

definition exclusive :: "(received_message \<times> 't waiter) option \<Rightarrow> endpoint \<Rightarrow> bool" where
  "exclusive out ep \<longleftrightarrow> (\<forall>rm x. out = Some (rm, x) \<longrightarrow> rm_cell rm = ep_pending ep)"

text \<open>Threads that stop waiting, because they were cancelled or deleted.\<close>

definition left :: "'t set \<Rightarrow> 't option \<Rightarrow> 't option" where
  "left T c = (if c \<in> Some ` T then None else c)"

definition gone :: "'t set \<Rightarrow> 't authority \<Rightarrow> 't authority" where
  "gone T a = a\<lparr>au_caller := left T (au_caller a), au_saved := (\<lambda>c. left T (au_saved a c))\<rparr>"

abbreviation forget :: "'t set \<Rightarrow> 'x \<times> 't waiter \<Rightarrow> 'x \<times> 't waiter" where
  "forget T \<equiv> map_prod id (map_prod id (left T))"

text \<open>
  Answering a fault is a reply with the empty message. \<open>serve_elsewhere\<close> is whatever else the
  root task and the other threads do that leaves the flags and the pool alone, the end of clients
  included; \<open>serve_abandon\<close> and \<open>serve_forsake\<close> are values dropped without an answer.
\<close>

inductive serve :: "'k sel4 \<Rightarrow> ('k \<Rightarrow> 't authority) \<Rightarrow> reply_pool \<Rightarrow> ('k, 't) server \<Rightarrow> ('k, 't) server \<Rightarrow> bool"
  for K :: "'k sel4" and au and p where
  serve_message: "slot_ready slot w \<Longrightarrow> exclusive out ep \<Longrightarrow> polled nb K ep slot w = (Ok (Some rm), v) \<Longrightarrow>
     serve K au p (w, out, ds, R, L)
       (v, Some (rm, length R, taken nb K au ep slot w), ds, R @ [taken nb K au ep slot w], L)"
| serve_none: "slot_ready slot w \<Longrightarrow> exclusive out ep \<Longrightarrow> polled nb K ep slot w = (Ok None, v) \<Longrightarrow>
     serve K au p (w, out, ds, R, L) (v, out, ds, R, L)"
| serve_unreadable: "slot_ready slot w \<Longrightarrow> exclusive out ep \<Longrightarrow> \<not> flag_cells w (ep_pending ep) \<Longrightarrow>
     polled nb K ep slot w = (Err e, v) \<Longrightarrow>
     serve K au p (w, out, ds, R, L) (v, out, ds, R @ [taken nb K au ep slot w],
       recorded (length R, taken nb K au ep slot w) empty_payload L)"
| serve_refused: "flag_cells w (ep_pending ep) \<Longrightarrow> polled nb K ep slot w = (r, v) \<Longrightarrow>
     serve K au p (w, out, ds, R, L) (v, out, ds, R, L)"
| serve_fault: "exclusive out (fe_endpoint fe) \<Longrightarrow> fault_endpoint_receive K fe w = (Ok f, v) \<Longrightarrow>
     serve K au p (w, out, ds, R, L)
       (v, Some (rf_received f, length R, taken False K au (fe_endpoint fe) None w), ds,
        R @ [taken False K au (fe_endpoint fe) None w], L)"
| serve_bad_fault: "exclusive out (fe_endpoint fe) \<Longrightarrow> \<not> flag_cells w (ep_pending (fe_endpoint fe)) \<Longrightarrow>
     fault_endpoint_receive K fe w = (Err e', v) \<Longrightarrow>
     serve K au p (w, out, ds, R, L) (v, out, ds, R @ [taken False K au (fe_endpoint fe) None w],
       recorded (length R, taken False K au (fe_endpoint fe) None w) empty_payload L)"
| serve_fault_refused: "flag_cells w (ep_pending (fe_endpoint fe)) \<Longrightarrow>
     fault_endpoint_receive K fe w = (r', v) \<Longrightarrow> serve K au p (w, out, ds, R, L) (v, out, ds, R, L)"
| serve_reply: "received_message_reply K rm m w = ((Ok (), v) :: (unit, ipc_error) res \<times> 'k world) \<Longrightarrow>
     serve K au p (w, Some (rm, x), ds, R, L) (v, None, ds, R, recorded x (payload K m) L)"
| serve_finish: "received_message_finish K rm w = ((Ok (), v) :: (unit, ipc_error) res \<times> 'k world) \<Longrightarrow>
     serve K au p (w, Some (rm, x), ds, R, L) (v, None, ds, R, recorded x empty_payload L)"
| serve_defer: "received_message_defer K rm p w = (Ok d, v) \<Longrightarrow>
     serve K au p (w, Some (rm, x), ds, R, L) (v, None, (d, x) # ds, R, L)"
| serve_defer_failed: "received_message_defer K rm p w = (Err e, v) \<Longrightarrow>
     serve K au p (w, Some (rm, x), ds, R, L) (v, None, ds, R, recorded x empty_payload L)"
| serve_abandon: "serve K au p (w, Some (rm, x), ds, R, L) (w, None, ds, R, L)"
| serve_complete: "(d, x) \<in> set ds \<Longrightarrow>
     deferred_reply_reply K d m w = ((Ok (), v) :: (unit, ipc_error) res \<times> 'k world) \<Longrightarrow>
     serve K au p (w, out, ds, R, L) (v, out, remove1 (d, x) ds, R, recorded x (payload K m) L)"
| serve_discard: "(d, x) \<in> set ds \<Longrightarrow> deferred_reply_discard K d w = (Ok (), v) \<Longrightarrow>
     serve K au p (w, out, ds, R, L) (v, out, remove1 (d, x) ds, R, L)"
| serve_discard_failed: "(d, x) \<in> set ds \<Longrightarrow> deferred_reply_discard K d w = (Err e, v) \<Longrightarrow>
     serve K au p (w, out, ds, R, L) (v, out, remove1 (d, x) ds, R, L)"
| serve_forsake: "(d, x) \<in> set ds \<Longrightarrow> serve K au p (w, out, ds, R, L) (w, out, remove1 (d, x) ds, R, L)"
| serve_send: "ep_cap ep \<notin> slot_cptr K ` pool_slots p \<Longrightarrow>
     endpoint_send K ep m w = ((Ok (), v) :: (unit, ipc_error) res \<times> 'k world) \<or>
     endpoint_try_send K ep m w = ((Ok (), v) :: (unit, ipc_error) res \<times> 'k world) \<or>
     (\<exists>a. endpoint_call K ep m w = (a, v) \<and> a \<noteq> Panic) \<Longrightarrow>
     serve K au p (w, out, ds, R, L) (v, out, ds, R, L)"
| serve_elsewhere: "flag_cells v = flag_cells w \<Longrightarrow> mask_cells v = mask_cells w \<Longrightarrow>
     authority_of au v = gone T (authority_of au w) \<Longrightarrow>
     serve K au p (w, out, ds, R, L) (v, map_option (forget T) out, map (forget T) ds, R, L)"

section \<open>Every request is answered at most once\<close>

text \<open>
  The numbers in use are those of requests, no two alike, and each belongs to the thread that made
  the request, or to no one if that thread is gone.
\<close>

definition waiters :: "(received_message \<times> 't waiter) option \<Rightarrow> (deferred_reply \<times> 't waiter) list \<Rightarrow>
    (nat \<times> 't \<times> 'x) list \<Rightarrow> 't waiter multiset" where
  "waiters out ds L = mset (case out of None \<Rightarrow> [] | Some (rm, x) \<Rightarrow> [x]) + mset (map snd ds) +
     mset (map (\<lambda>(n, t, y). (n, Some t)) L)"

abbreviation asker :: "'t option list \<Rightarrow> 't waiter \<Rightarrow> bool" where
  "asker R x \<equiv> fst x < length R \<and> (snd x = None \<or> snd x = R ! fst x)"

definition numbered :: "'t option list \<Rightarrow> 't waiter multiset \<Rightarrow> bool" where
  "numbered R W \<longleftrightarrow> (\<forall>n. count (image_mset fst W) n \<le> 1) \<and> (\<forall>x \<in># W. asker R x)"

lemma numbered_mono:
  assumes "numbered R W" and "V \<subseteq># W"
  shows "numbered R V"
proof -
  have "count (image_mset fst V) n \<le> count (image_mset fst W) n" for n
    using image_mset_subseteq_mono [OF assms(2)] by (rule mset_subset_eq_count)
  moreover have "set_mset V \<subseteq> set_mset W" using assms(2) by (rule set_mset_mono)
  ultimately show ?thesis using assms(1) unfolding numbered_def by (meson le_trans subsetD)
qed

lemma numbered_fresh:
  assumes "numbered R W"
  shows "numbered (R @ [c]) (add_mset (length R, c) W)"
proof -
  have "length R \<notin># image_mset fst W" using assms by (auto simp: numbered_def)
  then have "count (image_mset fst W) (length R) = 0" by (meson not_in_iff)
  with assms show ?thesis by (auto simp: numbered_def nth_append)
qed

lemma waiters_iff: "x \<in># waiters out ds L \<longleftrightarrow>
    (\<exists>rm. out = Some (rm, x)) \<or> x \<in> snd ` set ds \<or> x \<in> (\<lambda>(n, t, y). (n, Some t)) ` set L"
  by (cases out) (auto simp: waiters_def)

lemma numbered_left:
  assumes "numbered R (waiters out ds L)"
  shows "numbered R (waiters (map_option (forget T) out) (map (forget T) ds) L)"
proof -
  have same: "image_mset fst (waiters (map_option (forget T) out) (map (forget T) ds) L) = image_mset fst (waiters out ds L)"
    by (simp add: waiters_def multiset.map_comp comp_def split: option.splits prod.splits)
  have "\<exists>y. y \<in># waiters out ds L \<and> fst y = fst x \<and> (snd x = None \<or> snd x = snd y)"
    if "x \<in># waiters (map_option (forget T) out) (map (forget T) ds) L" for x
  proof -
    from that consider rm y where "out = Some (rm, y)" "x = map_prod id (left T) y"
      | d y where "(d, y) \<in> set ds" "x = map_prod id (left T) y"
      | "x \<in> (\<lambda>(n, t, y). (n, Some t)) ` set L"
      unfolding waiters_iff by fastforce
    then show ?thesis
    proof cases
      case 1
      then show ?thesis by (intro exI [of _ y]) (simp add: waiters_iff left_def)
    next
      case 2
      then have "y \<in> snd ` set ds" by force
      with 2(2) show ?thesis by (intro exI [of _ y]) (simp add: waiters_iff left_def)
    next
      case 3
      then show ?thesis by (intro exI [of _ x]) (simp add: waiters_iff)
    qed
  qed
  then have "asker R x" if "x \<in># waiters (map_option (forget T) out) (map (forget T) ds) L" for x
    using that assms unfolding numbered_def by metis
  with assms show ?thesis by (simp add: numbered_def same)
qed

lemma waiters_recorded: "waiters out ds (recorded x y L) \<subseteq># add_mset x (waiters out ds L)"
  by (cases x; cases "snd x") (auto simp: waiters_def)

lemma waiters_simps [simp]:
  "waiters (Some (rm, x)) ds L = add_mset x (waiters None ds L)"
  "waiters out ((d, x) # ds) L = add_mset x (waiters out ds L)"
  by (simp_all add: waiters_def)

lemma waiters_remove:
  assumes "(d, x) \<in> set ds"
  shows "waiters out ds L = add_mset x (waiters out (remove1 (d, x) ds) L)"
proof -
  have "mset ds = add_mset (d, x) (mset (remove1 (d, x) ds))" using assms by simp
  then have "image_mset snd (mset ds) = add_mset x (image_mset snd (mset (remove1 (d, x) ds)))"
    by (metis image_mset_add_mset snd_conv)
  then show ?thesis by (simp add: waiters_def)
qed

lemma answer_numbers: "image_mset fst (mset (map (\<lambda>(n, t, y). (n, Some t)) L)) = mset (map fst L)"
  by (simp add: multiset.map_comp comp_def case_prod_beta)

lemma numbered_answers:
  assumes "numbered R (waiters out ds L)"
  shows "distinct (map fst L)" and "(n, t, y) \<in> set L \<Longrightarrow> n < length R \<and> R ! n = Some t"
proof -
  let ?A = "mset (map (\<lambda>(n, t, y). (n, Some t)) L)"
  have "?A \<subseteq># waiters out ds L" by (simp add: waiters_def)
  then have num: "numbered R ?A" by (rule numbered_mono [OF assms])
  then have "count (mset (map fst L)) n \<le> 1" for n unfolding numbered_def answer_numbers by blast
  then show "distinct (map fst L)" unfolding distinct_count_atmost_1
    by (metis count_mset_0_iff le_neq_implies_less less_one)
  show "n < length R \<and> R ! n = Some t" if "(n, t, y) \<in> set L"
    using num that by (auto simp: numbered_def)
qed

lemma waiting_unanswered:
  assumes num: "numbered R (waiters out ds L)" and x: "out = Some (rm, x) \<or> (d, x) \<in> set ds"
  shows "asker R x \<and> fst x \<notin> fst ` set L"
proof -
  let ?A = "mset (map (\<lambda>(n, t, y). (n, Some t)) L)"
  have "add_mset x ?A \<subseteq># waiters out ds L"
    using x
  proof
    assume "out = Some (rm, x)"
    then show ?thesis by (simp add: waiters_def)
  next
    assume "(d, x) \<in> set ds"
    then show ?thesis unfolding waiters_remove [OF \<open>(d, x) \<in> set ds\<close>] by (simp add: waiters_def)
  qed
  from numbered_mono [OF num this] have "numbered R (add_mset x ?A)" .
  then have "\<forall>n. count (image_mset fst (add_mset x ?A)) n \<le> 1" and "asker R x"
    unfolding numbered_def by (rule conjunct1, simp)
  from spec [OF this(1), of "fst x"] have "count (image_mset fst ?A) (fst x) = 0" by simp
  then have "fst x \<notin># mset (map fst L)" unfolding answer_numbers by (simp only: count_eq_zero_iff not_False_eq_True)
  with \<open>asker R x\<close> show ?thesis by simp
qed

text \<open>A step answers or drops waiters, or adds the one it received.\<close>

lemma serve_numbered:
  assumes "serve K au p s t" and "case s of (w, out, ds, R, L) \<Rightarrow> numbered R (waiters out ds L)"
  shows "case t of (w, out, ds, R, L) \<Rightarrow> numbered R (waiters out ds L)"
  using assms
proof (induction rule: serve.induct)
  case (serve_message slot w out ep nb rm v ds R L)
  then have "numbered R (waiters None ds L)"
    by (auto intro: numbered_mono simp: waiters_def split: option.splits)
  from numbered_fresh [OF this] show ?case by simp
next
  case (serve_fault out fe w f v ds R L)
  then have "numbered R (waiters None ds L)"
    by (auto intro: numbered_mono simp: waiters_def split: option.splits)
  from numbered_fresh [OF this] show ?case by simp
next
  case (serve_elsewhere v w T out ds R L)
  then show ?case using numbered_left by simp
qed (auto intro: numbered_mono [OF _ waiters_recorded] numbered_mono [OF numbered_fresh waiters_recorded]
    numbered_mono simp: waiters_remove)

section \<open>The kernel agrees on who waits\<close>

text \<open>
  The message being handled is the one the kernel's caller waits on, each deferred reply has a slot
  of the pool to itself in which its thread is saved, nobody else is saved anywhere, and the answers
  the kernel delivered are the recorded ones.
\<close>

definition served :: "'k sel4 \<Rightarrow> ('k \<Rightarrow> 't authority) \<Rightarrow> reply_pool \<Rightarrow> 'k world \<Rightarrow>
    (received_message \<times> 't waiter) option \<Rightarrow> (deferred_reply \<times> 't waiter) list \<Rightarrow>
    (nat \<times> 't \<times> u64 \<times> u64 list) list \<Rightarrow> bool" where
  "served K au p w out ds L \<longleftrightarrow> pool_wf p w \<and> au_log (authority_of au w) = map snd L \<and>
     (\<forall>rm x. out = Some (rm, x) \<longrightarrow> flag_cells w (rm_cell rm) \<and> au_caller (authority_of au w) = snd x) \<and>
     distinct (map (dr_slot \<circ> fst) ds) \<and>
     (\<forall>(d, x) \<in> set ds. dr_pool d = p \<and> dr_slot d \<in> pool_used p w \<and>
        au_saved (authority_of au w) (slot_cptr K (dr_slot d)) = snd x) \<and>
     (\<forall>c. au_saved (authority_of au w) c \<noteq> None \<longrightarrow> c \<in> slot_cptr K ` pool_used p w)"

lemma servedI:
  assumes "pool_wf p w" and "au_log (authority_of au w) = map snd L"
    and "\<And>rm x. out = Some (rm, x) \<Longrightarrow> flag_cells w (rm_cell rm) \<and> au_caller (authority_of au w) = snd x"
    and "distinct (map (dr_slot \<circ> fst) ds)"
    and "\<And>d x. (d, x) \<in> set ds \<Longrightarrow> dr_pool d = p \<and> dr_slot d \<in> pool_used p w \<and>
      au_saved (authority_of au w) (slot_cptr K (dr_slot d)) = snd x"
    and "\<And>c. au_saved (authority_of au w) c \<noteq> None \<Longrightarrow> c \<in> slot_cptr K ` pool_used p w"
  shows "served K au p w out ds L"
  unfolding served_def using assms by blast

lemma servedD:
  assumes "served K au p w out ds L"
  shows "pool_wf p w" and "au_log (authority_of au w) = map snd L"
    and "out = Some (rm, x) \<Longrightarrow> flag_cells w (rm_cell rm) \<and> au_caller (authority_of au w) = snd x"
    and "distinct (map (dr_slot \<circ> fst) ds)"
    and "(d, x) \<in> set ds \<Longrightarrow> dr_pool d = p \<and> dr_slot d \<in> pool_used p w \<and>
      au_saved (authority_of au w) (slot_cptr K (dr_slot d)) = snd x"
    and "au_saved (authority_of au w) c \<noteq> None \<Longrightarrow> c \<in> slot_cptr K ` pool_used p w"
  using assms unfolding served_def by blast+

lemma recorded_answers: "map snd (recorded x y L) = answered (snd x) y (map snd L)"
  by (cases x; cases "snd x") auto

text \<open>Steps that leave the pool and the saved callers alone.\<close>

lemma served_same:
  assumes "served K au p w out ds L" and "pool_wf p v" and "pool_used p v = pool_used p w"
    and "au_saved (authority_of au v) = au_saved (authority_of au w)"
    and "au_log (authority_of au v) = map snd L'"
    and "\<And>rm x. out' = Some (rm, x) \<Longrightarrow> flag_cells v (rm_cell rm) \<and> au_caller (authority_of au v) = snd x"
  shows "served K au p v out' ds L'"
  using assms by (simp add: served_def)

lemma served_update:
  assumes "served K au p w out ds L" and "mask_cells v = mask_cells w"
    and "au_saved (authority_of au v) = au_saved (authority_of au w)"
    and "au_log (authority_of au v) = map snd L'"
    and "\<And>rm x. out' = Some (rm, x) \<Longrightarrow> flag_cells v (rm_cell rm) \<and> au_caller (authority_of au v) = snd x"
  shows "served K au p v out' ds L'"
proof -
  have "pool_wf p v = pool_wf p w" "pool_used p v = pool_used p w" using assms(2) by (rule pool_cong)+
  with assms served_same show ?thesis by (metis servedD(1))
qed

text \<open>Whoever may receive and is not refused handles nothing at that time.\<close>

lemma served_idle:
  "served K au p w out ds L \<Longrightarrow> exclusive out ep \<Longrightarrow> \<not> flag_cells w (ep_pending ep) \<Longrightarrow> out = None"
  by (cases out) (auto simp: served_def exclusive_def)

lemma served_received:
  assumes laws: "reply_laws K au" and inv: "served K au p w out ds L" and ready: "slot_ready slot w"
    and "exclusive out ep" and run: "polled nb K ep slot w = (r, v)" and "r \<noteq> Panic"
    and free: "\<not> flag_cells w (ep_pending ep)"
  shows "case r of Ok (Some rm) \<Rightarrow> served K au p v (Some (rm, n, taken nb K au ep slot w)) ds L
    | Ok None \<Rightarrow> served K au p v out ds L
    | _ \<Rightarrow> served K au p v out ds (recorded (n, taken nb K au ep slot w) empty_payload L)"
proof -
  have out: "out = None" by (rule served_idle) fact+
  note au = polled_authority [OF laws ready free run \<open>r \<noteq> Panic\<close>]
  note update = served_update [OF inv polled_outcome(2) [OF ready run]]
  have log: "au_log (authority_of au w) = map snd L" using inv by (simp add: served_def)
  show ?thesis
  proof (cases r)
    case (Ok x)
    with au log out polled_outcome(1) [OF ready run] show ?thesis
      by (cases x) (auto intro!: update simp: receive_contract_def)
  qed (use au log out \<open>r \<noteq> Panic\<close> in \<open>auto intro!: update simp: recorded_answers\<close>)
qed

lemma served_fault:
  assumes laws: "reply_laws K au" and inv: "served K au p w out ds L"
    and "exclusive out (fe_endpoint fe)" and run: "fault_endpoint_receive K fe w = (r, v)" and "r \<noteq> Panic"
    and free: "\<not> flag_cells w (ep_pending (fe_endpoint fe))"
  shows "case r of Ok f \<Rightarrow> served K au p v (Some (rf_received f, n, taken False K au (fe_endpoint fe) None w)) ds L
    | _ \<Rightarrow> served K au p v out ds (recorded (n, taken False K au (fe_endpoint fe) None w) empty_payload L)"
proof -
  have out: "out = None" by (rule served_idle) fact+
  note au = fault_authority [OF laws free run \<open>r \<noteq> Panic\<close>]
  have "au_log (authority_of au w) = map snd L" using inv by (simp add: served_def)
  with au out fault_receive_outcome [OF run] \<open>r \<noteq> Panic\<close> show ?thesis
    by (cases r) (auto intro!: served_update [OF inv] simp: recorded_answers fault_contract_def)
qed

text \<open>Completing, discarding or forgetting a deferred reply.\<close>

lemma served_removed:
  assumes inv: "served K au p w out ds L"
  shows "served K au p w out (remove1 y ds) L"
proof (rule servedI)
  show "distinct (map (dr_slot \<circ> fst) (remove1 y ds))" using distinct_remove1_map [OF servedD(4) [OF inv]] by blast
  show "dr_pool d = p \<and> dr_slot d \<in> pool_used p w \<and> au_saved (authority_of au w) (slot_cptr K (dr_slot d)) = snd x"
    if "(d, x) \<in> set (remove1 y ds)" for d x
    using servedD(5) [OF inv] that by (meson set_remove1_subset subsetD)
qed (use servedD [OF inv] in blast)+

lemma served_completed:
  assumes inv: "served K au p w out ds L" and d: "(d, x) \<in> set ds" and inj: "inj (slot_cptr K)"
    and "pool_wf p v" and "flag_cells v = flag_cells w" and "pool_used p v = pool_used p w - {dr_slot d}"
    and "au_saved (authority_of au v) = (au_saved (authority_of au w))(slot_cptr K (dr_slot d) := None)"
    and "au_caller (authority_of au v) = au_caller (authority_of au w)"
    and "au_log (authority_of au v) = map snd L'"
  shows "served K au p v out (remove1 (d, x) ds) L'"
proof -
  note split = distinct_remove1_map [OF servedD(4) [OF inv], of "(d, x)"]
  have other: "(e, y) \<in> set ds \<and> dr_slot e \<noteq> dr_slot d" if "(e, y) \<in> set (remove1 (d, x) ds)" for e y
  proof
    show "(e, y) \<in> set ds" using that by (rule subsetD [OF set_remove1_subset])
    have "(dr_slot \<circ> fst) (e, y) \<noteq> (dr_slot \<circ> fst) (d, x)" using split d that by blast
    then show "dr_slot e \<noteq> dr_slot d" by simp
  qed
  show ?thesis
  proof (rule servedI)
    show "distinct (map (dr_slot \<circ> fst) (remove1 (d, x) ds))" using split by blast
    show "flag_cells v (rm_cell rm) \<and> au_caller (authority_of au v) = snd y" if "out = Some (rm, y)" for rm y
      using servedD(3) [OF inv that] assms(5,8) by simp
    show "dr_pool e = p \<and> dr_slot e \<in> pool_used p v \<and> au_saved (authority_of au v) (slot_cptr K (dr_slot e)) = snd y"
      if "(e, y) \<in> set (remove1 (d, x) ds)" for e y
      using other [OF that] servedD(5) [OF inv, of e y] assms(6,7) inj by (simp add: inj_eq)
    show "c \<in> slot_cptr K ` pool_used p v" if "au_saved (authority_of au v) c \<noteq> None" for c
      using that servedD(6) [OF inv, of c] assms(6,7) by (auto split: if_splits)
  qed fact+
qed

lemma served_deferred:
  assumes laws: "reply_laws K au" and inj: "inj (slot_cptr K)" and inv: "served K au p w (Some (rm, x)) ds L"
    and run: "received_message_defer K rm p w = (r, v)" and "r \<noteq> Panic"
  shows "case r of Ok d \<Rightarrow> served K au p v None ((d, x) # ds) L
    | _ \<Rightarrow> served K au p v None ds (recorded x empty_payload L)"
proof -
  have wf: "pool_wf p w" by (rule servedD(1) [OF inv])
  note out = defer_outcome [OF wf run] and au = defer_authority [OF laws wf run \<open>r \<noteq> Panic\<close>]
  have caller: "au_caller (authority_of au w) = snd x" using servedD(3) [OF inv] by simp
  show ?thesis
  proof (cases r)
    case (Ok d)
    with out have d: "dr_pool d = p" "dr_slot d \<notin> pool_used p w" "pool_used p v = insert (dr_slot d) (pool_used p w)"
      and v: "pool_wf p v" by auto
    from au Ok caller have saved: "au_saved (authority_of au v) =
        (au_saved (authority_of au w))(slot_cptr K (dr_slot d) := snd x)"
      and log: "au_log (authority_of au v) = au_log (authority_of au w)" by simp_all
    have other: "dr_slot e \<noteq> dr_slot d" if "(e, y) \<in> set ds" for e y using servedD(5) [OF inv that] d(2) by auto
    have "served K au p v None ((d, x) # ds) L"
    proof (rule servedI)
      show "distinct (map (dr_slot \<circ> fst) ((d, x) # ds))" using servedD(4) [OF inv] other by fastforce
      show "dr_pool e = p \<and> dr_slot e \<in> pool_used p v \<and> au_saved (authority_of au v) (slot_cptr K (dr_slot e)) = snd y"
        if "(e, y) \<in> set ((d, x) # ds)" for e y
        using that other [of e y] servedD(5) [OF inv, of e y] d saved inj by (auto simp: inj_eq)
      show "c \<in> slot_cptr K ` pool_used p v" if "au_saved (authority_of au v) c \<noteq> None" for c
        using that servedD(6) [OF inv, of c] d saved by (auto split: if_splits)
    qed (use v log servedD(2) [OF inv] in simp_all)
    with Ok show ?thesis by simp
  next
    case (Err e)
    have "served K au p v None ds (recorded x empty_payload L)"
    proof (rule servedI)
      show "dr_pool e = p \<and> dr_slot e \<in> pool_used p v \<and> au_saved (authority_of au v) (slot_cptr K (dr_slot e)) = snd y"
        if "(e, y) \<in> set ds" for e y using servedD(5) [OF inv that] out au Err by simp
      show "c \<in> slot_cptr K ` pool_used p v" if "au_saved (authority_of au v) c \<noteq> None" for c
        using that servedD(6) [OF inv, of c] out au Err by simp
    qed (use out au Err caller servedD(2,4) [OF inv] in \<open>simp_all add: recorded_answers\<close>)
    with Err show ?thesis by simp
  qed (use \<open>r \<noteq> Panic\<close> in simp)
qed

lemma served_elsewhere:
  assumes inv: "served K au p w out ds L" and "flag_cells v = flag_cells w" and "mask_cells v = mask_cells w"
    and "authority_of au v = gone T (authority_of au w)"
  shows "served K au p v (map_option (forget T) out) (map (forget T) ds) L"
proof (rule servedI)
  have pool: "pool_wf p v = pool_wf p w" "pool_used p v = pool_used p w" using assms(3) by (rule pool_cong)+
  show "pool_wf p v" using servedD(1) [OF inv] pool by simp
  show "au_log (authority_of au v) = map snd L" using servedD(2) [OF inv] assms(4) by (simp add: gone_def)
  show "flag_cells v (rm_cell rm) \<and> au_caller (authority_of au v) = snd x"
    if "map_option (forget T) out = Some (rm, x)" for rm x
    using that servedD(3) [OF inv] assms(2,4) by (auto simp: gone_def)
  have "map (dr_slot \<circ> fst) (map (forget T) ds) = map (dr_slot \<circ> fst) ds" by simp
  then show "distinct (map (dr_slot \<circ> fst) (map (forget T) ds))" using servedD(4) [OF inv] by (simp only:)
  show "dr_pool d = p \<and> dr_slot d \<in> pool_used p v \<and> au_saved (authority_of au v) (slot_cptr K (dr_slot d)) = snd x"
    if "(d, x) \<in> set (map (forget T) ds)" for d x
    using that servedD(5) [OF inv] assms(4) pool by (auto simp: gone_def)
  show "c \<in> slot_cptr K ` pool_used p v" if "au_saved (authority_of au v) c \<noteq> None" for c
    using that servedD(6) [OF inv, of c] assms(4) pool by (auto simp: gone_def left_def split: if_splits)
qed

section \<open>The invariant of the machine\<close>

lemma serve_step:
  assumes "serve K au p s t" and laws: "reply_laws K au" and inj: "inj (slot_cptr K)"
    and "case s of (w, out, ds, R, L) \<Rightarrow> served K au p w out ds L"
  shows "case t of (w, out, ds, R, L) \<Rightarrow> served K au p w out ds L"
  using assms(1,4)
proof (induction rule: serve.induct)
  case (serve_message slot w out ep nb rm v ds R L)
  have "\<not> flag_cells w (ep_pending ep)" using serve_message(3) polled_refused [of w ep nb K slot] by auto
  with served_received [OF laws _ serve_message(1-3)] serve_message(4) show ?case by simp
next
  case (serve_none slot w out ep nb v ds R L)
  have "\<not> flag_cells w (ep_pending ep)" using serve_none(3) polled_refused [of w ep nb K slot] by auto
  with served_received [OF laws _ serve_none(1-3)] serve_none(4) show ?case by simp
next
  case (serve_unreadable slot w out ep nb e v ds R L)
  with served_received [OF laws _ serve_unreadable(1,2,4)] show ?case by simp
next
  case (serve_refused w ep nb slot r v out ds R L)
  then show ?case by (simp add: polled_refused)
next
  case (serve_fault out fe w f v ds R L)
  then have "\<not> flag_cells w (ep_pending (fe_endpoint fe))"
    using fault_receive_outcome [OF serve_fault(2)] by (simp add: fault_contract_def)
  with served_fault [OF laws _ serve_fault(1,2)] serve_fault(3) show ?case by simp
next
  case (serve_bad_fault out fe w e v ds R L)
  with served_fault [OF laws _ serve_bad_fault(1,3)] show ?case by simp
next
  case (serve_fault_refused w fe r v out ds R L)
  with fault_refused_iff [of K fe w] fault_receive_outcome [OF serve_fault_refused(2)] show ?case
    by (simp add: fault_contract_def)
next
  case (serve_reply rm m w v x ds R L)
  then have inv: "served K au p w (Some (rm, x)) ds L" by simp
  have "mask_cells v = mask_cells w" using reply_cells [OF serve_reply(1)] by simp
  with served_update [OF inv this, of "recorded x (payload K m) L" None] reply_authority [OF laws serve_reply(1)]
    servedD(2) [OF inv] servedD(3) [OF inv] show ?case by (simp add: recorded_answers)
next
  case (serve_finish rm w v x ds R L)
  then have inv: "served K au p w (Some (rm, x)) ds L" by simp
  have v: "v = replied K (rm_endpoint rm) w"
    using serve_finish(1) by (simp add: received_message_finish_def clear_implicit_reply_run)
  with served_update [OF inv, of v "recorded x empty_payload L" None] replied_authority [OF laws]
    servedD(2) [OF inv] servedD(3) [OF inv] show ?case by (simp add: recorded_answers)
next
  case (serve_defer rm w d v x ds R L)
  with served_deferred [OF laws inj _ serve_defer(1)] show ?case by simp
next
  case (serve_defer_failed rm w e v x ds R L)
  with served_deferred [OF laws inj _ serve_defer_failed(1)] show ?case by simp
next
  case (serve_abandon w rm x ds R L)
  then have inv: "served K au p w (Some (rm, x)) ds L" by simp
  with served_update [OF inv refl refl servedD(2) [OF inv], of None] show ?case by simp
next
  case (serve_complete d x ds m w v out R L)
  then have inv: "served K au p w out ds L" by simp
  note d = servedD(5) [OF inv serve_complete(1)]
  have slot: "dr_pool d = p" "dr_slot d \<in> pool_slots p" and wf: "pool_wf p w"
    using d pool_used_subset servedD(1) [OF inv] by auto
  from deferred_reply_outcome [OF wf slot serve_complete(2)] deferred_authority [OF laws wf slot serve_complete(2)]
    served_completed [OF inv serve_complete(1) inj] d servedD(2) [OF inv]
  show ?case by (simp add: recorded_answers Let_def)
next
  case (serve_discard d x ds w v out R L)
  then have inv: "served K au p w out ds L" by simp
  have slot: "dr_pool d = p" "dr_slot d \<in> pool_slots p" and wf: "pool_wf p w"
    using servedD(5) [OF inv serve_discard(1)] pool_used_subset servedD(1) [OF inv] by auto
  from discard_outcome [OF wf slot serve_discard(2)] discard_authority [OF laws wf slot serve_discard(2)]
    served_completed [OF inv serve_discard(1) inj] servedD(2) [OF inv]
  show ?case by (simp add: Let_def)
next
  case (serve_discard_failed d x ds w e v out R L)
  then have inv: "served K au p w out ds L" by simp
  have slot: "dr_pool d = p" "dr_slot d \<in> pool_slots p" and wf: "pool_wf p w"
    using servedD(5) [OF inv serve_discard_failed(1)] pool_used_subset servedD(1) [OF inv] by auto
  from discard_outcome [OF wf slot serve_discard_failed(2)] discard_authority [OF laws wf slot serve_discard_failed(2)]
    served_same [OF inv, of v L out] servedD(2,3) [OF inv]
  have "served K au p v out ds L" by (simp add: Let_def)
  then show ?case by (simp add: served_removed)
next
  case (serve_forsake d x ds w out R L)
  then show ?case by (simp add: served_removed)
next
  case (serve_send ep m w v out ds R L)
  then have inv: "served K au p w out ds L" by simp
  have "au_saved (authority_of au w) (ep_cap ep) = None"
    using servedD(6) [OF inv, of "ep_cap ep"] pool_used_subset [OF servedD(1) [OF inv]] serve_send(1) by blast
  note same = send_authority [OF laws this]
  from serve_send(2) have "authority_of au v = authority_of au w \<and> flag_cells v = flag_cells w \<and> mask_cells v = mask_cells w"
  proof (elim disjE exE conjE)
    assume run: "endpoint_send K ep m w = ((Ok (), v) :: (unit, ipc_error) res \<times> _)"
    from same(1) [OF run] send_cells(1) [OF run] show ?thesis by simp
  next
    assume run: "endpoint_try_send K ep m w = ((Ok (), v) :: (unit, ipc_error) res \<times> _)"
    from same(2) [OF run] send_cells(2) [OF run] show ?thesis by simp
  next
    fix a
    assume run: "endpoint_call K ep m w = (a, v)" and "a \<noteq> Panic"
    from same(3) [OF this] call_cells [OF run] show ?thesis by simp
  qed
  with served_update [OF inv, of v L out] servedD(2,3) [OF inv] show ?case by simp
next
  case (serve_elsewhere v w T out ds R L)
  with served_elsewhere [OF _ serve_elsewhere(1-3)] show ?case by simp
qed

lemma serve_reach:
  assumes "(serve K au p)\<^sup>*\<^sup>* s t" and "reply_laws K au" and "inj (slot_cptr K)"
    and "case s of (w, out, ds, R, L) \<Rightarrow> served K au p w out ds L \<and> numbered R (waiters out ds L)"
  shows "case t of (w, out, ds, R, L) \<Rightarrow> served K au p w out ds L \<and> numbered R (waiters out ds L)"
  using assms(1,4)
proof (induction rule: rtranclp_induct)
  case (step t u)
  then have "case t of (w, out, ds, R, L) \<Rightarrow> served K au p w out ds L"
    "case t of (w, out, ds, R, L) \<Rightarrow> numbered R (waiters out ds L)" by (auto split: prod.splits)
  from serve_step [OF step(2) assms(2,3) this(1)] serve_numbered [OF step(2) this(2)] show ?case
    by (auto split: prod.splits)
qed

section \<open>The reference kernel\<close>

text \<open>Two clients call one endpoint; the first is deferred and answered after the second.\<close>

abbreviation served_endpoint :: endpoint where
  "served_endpoint \<equiv> \<lparr>ep_cap = 10, ep_pending = 0\<rparr>"

abbreviation served_pool :: reply_pool where
  "served_pool \<equiv> \<lparr>rp_slots = \<lparr>range_start = 100, range_end = 102\<rparr>, rp_occupied = 0\<rparr>"

abbreviation client_call :: "nat \<Rightarrow> u64 \<Rightarrow> waiting" where
  "client_call t x \<equiv> \<lparr>wt_thread = t, wt_call = True, wt_badge = 7,
     wt_info = \<lparr>mi_label = 0, mi_caps_unwrapped = 0, mi_extra_caps = 0, mi_length = 1\<rparr>, wt_words = [x]\<rparr>"

definition roomy :: "ref_kernel world \<Rightarrow> bool" where
  "roomy w \<longleftrightarrow> length (msg_regs (wbuf w)) = 4"

lemma call_received:
  assumes "roomy w" and "\<not> flag_cells w 0" and "rk_queue (kstate (mach w)) 10 = client_call t x # rest"
  shows "\<exists>rm v. polled False ref_sel4 served_endpoint None w = (Ok (Some rm), v) \<and> roomy v \<and>
    rm_endpoint rm = served_endpoint \<and> rk_caller (kstate (mach v)) = Some t \<and>
    rk_queue (kstate (mach v)) 10 = rest \<and> mask_cells v = mask_cells w \<and>
    taken False ref_sel4 ref_authority served_endpoint None w = Some t"
  using assms
  by (simp add: polled_def pmap_def receive_run configure_receive_path_def pmodify_def ref_recv_def roomy_def
      deliver_run slot_ready_def slot_done_def message_received_def MESSAGE_CAPACITY_def EXTRA_CAPACITY_def
      message_empty_def slice_to_def copy_prefix_def set_buf_def set_flag_def Let_def taken_def ref_authority_def)

lemma call_deferred:
  assumes "pool_wf served_pool w" and "pool_used served_pool w = {}" and "rk_caller (kstate (mach w)) = Some t"
    and "rm_endpoint rm = served_endpoint" and "roomy w"
  shows "\<exists>d v. received_message_defer ref_sel4 rm served_pool w = (Ok d, v) \<and> roomy v \<and> \<not> flag_cells v 0 \<and>
    rk_queue (kstate (mach v)) = rk_queue (kstate (mach w)) \<and> dr_pool d = served_pool \<and> dr_slot d \<in> pool_slots served_pool \<and>
    pool_wf served_pool v"
proof -
  have slots: "pool_slots served_pool = {100 ..< 102}" by (simp add: pool_slots_def set_range_list)
  from reply_pool_reserve_run [OF assms(1)] obtain x u where
    res: "reply_pool_reserve served_pool w = ((Ok x, u) :: (usize option, ipc_error) res \<times> _)"
    and u: "mach u = mach w" and x: "case x of None \<Rightarrow> u = w \<and> pool_used served_pool w = pool_slots served_pool
      | Some s \<Rightarrow> s \<in> pool_slots served_pool - pool_used served_pool w \<and> pool_used served_pool u = insert s (pool_used served_pool w)"
    by blast
  have "{100 ..< 102 :: usize} \<noteq> {}" by simp
  with x assms(2) slots obtain s where s: "x = Some s" by (cases x) auto
  have "\<exists>d v. received_message_defer ref_sel4 rm served_pool w = (Ok d, v) \<and> roomy v \<and>
      rk_queue (kstate (mach v)) = rk_queue (kstate (mach w))"
    unfolding received_message_defer_def pbind_run(1) [of "reply_pool_reserve served_pool", OF res] s
    using assms(3,5) u by (simp add: save_caller_def syscall_def pbind_def pmodify_def pret_def roomy_def)
  then obtain d v where run: "received_message_defer ref_sel4 rm served_pool w = (Ok d, v)"
    and v: "roomy v" "rk_queue (kstate (mach v)) = rk_queue (kstate (mach w))" by blast
  with defer_outcome [OF assms(1) run] assms(4) show ?thesis by auto
qed

lemma answer_prepared:
  assumes "message_with_capabilities ref_sel4 0 [x] [] = Ok m" and "roomy w"
  shows "\<exists>info u. message_prepare ref_sel4 m w = ((Ok info, u) :: (msg_info, 'e) res \<times> _) \<and> roomy u" and "payload ref_sel4 m = (0, [x])"
proof -
  show "\<exists>info u. message_prepare ref_sel4 m w = ((Ok info, u) :: (msg_info, 'e) res \<times> _) \<and> roomy u"
    unfolding message_prepare_wf [OF conjunct1 [OF message_with_capabilities_wf [OF assms(1)]]]
    using assms by (auto simp: message_with_capabilities_Ok MESSAGE_CAPACITY_def EXTRA_CAPACITY_def roomy_def)
  show "payload ref_sel4 m = (0, [x])"
    using assms(1) by (auto simp: message_with_capabilities_Ok MESSAGE_CAPACITY_def EXTRA_CAPACITY_def payload_def packed_info_def)
qed

lemma answer_replied:
  assumes "message_with_capabilities ref_sel4 0 [x] [] = Ok m" and "roomy w"
  shows "\<exists>v. received_message_reply ref_sel4 rm m w = ((Ok (), v) :: (unit, ipc_error) res \<times> _) \<and> roomy v \<and>
    mask_cells v = mask_cells w"
proof -
  from answer_prepared(1) [OF assms] obtain info u where
    prep: "message_prepare ref_sel4 m w = ((Ok info, u) :: (msg_info, ipc_error) res \<times> _)" and u: "roomy u" by blast
  have "ipcbuf (snd (ref_reply info n)) = ipcbuf n" for n by (simp add: ref_reply_def split: option.splits)
  with u message_prepare_cells [OF prep] show ?thesis
    by (simp add: received_message_reply_def pbind_def prep invoke_run pmodify_def roomy_def)
qed

lemma answer_completed:
  assumes "message_with_capabilities ref_sel4 0 [x] [] = Ok m" and "roomy w"
    and "dr_pool d = p" and "dr_slot d \<in> pool_slots p" and "pool_wf p w"
  shows "\<exists>v. deferred_reply_reply ref_sel4 d m w = ((Ok (), v) :: (unit, ipc_error) res \<times> _)"
proof -
  from answer_prepared(1) [OF assms(1,2)] obtain info u where
    prep: "message_prepare ref_sel4 m w = ((Ok info, u) :: (msg_info, ipc_error) res \<times> _)" by blast
  have "pool_wf p (u\<lparr>mach := n\<rparr>)" for n
    using assms(5) message_prepare_cells [OF prep] by (simp add: pool_cong [of u w])
  from reply_pool_release_run [OF this assms(4)] show ?thesis
    by (auto simp: deferred_reply_reply_def pbind_def prep invoke_run assms(3))
qed

section \<open>Properties\<close>

text \<open>
  C4. Answers reach the threads that asked: for a server that handles one message at a time, over
  any run of receives, faults, replies, deferrals, completions, discards, sends and other activity,
  the answers the kernel delivered are exactly those the server gave, in order and with their
  content; every answer went to the thread whose request it answers; no request was answered
  twice; and whatever is still open, being handled or deferred, is not answered yet and the
  authority that is kept for it belongs to the thread that made the request.
\<close>

theorem answers_reach_askers:
  assumes "reply_laws K au" and "inj (slot_cptr K)" and "pool_wf p w"
    and "au_saved (authority_of au w) = (\<lambda>_. None)" and "au_log (authority_of au w) = []"
    and "(serve K au p)\<^sup>*\<^sup>* (w, None, [], [], []) (v, out, ds, R, L)"
  shows "au_log (authority_of au v) = map snd L \<and> distinct (map fst L) \<and>
    (\<forall>(n, t, y) \<in> set L. n < length R \<and> R ! n = Some t) \<and>
    (\<forall>rm n c. out = Some (rm, n, c) \<longrightarrow>
      au_caller (authority_of au v) = c \<and> (c = None \<or> c = R ! n) \<and> n \<notin> fst ` set L) \<and>
    (\<forall>(d, n, c) \<in> set ds.
      au_saved (authority_of au v) (slot_cptr K (dr_slot d)) = c \<and> (c = None \<or> c = R ! n) \<and> n \<notin> fst ` set L)"
proof -
  have "served K au p w None [] []" using assms(3-5) by (simp add: served_def)
  moreover have "numbered [] (waiters None [] ([] :: (nat \<times> 'b \<times> u64 \<times> u64 list) list))"
    by (simp add: numbered_def waiters_def)
  ultimately have inv: "served K au p v out ds L" and num: "numbered R (waiters out ds L)"
    using serve_reach [OF assms(6,1,2)] by simp_all
  have "au_caller (authority_of au v) = c \<and> (c = None \<or> c = R ! n) \<and> n \<notin> fst ` set L"
    if "out = Some (rm, n, c)" for rm n c
    using servedD(3) [OF inv that] waiting_unanswered [OF num disjI1 [OF that]] by simp
  moreover have "au_saved (authority_of au v) (slot_cptr K (dr_slot d)) = c \<and> (c = None \<or> c = R ! n) \<and> n \<notin> fst ` set L"
    if "(d, n, c) \<in> set ds" for d n c
    using servedD(5) [OF inv that] waiting_unanswered [OF num disjI2 [OF that]] by simp
  moreover have "n < length R \<and> R ! n = Some t" if "(n, t, y) \<in> set L" for n t y
    using numbered_answers(2) [OF num that] .
  ultimately show ?thesis using servedD(2) [OF inv] numbered_answers(1) [OF num] by blast
qed

theorem answers_reach_askers_witness:
  "\<exists>w v. (serve ref_sel4 ref_authority served_pool)\<^sup>*\<^sup>* (w, None, [], [], [])
       (v, None, [], [Some 1, Some 2], [(0, 1, 0, [11]), (1, 2, 0, [22])]) \<and>
     rk_log (kstate (mach v)) = [(1, 0, [11]), (2, 0, [22])]"
proof -
  let ?w = "ref_world [] ((\<lambda>_. [])(10 := [client_call 1 5, client_call 2 6]))"
  let ?serve = "serve ref_sel4 ref_authority served_pool"
  have ready: "slot_ready None w" for w :: "ref_kernel world" by (simp add: slot_ready_def)
  have idle: "exclusive None ep" for ep by (simp add: exclusive_def)
  have wf: "pool_wf served_pool ?w" and none: "pool_used served_pool ?w = {}"
    by (simp_all add: pool_wf_def pool_used_def range_len_def ref_world_def)
  obtain m1 m2 where m: "message_with_capabilities ref_sel4 0 [11] [] = Ok m1" "message_with_capabilities ref_sel4 0 [22] [] = Ok m2"
    by (simp add: message_with_capabilities_Ok MESSAGE_CAPACITY_def EXTRA_CAPACITY_def)
  have start: "roomy ?w" "\<not> flag_cells ?w 0" "rk_queue (kstate (mach ?w)) 10 = client_call 1 5 # [client_call 2 6]"
    by (simp_all add: roomy_def ref_world_def)
  from call_received [OF start] obtain rm1 w1 where
    got1: "polled False ref_sel4 served_endpoint None ?w = (Ok (Some rm1), w1)" "roomy w1"
    "rm_endpoint rm1 = served_endpoint" "rk_caller (kstate (mach w1)) = Some 1"
    "rk_queue (kstate (mach w1)) 10 = [client_call 2 6]" "mask_cells w1 = mask_cells ?w"
    and from1: "taken False ref_sel4 ref_authority served_endpoint None ?w = Some 1" by blast
  have s1: "?serve (?w, None, [], [], []) (w1, Some (rm1, 0, Some 1), [], [Some 1], [])"
    using serve_message [OF ready idle got1(1), of ref_authority served_pool "[]" "[]" "[]"] from1 by simp
  have pool: "pool_wf served_pool w1" "pool_used served_pool w1 = {}"
    using wf none pool_cong [OF got1(6), of served_pool] by simp_all
  from call_deferred [OF pool got1(4,3,2)] obtain d w2 where
    deferred: "received_message_defer ref_sel4 rm1 served_pool w1 = (Ok d, w2)" "roomy w2" "\<not> flag_cells w2 0"
    "dr_pool d = served_pool" "dr_slot d \<in> pool_slots served_pool" "pool_wf served_pool w2"
    and queue: "rk_queue (kstate (mach w2)) 10 = client_call 2 6 # []" using got1(5) by auto
  note s2 = serve_defer [OF deferred(1), of ref_authority "(0, Some 1)" "[]" "[Some 1]" "[]"]
  from call_received [OF deferred(2,3) queue] obtain rm2 w3 where
    got2: "polled False ref_sel4 served_endpoint None w2 = (Ok (Some rm2), w3)" "roomy w3" "mask_cells w3 = mask_cells w2"
    and from2: "taken False ref_sel4 ref_authority served_endpoint None w2 = Some 2" by blast
  have s3: "?serve (w2, None, [(d, 0, Some 1)], [Some 1], []) (w3, Some (rm2, 1, Some 2), [(d, 0, Some 1)], [Some 1, Some 2], [])"
    using serve_message [OF ready idle got2(1), of ref_authority served_pool "[(d, 0, Some 1)]" "[Some 1]" "[]"] from2 by simp
  from answer_replied [OF m(2) got2(2), of rm2] obtain w4 where
    reply: "received_message_reply ref_sel4 rm2 m2 w3 = ((Ok (), w4) :: (unit, ipc_error) res \<times> _)" "roomy w4" "mask_cells w4 = mask_cells w3"
    by blast
  note s4 = serve_reply [OF reply(1), of ref_authority served_pool "(1, Some 2)" "[(d, 0, Some 1)]" "[Some 1, Some 2]" "[]"]
  have "pool_wf served_pool w4" using deferred(6) got2(3) reply(3) pool_cong(1) [of w4 w2 served_pool] by simp
  from answer_completed [OF m(1) reply(2) deferred(4,5) this] obtain w5 where
    complete: "deferred_reply_reply ref_sel4 d m1 w4 = ((Ok (), w5) :: (unit, ipc_error) res \<times> _)" by blast
  have "(d, 0 :: nat, Some 1) \<in> set [(d, 0, Some (1 :: nat))]" by simp
  note s5 = serve_complete [OF this complete, of ref_authority served_pool None "[Some 1, Some 2]" "recorded (1, Some 2) (payload ref_sel4 m2) []"]
  have reach: "?serve\<^sup>*\<^sup>* (?w, None, [], [], []) (w5, None, [], [Some 1, Some 2], [(0, 1, 0, [11]), (1, 2, 0, [22])])"
    using s1 s2 s3 s4 s5 answer_prepared(2) [OF m(1)] answer_prepared(2) [OF m(2)] got1(2)
    by (simp add: converse_rtranclp_into_rtranclp)
  have "au_saved (authority_of ref_authority ?w) = (\<lambda>_. None)" "au_log (authority_of ref_authority ?w) = []"
    by (simp_all add: authority_of_def ref_authority_def ref_world_def)
  from answers_reach_askers [OF ref_reply_laws _ wf this reach]
  have "rk_log (kstate (mach w5)) = [(1, 0, [11]), (2, 0, [22])]"
    by (simp add: inj_def authority_of_def ref_authority_def)
  with reach show ?thesis by blast
qed

end
