(* ===== verification/Spec2Isabelle.thy ===== *)
theory Spec2Isabelle
  imports Errors Free_Slots Ipc_State Root_Slots Objects Boot Messages Endpoints Reply_Pool
    Ipc_Protocol CSpace VSpace Thread Task_Layout Faults Fault_Endpoint Task
    Accessors Kernel_Contract Progress Panic_Freedom Bounded_Work System Ipc_Typing Unit_Tests
    Triples Provision Refusal Memory_View Memory_Growth Memory_Kernel Isolation Scenario
    Fault_Recovery Reply_Routing Server
begin

text \<open>
  \<^bold>\<open>The Ricoq substrate.\<close>
  The crate \<open>src/crates/substrate\<close> is the layer between the seL4 kernel and the root task of
  Ricoq. From the boot information it takes a range of empty root CSpace slots and a list of
  untyped memory regions, creates kernel objects in them, and builds isolated tasks out of a CSpace,
  an address space, private frames and a thread, undoing everything if a step fails. Tasks talk to
  the root task over endpoints; the substrate encodes messages, keeps track of the one-shot reply
  authority of the classic kernel, receives capabilities into tracked slots, and decodes the faults
  the kernel reports on a fault endpoint. All paths below are relative to
  \<open>src/crates/substrate/src\<close>.

  \<^bold>\<open>How the parts interact.\<close>
  \<open>FreeSlots\<close> (free\_slots.rs) owns the unallocated root slots. \<open>object\<close> (object.rs) retypes
  untyped memory into the next of them, and \<open>copy\_to\_root\<close> (cspace.rs) copies a capability there;
  both commit the slot only when the kernel succeeded. \<open>Bootstrap\<close> (boot.rs) owns the allocator
  and adds checkpoints and rollback. \<open>VSpace\<close>, \<open>CSpace\<close>, \<open>Thread\<close> and the IPC objects are
  created through \<open>Bootstrap\<close>, and \<open>create\_task\<close> (task.rs) composes them between a
  checkpoint and, on failure, a rollback. On the communication side \<open>Endpoint\<close> (ipc.rs) holds a
  flag that says whether the implicit reply of its last message is outstanding; a
  \<open>ReceivedMessage\<close> consumes it by a reply, a finish or a deferral, the last of which saves the
  caller into a slot of a \<open>ReplyPool\<close>. A \<open>ReceiveSlot\<close> holds a reservation of the slot tracker
  (ipc\_state.rs) of a child CSpace. \<open>FaultEndpoint\<close> (fault.rs) is an endpoint whose messages must
  be badged, carry no capabilities and decode as faults.

  \<^bold>\<open>Theories and what they model.\<close>
  \<^item> \<open>Prelude\<close>: 64-bit target integers, the standard-library fragment (checked arithmetic, ranges,
    slice copies, bit scans) and programs: state transformers with the results \<open>Ok\<close>, \<open>Err\<close> and
    \<open>Panic\<close>, the question-mark operator as \<open>pbind\<close>, a \<open>for\<close> loop with early exit as \<open>pfor\<close>.
  \<^item> \<open>Contracts\<close>: the locales shared by components. \<open>step\_order\<close> closes a preorder on states
    under program composition; it is interpreted for the ledger of the root CSpace, for that of
    a bootstrap, and for the shape of the IPC buffer. \<open>monotone\_source\<close> shows that a counter never hands out a value twice; it is
    interpreted for root slots and for badges.
  \<^item> \<open>Errors\<close>: errors.rs, and the error types of ipc\_state.rs and ipc.rs.
  \<^item> \<open>Free\_Slots\<close>: free\_slots.rs. A step relation over allocations, failed allocations,
    reservations and rewinds, with the set of owned slots as ghost state.
  \<^item> \<open>Ipc\_State\<close>: ipc\_state.rs (\<open>BadgeSequence\<close>, \<open>SlotTracker\<close>, \<open>SlotReservation\<close>). The byte
    array is refined to a map from slots to owners; the locale \<open>slot\_owner\<close> states that contract
    and is interpreted on the tracker.
  \<^item> \<open>Sel4\<close>: the boundary. Everything the source takes from the external crates \<open>sel4\<close> and
    \<open>sel4-root-task\<close> is a field of the record \<open>sel4\<close>, an argument of the definitions that use it;
    the store \<open>world\<close> holds the machine (kernel state of arbitrary type, IPC buffer) and the cells
    the source shares by reference (pending flags, pool masks, slot trackers).
  \<^item> \<open>Root\_Slots\<close>: the functions of cspace.rs that act on the root CSpace (\<open>copy\_to\_root\<close>,
    \<open>delete\_root\_slots\<close>, \<open>delete\_root\_slot\<close>, \<open>save\_caller\<close>), the laws they rely on in the kernel
    (\<open>root\_slot\_laws\<close>) and the \<open>ledger\<close>: what the allocator says is used is what is occupied.
  \<^item> \<open>Reference\_Kernel\<close>: a small concrete kernel at which the properties are applied.
  \<^item> \<open>Objects\<close>: object.rs; the loop over untyped regions as a recursion on candidates, specified
    by an inductive relation of skipped candidates.
  \<^item> \<open>Boot\<close>: boot.rs (\<open>Bootstrap\<close>, \<open>rollback\<close>, \<open>image\_frame\<close>, \<open>run\<close>) and the compile-time
    assertions of task.rs on the IPC buffer frame.
  \<^item> \<open>Messages\<close>, \<open>Endpoints\<close>, \<open>Reply\_Pool\<close>: ipc.rs, split into badges and messages; endpoints,
    receive slots and notifications; deferred replies. The locale \<open>slot\_pool\<close> states the
    contract of a bounded pool and is interpreted on the occupancy mask.
  \<^item> \<open>Ipc\_Protocol\<close>: the public operations on endpoints, messages and deferred replies as a
    step relation with its invariant.
  \<^item> \<open>Reply\_Routing\<close> and \<open>Server\<close>: the reply authority as the kernel documents it (the last caller,
    the callers saved in slots, the answers delivered), the effect of each operation on it, and a
    server over these operations as a step relation whose ghost state numbers the requests.
  \<^item> \<open>CSpace\<close>, \<open>VSpace\<close>, \<open>Thread\<close>: cspace.rs (child CSpaces), vspace.rs, thread.rs.
  \<^item> \<open>Task\_Layout\<close> and \<open>Task\<close>: \<open>TaskLayout::validate\<close> and the platform part of task.rs.
  \<^item> \<open>Faults\<close> and \<open>Fault\_Endpoint\<close>: the decoder and the endpoint adapter of fault.rs.
  \<^item> \<open>Accessors\<close>: the read access to messages, mappings, faults and tasks.
  \<^item> \<open>Panic\_Freedom\<close>: programs that return a result or an error, closed under composition, and
    the construction of tasks and objects as such programs.
  \<^item> \<open>Kernel\_Contract\<close> and \<open>Progress\<close>: a view of the kernel (capabilities, tables, mappings, child
    slots), the documented preconditions and effects of the invocations on it, a concrete kernel
    that checks every one of them, and the success of task construction under that contract.
  \<^item> \<open>Provision\<close>: success of the allocations and of the recovery mapping under the same contract, up
    to backing all reserved pages of a task.
  \<^item> \<open>Refusal\<close>: success of the rollback where the kernel deletes root capabilities, and a task that
    is refused because a capability delegated to it is absent.
  \<^item> \<open>Triples\<close>: pre- and postconditions for programs, with an error condition from which a
    rollback starts.
  \<^item> \<open>Memory\_View\<close> and \<open>Memory\_Growth\<close>: a view of the kernel's memory (the page behind a frame
    capability, the pages an address space contains), the documented effects of the invocations on
    it, and the effect of each construction step: only new capabilities and the new address space
    change.
  \<^item> \<open>Memory\_Kernel\<close>: every kernel with a record of frames and mappings beside its state, which
    satisfies the laws of the memory view.
  \<^item> \<open>Isolation\<close>: the address space of a task, what a rollback leaves of it, and a step relation
    over the bootstrap and the tasks made so far with the invariant that they share no memory but
    code and recovery frames.
  \<^item> \<open>Bounded\_Work\<close>: the number of kernel invocations of a construction, rollback included.
  \<^item> \<open>System\<close>: sequences of constructions through one bootstrap, successful or not, interleaved
    with other activity, as a step relation over the bootstrap, the world and the assets made so far.
  \<^item> \<open>Ipc\_Typing\<close>: the shape of the IPC buffer as a relation every operation keeps (another
    interpretation of \<open>step\_order\<close>), the type of received messages, and the runs that consume
    whatever is outstanding.
  \<^item> \<open>Unit\_Tests\<close>: the test modules of free\_slots.rs, ipc\_state.rs, task.rs and fault.rs,
    each test as a definition that evaluates to \<open>True\<close>.
  \<^item> \<open>Scenario\<close>: the integration scenario of tests/root-task/main.rs up to the start of its tasks.
  \<^item> \<open>Fault\_Recovery\<close>: the recovery from a page fault as that scenario does it, composed of the
    fault endpoint, the allocator and the recovery mapping.

  \<^bold>\<open>Conventions.\<close>
  A struct is a record whose fields carry a short prefix, a method \<open>T::m\<close> is a definition
  \<open>t\_m\<close>. A value holding a reference keeps the address of the cell it borrows. Slices are lists,
  slice lengths natural numbers; \<open>usize\<close> and kernel words are 64-bit words whose checked operations
  return \<open>None\<close> on overflow and whose unchecked ones are used only where the source does not check.
  Every slice bound, \<open>assert\<close> and \<open>expect\<close> that can fail is a \<open>Panic\<close> branch. Warnings and
  debug output have no effect on the state and are left out. No definition needs fuel: every loop is
  structural in a list that the source iterates over.

  \<^bold>\<open>What is assumed of the kernel.\<close>
  The properties hold for every kernel that satisfies the hypotheses they name, all of them
  documented effects of invocations: \<open>root\_slot\_laws\<close> (a successful retype or copy fills its
  destination slot, a failed one does not, a delete empties it, the other invocations leave root
  slots alone), \<open>recv\_keeps\_buffer\<close> and \<open>buffer\_wf\<close> (the buffer keeps its size, received
  lengths fit in it), \<open>ipc\_asserts\<close> and \<open>frame\_asserts\<close> (the compile-time assertions of ipc.rs and
  task.rs), \<open>levels\_ok\<close> (the levels of the page table each have a table object) and \<open>context\_wf\<close>
  (a user context has 31 general registers), \<open>kernel\_returns\<close> (an invocation returns a result or an
  error), \<open>kernel\_keeps\_buffer\<close> (no invocation resizes the IPC buffer), \<open>counts\<close> (a counter goes up by at
  most one with each invocation), injectivity of \<open>slot\_cptr\<close>; for success alone
  \<open>obliging\<close> (an invocation whose documented preconditions hold succeeds), \<open>deletes\<close> and \<open>clears\<close> (a
  root capability can be deleted) and \<open>needs\_source\<close> (a mint from an empty slot fails), for the recovery from a fault that answering a thread takes
  neither capabilities nor memory away; for the routing of answers \<open>reply\_laws\<close> (a receive
  replaces the caller, a reply answers and consumes it, saving moves it to a slot, a send to that
  slot answers it, deleting the slot drops it), with \<open>info\_law\<close> for the message information, which is
  built and packed outside the crate (it never reports more words than it was built with, and keeps
  a label, a capability count and a length of at most 52, 2 and 7 bits as they are); and for
  memory \<open>mem\_laws\<close> (a new frame is a page nobody had, a mapping adds one page to one address
  space, unmapping and deleting take pages only from the address space the capability is mapped in)
  with \<open>bare\<close> (the unallocated slots designate no memory). The concrete kernels \<open>ref\_sel4\<close>,
  \<open>view\_sel4\<close>, \<open>fault\_sel4\<close>, \<open>counting\<close> and \<open>remembering view\_sel4\<close> satisfy them, which the witnesses use.

  \<^bold>\<open>What is shown.\<close>
  Task construction is all or nothing: on success the slots of the task are exactly the slots
  consumed and now occupied, on failure allocator and occupied slots are as before. The ledger
  lemmas show it for each step and rollback restores it; where the kernel deletes what it is asked
  to, the rollback itself never fails. Tasks are isolated: a new address space contains the code
  page, read-only, and three pages nobody had before, no other address space changes, and over
  any sequence of constructions and recovery mappings two tasks share only code and recovery frames
  the caller passed. Under the contract, construction, allocation and recovery succeed as long as
  there are slots and memory, and the set-up of the integration scenario passes; a page fault is answered only after the missing page
  was mapped, and the recovery completes. No root slot, badge, tracked slot or pool slot
  has two owners. A created CSpace holds exactly its delegations, a created address space has each distinct
  translation table once, a created thread has the requested registers. The receive operations lose a reply authority on no
  branch but one, named below: the sender of a refused message is answered through the kernel, a delivered one keeps its authority
  until it is consumed, and a deferral either moves it to the lowest free pool slot or answers it with
  the slot released. Every message that reaches a user is well-typed, and from every reachable state
  all outstanding messages and deferred replies can be consumed. A server that handles one message at
  a time answers each request at most once, answers the thread that made it and no other, and
  with the message it gave, whatever it defers and in whatever order it completes. Layout validation accepts exactly the sound layouts and reports the first error, and
  the fault decoder is the exact inverse of the kernel's encoding. Three properties state behaviour
  that a caller may not expect: a receive refused because a reply is pending loses the receive slot it was given,
  \<open>try\_receive\<close> takes an unbadged empty call for no message and its caller is forgotten by the next receive, and, where a thread handles two messages at a time, the reply authorities of its two
  endpoints can cross.

  \<^bold>\<open>What is not modelled.\<close>
  lib.rs (re-exports) and build.rs (linker arguments); the part of the scenario of
  \<open>tests/root-task\<close> in which tasks run (the recovery from a page fault apart), whose outcome depends on their machine code and on
  memory read through raw pointers; the
  kernel itself; the textual \<open>Debug\<close> and \<open>Display\<close> output; panics of the entry point's error
  reporting. What a page contains is not modelled either: isolation is stated over
  which pages an address space contains, and the contents the root task reads and writes through
  its own mappings are left to the kernel parameter.
\<close>

end
